(* ===== verification/Prelude.thy ===== *)
theory Prelude
  imports Main "HOL-Library.Word" "HOL-Library.Code_Target_Nat" "HOL-Library.AList" "HOL-Library.Multiset"
begin

text \<open>
  Shared vocabulary of the development: the machine integers of the Go code, Go error values
  with \<open>errors.Is\<close> and \<open>errors.Join\<close>, results that may panic, the unspecified order in which
  Go ranges over a map, and Go maps as association lists with distinct keys.
\<close>

section \<open>Collections of rules\<close>

named_theorems frame \<open>what an operation leaves unchanged\<close>

section \<open>Machine integers\<close>

type_synonym u8 = "8 word"
type_synonym u16 = "16 word"
type_synonym u32 = "32 word"
type_synonym u64 = "64 word"
type_synonym bytes = "u8 list"

lemma unat_less: "unat (w :: 'a::len word) < 2 ^ LENGTH('a)"
  by (rule unsigned_less)

section \<open>Go error values\<close>

text \<open>
  A Go error is modelled by the site that builds it: a sentinel variable such as
  \<open>ErrNotFound\<close>, a system error number, an \<open>errors.New\<close> or \<open>fmt.Errorf\<close> text with the errors it
  wraps through \<open>%w\<close>, or the result of \<open>errors.Join\<close>. The format arguments that only end up in
  the rendered message are not kept.
\<close>

datatype go_error =
    Sentinel string
  | Errno nat
  | Errorf string "go_error list"
  | Joined "go_error list"

abbreviation errors_New :: "string \<Rightarrow> go_error" where
  "errors_New s \<equiv> Errorf s []"

fun errors_Is :: "go_error \<Rightarrow> go_error \<Rightarrow> bool" where
  "errors_Is (Sentinel s) t \<longleftrightarrow> Sentinel s = t"
| "errors_Is (Errno n) t \<longleftrightarrow> Errno n = t"
| "errors_Is (Errorf s es) t \<longleftrightarrow> Errorf s es = t \<or> list_ex (\<lambda>e. errors_Is e t) es"
| "errors_Is (Joined es) t \<longleftrightarrow> Joined es = t \<or> list_ex (\<lambda>e. errors_Is e t) es"

lemma errors_Is_refl [simp]: "errors_Is e e"
  by (cases e) auto

text \<open>\<open>errors.Join\<close> drops nil errors and is nil when nothing is left.\<close>

definition errors_Join :: "go_error option list \<Rightarrow> go_error option" where
  "errors_Join os = (case List.map_filter (\<lambda>x. x) os of [] \<Rightarrow> None | e # es \<Rightarrow> Some (Joined (e # es)))"

lemma map_filter_id_Nil_iff: "List.map_filter (\<lambda>x. x) os = [] \<longleftrightarrow> set os \<subseteq> {None}"
  by (induction os) (auto simp: map_filter_simps split: option.splits)

lemma errors_Join_None [simp]: "errors_Join os = None \<longleftrightarrow> set os \<subseteq> {None}"
  by (simp add: errors_Join_def map_filter_id_Nil_iff [symmetric] split: list.splits)

lemma errors_Join_map_Some: "errors_Join (map Some es) = (if es = [] then None else Some (Joined es))"
proof -
  have "List.map_filter (\<lambda>x. x) (map Some es) = es"
    by (induction es) (simp_all add: map_filter_simps)
  then show ?thesis by (simp add: errors_Join_def split: list.splits)
qed

section \<open>Searching a list\<close>

lemma find_in_set: "find P xs = Some x \<Longrightarrow> x \<in> set xs"
  by (auto simp: find_Some_iff)

lemma find_holds: "find P xs = Some x \<Longrightarrow> P x"
  by (auto simp: find_Some_iff)

section \<open>Results\<close>

text \<open>
  A Go function that returns \<open>(T, error)\<close> and whose value is not used together with an error
  is a sum. Where the code can dereference a nil pointer or slice out of range, the result is an
  \<open>outcome\<close>, with the run-time panic as a third case; a function returning only \<open>error\<close> is a
  \<open>unit outcome\<close>.
\<close>

datatype 'a outcome = Ok 'a | Err go_error | Panic

fun to_outcome :: "go_error + 'a \<Rightarrow> 'a outcome" where
  "to_outcome (Inl e) = Err e"
| "to_outcome (Inr x) = Ok x"

fun error_outcome :: "go_error option \<Rightarrow> unit outcome" where
  "error_outcome None = Ok ()"
| "error_outcome (Some e) = Err e"

lemma error_outcome_iffs [simp]:
  "error_outcome e = Ok u \<longleftrightarrow> e = None"
  "error_outcome e = Err x \<longleftrightarrow> e = Some x"
  "error_outcome e \<noteq> Panic"
  by (cases e; simp)+

fun outcome_bind :: "'a outcome \<Rightarrow> ('a \<Rightarrow> 'b outcome) \<Rightarrow> 'b outcome" where
  "outcome_bind (Ok x) f = f x"
| "outcome_bind (Err e) f = Err e"
| "outcome_bind Panic f = Panic"

lemma outcome_bind_Ok_iff [simp]:
  "outcome_bind m f = Ok y \<longleftrightarrow> (\<exists>x. m = Ok x \<and> f x = Ok y)"
  by (cases m) auto

lemma outcome_bind_Panic_iff [simp]:
  "outcome_bind m f = Panic \<longleftrightarrow> m = Panic \<or> (\<exists>x. m = Ok x \<and> f x = Panic)"
  by (cases m) auto

lemma outcome_bind_cong [fundef_cong]:
  "m = m' \<Longrightarrow> (\<And>x. m' = Ok x \<Longrightarrow> f x = g x) \<Longrightarrow> outcome_bind m f = outcome_bind m' g"
  by (cases m') auto

section \<open>The order of a range over a map\<close>

text \<open>
  Go leaves the iteration order of a map unspecified and varies it from loop to loop. A list of
  numbers codes the order the run-time picks: each number selects, modulo the length, the next
  element among those that remain. Every code gives a permutation and every permutation has a
  code, so a statement for all codes is a statement for all orders.
\<close>

fun go_range :: "nat list \<Rightarrow> 'a list \<Rightarrow> 'a list" where
  "go_range [] xs = xs"
| "go_range (n # ns) xs =
     (if xs = [] then []
      else let i = n mod length xs in (xs ! i) # go_range ns (take i xs @ drop (Suc i) xs))"

lemma mset_remove_nth:
  "i < length xs \<Longrightarrow> add_mset (xs ! i) (mset (take i xs @ drop (Suc i) xs)) = mset xs"
  by (subst (3) id_take_nth_drop [of i xs]) auto

lemma mset_go_range [simp]: "mset (go_range ns xs) = mset xs"
proof (induction ns xs rule: go_range.induct)
  case (1 xs)
  then show ?case by simp
next
  case (2 n ns xs)
  show ?case
  proof (cases "xs = []")
    case True
    then show ?thesis by simp
  next
    case False
    then have "n mod length xs < length xs" by simp
    with 2 False show ?thesis
      by (simp add: Let_def mset_remove_nth del: mset_append)
  qed
qed

lemma set_go_range [simp]: "set (go_range ns xs) = set xs"
  by (rule mset_eq_setD) simp

lemma length_go_range [simp]: "length (go_range ns xs) = length xs"
  by (rule mset_eq_length) simp

lemma distinct_go_range [simp]: "distinct (go_range ns xs) = distinct xs"
  by (rule mset_eq_imp_distinct_iff) simp

lemma go_range_Nil [simp]: "go_range ns [] = []"
  by (cases ns) simp_all

theorem go_range_complete: "mset ys = mset xs \<Longrightarrow> \<exists>ns. go_range ns xs = ys"
proof (induction ys arbitrary: xs)
  case Nil
  then have "go_range [] xs = []" by simp
  then show ?case by blast
next
  case (Cons y ys)
  then have "y \<in> set xs" by (metis list.set_intros(1) mset_eq_setD)
  then obtain i where i: "i < length xs" "xs ! i = y" by (auto simp: in_set_conv_nth)
  let ?r = "take i xs @ drop (Suc i) xs"
  have "add_mset y (mset ?r) = add_mset y (mset ys)"
    using mset_remove_nth [OF i(1)] i(2) Cons.prems by simp
  then have "mset ys = mset ?r" by simp
  from Cons.IH [OF this] obtain ns where "go_range ns ?r = ys" by blast
  with i have "go_range (i # ns) xs = y # ys" by (auto simp: Let_def)
  then show ?case by blast
qed

section \<open>Go maps as association lists\<close>

text \<open>
  A Go map is an association list with distinct keys: \<open>map_of\<close> is the lookup,
  \<open>AList.update\<close> the store, \<open>AList.delete\<close> the built-in \<open>delete\<close> and \<open>length\<close> the built-in
  \<open>len\<close>.
\<close>

type_synonym ('k, 'v) gomap = "('k \<times> 'v) list"

abbreviation wf_map :: "('k, 'v) gomap \<Rightarrow> bool" where
  "wf_map m \<equiv> distinct (map fst m)"

abbreviation go_set :: "'k \<Rightarrow> 'v \<Rightarrow> ('k, 'v) gomap \<Rightarrow> ('k, 'v) gomap" where
  "go_set \<equiv> AList.update"

abbreviation go_delete :: "'k \<Rightarrow> ('k, 'v) gomap \<Rightarrow> ('k, 'v) gomap" where
  "go_delete \<equiv> AList.delete"

lemmas gomap_simps [simp] = AList.update_conv' AList.delete_conv' AList.dom_update

lemma wf_map_set [simp]: "wf_map m \<Longrightarrow> wf_map (go_set k v m)"
  by (rule AList.distinct_update)

lemma wf_map_delete [simp]: "wf_map m \<Longrightarrow> wf_map (go_delete k m)"
  by (rule AList.distinct_delete)

lemma length_go_set:
  "length (go_set k v m) = (if map_of m k = None then Suc (length m) else length m)"
  by (induction m) auto

lemma length_go_delete_le: "length (go_delete k m) \<le> length m"
  by (rule AList.length_delete_le)

lemma wf_map_go_range [simp]: "wf_map (go_range ns m) = wf_map m"
proof -
  have "mset (map fst (go_range ns m)) = mset (map fst m)" by simp
  then show ?thesis by (rule mset_eq_imp_distinct_iff)
qed

lemma map_of_go_range [simp]: "wf_map m \<Longrightarrow> map_of (go_range ns m) = map_of m"
  by (rule map_of_inject_set [THEN iffD2]) auto

lemma wf_map_in_set: "wf_map m \<Longrightarrow> (k, v) \<in> set m \<longleftrightarrow> map_of m k = Some v"
  by simp

end
