(* ===== verification/GoStrings.thy ===== *)
theory GoStrings
  imports Prelude
begin

text \<open>
  The parts of Go's \<open>string\<close>, \<open>strings\<close>, \<open>unicode/utf8\<close> and \<open>encoding/binary\<close> that the program
  relies on. A Go string is its sequence of bytes, which is the type \<open>string\<close>: a \<open>char\<close> is a
  byte. Ranging over a string decodes UTF-8, with \<open>U+FFFD\<close> of width 1 for each invalid byte.
\<close>

section \<open>UTF-8\<close>

definition RuneError :: nat where
  "RuneError = 65533"

abbreviation byte_at :: "char \<Rightarrow> nat" where
  "byte_at \<equiv> of_char"

definition continuation :: "nat \<Rightarrow> bool" where
  "continuation b \<longleftrightarrow> 128 \<le> b \<and> b \<le> 191"

text \<open>
  The second byte of a sequence, by its first: this excludes overlong encodings, surrogates and
  code points above \<open>U+10FFFF\<close>.
\<close>

definition second_ok :: "nat \<Rightarrow> nat \<Rightarrow> bool" where
  "second_ok b0 b1 \<longleftrightarrow>
     (if b0 = 224 then 160 \<le> b1 \<and> b1 \<le> 191
      else if b0 = 237 then 128 \<le> b1 \<and> b1 \<le> 159
      else if b0 = 240 then 144 \<le> b1 \<and> b1 \<le> 191
      else if b0 = 244 then 128 \<le> b1 \<and> b1 \<le> 143
      else continuation b1)"

definition seq_len :: "nat \<Rightarrow> nat" where
  "seq_len b0 =
     (if b0 < 128 then 1 else if b0 < 194 then 0 else if b0 < 224 then 2
      else if b0 < 240 then 3 else if b0 < 245 then 4 else 0)"

text \<open>\<open>utf8.DecodeRuneInString\<close>: the first code point and its width in bytes.\<close>

fun decode_rune :: "string \<Rightarrow> nat \<times> nat" where
  "decode_rune [] = (RuneError, 0)"
| "decode_rune (c # cs) =
     (let b0 = byte_at c in
      if seq_len b0 = 1 then (b0, 1)
      else if seq_len b0 = 2 then
        (case cs of
           c1 # _ \<Rightarrow> if second_ok b0 (byte_at c1)
                     then ((b0 - 192) * 64 + (byte_at c1 - 128), 2) else (RuneError, 1)
         | _ \<Rightarrow> (RuneError, 1))
      else if seq_len b0 = 3 then
        (case cs of
           c1 # c2 # _ \<Rightarrow>
             if second_ok b0 (byte_at c1) \<and> continuation (byte_at c2)
             then ((b0 - 224) * 4096 + (byte_at c1 - 128) * 64 + (byte_at c2 - 128), 3)
             else (RuneError, 1)
         | _ \<Rightarrow> (RuneError, 1))
      else if seq_len b0 = 4 then
        (case cs of
           c1 # c2 # c3 # _ \<Rightarrow>
             if second_ok b0 (byte_at c1) \<and> continuation (byte_at c2) \<and> continuation (byte_at c3)
             then ((b0 - 240) * 262144 + (byte_at c1 - 128) * 4096 + (byte_at c2 - 128) * 64
                   + (byte_at c3 - 128), 4)
             else (RuneError, 1)
         | _ \<Rightarrow> (RuneError, 1))
      else (RuneError, 1))"

lemma decode_rune_width: "s \<noteq> [] \<Longrightarrow> 0 < snd (decode_rune s)"
  by (cases s) (auto simp: Let_def split: list.splits)

lemma decode_rune_ascii: "byte_at c < (128::nat) \<Longrightarrow> decode_rune (c # cs) = (byte_at c, 1)"
  by (simp add: seq_len_def Let_def)

lemma seq_len_of_nonascii: "128 \<le> b \<Longrightarrow> seq_len b \<noteq> 1"
  by (simp add: seq_len_def)

text \<open>A byte that is not ASCII never decodes to an ASCII code point.\<close>

lemma decode_rune_nonascii:
  assumes "128 \<le> (byte_at c :: nat)"
  shows "128 \<le> fst (decode_rune (c # cs))"
proof -
  define b0 :: nat where "b0 = byte_at c"
  have b0: "128 \<le> b0" using assms by (simp add: b0_def)
  have two: "\<And>b1. seq_len b0 = 2 \<Longrightarrow> 128 \<le> (b0 - 192) * 64 + (b1 - 128)"
    by (auto simp: seq_len_def split: if_splits)
  have three: "\<And>b1 b2. seq_len b0 = 3 \<Longrightarrow> second_ok b0 b1 \<Longrightarrow>
      128 \<le> (b0 - 224) * 4096 + (b1 - 128) * 64 + (b2 - 128)"
    by (auto simp: seq_len_def second_ok_def split: if_splits)
  have four: "\<And>b1 b2 b3. seq_len b0 = 4 \<Longrightarrow> second_ok b0 b1 \<Longrightarrow>
      128 \<le> (b0 - 240) * 262144 + (b1 - 128) * 4096 + (b2 - 128) * 64 + (b3 - 128)"
    by (auto simp: seq_len_def second_ok_def split: if_splits)
  show ?thesis
    using seq_len_of_nonascii [OF b0] two three four
    by (auto simp: Let_def RuneError_def b0_def [symmetric] split: list.splits)
qed

text \<open>The code points of \<open>for _, c := range s\<close>.\<close>

function runes :: "string \<Rightarrow> nat list" where
  "runes s = (if s = [] then [] else fst (decode_rune s) # runes (drop (snd (decode_rune s)) s))"
  by pat_completeness auto
termination
  by (relation "measure length") (auto intro!: diff_less decode_rune_width)

declare runes.simps [simp del]

lemma runes_Nil [simp]: "runes [] = []"
  by (simp add: runes.simps)

lemma runes_Cons: "runes (c # cs) = fst (decode_rune (c # cs)) # runes (drop (snd (decode_rune (c # cs))) (c # cs))"
  by (simp add: runes.simps [of "c # cs"])

lemma runes_ascii: "byte_at c < (128::nat) \<Longrightarrow> runes (c # cs) = byte_at c # runes cs"
  by (simp add: runes_Cons decode_rune_ascii del: decode_rune.simps)

text \<open>
  A test on code points that only ASCII code points pass is the same test on the bytes: this is
  what lets a loop over runes be read as a loop over bytes.
\<close>

lemma runes_all_ascii:
  assumes ascii: "\<And>r. P r \<Longrightarrow> r < 128"
  shows "list_all P (runes s) \<longleftrightarrow> list_all (\<lambda>c. P (byte_at c)) s"
proof (induction s)
  case Nil
  then show ?case by simp
next
  case (Cons c cs)
  show ?case
  proof (cases "byte_at c < (128::nat)")
    case True
    with Cons show ?thesis by (simp add: runes_ascii)
  next
    case False
    then have "\<not> P (byte_at c)" "\<not> P (fst (decode_rune (c # cs)))"
      using ascii [of "byte_at c"] ascii [of "fst (decode_rune (c # cs))"] decode_rune_nonascii [of c cs]
      by (auto simp del: decode_rune.simps)
    then show ?thesis by (simp add: runes_Cons del: decode_rune.simps)
  qed
qed

section \<open>White space and prefixes\<close>

text \<open>\<open>unicode.IsSpace\<close>.\<close>

definition is_space :: "nat \<Rightarrow> bool" where
  "is_space r \<longleftrightarrow> 9 \<le> r \<and> r \<le> 13 \<or> r \<in> {32, 133, 160, 5760, 8232, 8233, 8239, 8287, 12288}
     \<or> 8192 \<le> r \<and> r \<le> 8202"

function trim_left :: "string \<Rightarrow> string" where
  "trim_left s =
     (if s \<noteq> [] \<and> is_space (fst (decode_rune s)) then trim_left (drop (snd (decode_rune s)) s) else s)"
  by pat_completeness auto
termination
  by (relation "measure length") (auto intro!: diff_less decode_rune_width)

declare trim_left.simps [simp del]

text \<open>
  \<open>utf8.DecodeLastRuneInString\<close> looks back over at most three continuation bytes for a start
  byte and decodes there; a decoding that does not end at the end of the string is invalid.
\<close>

definition last_start :: "string \<Rightarrow> nat" where
  "last_start s =
     (let e = length s; lim = e - 4;
          cands = filter (\<lambda>i. lim \<le> i \<and> \<not> continuation (byte_at (s ! i))) (rev [0..<e - 1])
      in case cands of [] \<Rightarrow> (if lim = 0 then 0 else lim - 1) | i # _ \<Rightarrow> i)"

definition decode_last_rune :: "string \<Rightarrow> nat \<times> nat" where
  "decode_last_rune s =
     (if s = [] then (RuneError, 0)
      else if byte_at (last s) < (128::nat) then (byte_at (last s), 1)
      else let (r, size) = decode_rune (drop (last_start s) s)
           in if last_start s + size \<noteq> length s then (RuneError, 1) else (r, size))"

lemma last_start_less:
  assumes "s \<noteq> []"
  shows "last_start s < length s"
proof -
  define cands where "cands = filter (\<lambda>i. length s - 4 \<le> i \<and> \<not> continuation (byte_at (s ! i)))
    (rev [0..<length s - 1])"
  have sub: "set cands \<subseteq> {0..<length s - 1}" by (auto simp: cands_def)
  have eq: "last_start s = (case cands of [] \<Rightarrow> (if length s - 4 = 0 then 0 else length s - 4 - 1) | i # _ \<Rightarrow> i)"
    by (simp add: last_start_def cands_def Let_def)
  from assms sub show ?thesis
    by (cases cands) (auto simp: eq)
qed

lemma decode_last_rune_width: "s \<noteq> [] \<Longrightarrow> 0 < snd (decode_last_rune s)"
  using decode_rune_width [of "drop (last_start s) s"] last_start_less [of s]
  by (auto simp: decode_last_rune_def split: prod.splits)

function trim_right :: "string \<Rightarrow> string" where
  "trim_right s =
     (if s \<noteq> [] \<and> is_space (fst (decode_last_rune s))
      then trim_right (take (length s - snd (decode_last_rune s)) s) else s)"
  by pat_completeness auto
termination
  by (relation "measure length") (auto intro!: diff_less decode_last_rune_width)

declare trim_right.simps [simp del]

definition TrimSpace :: "string \<Rightarrow> string" where
  "TrimSpace s = trim_right (trim_left s)"

lemma trim_left_le: "length (trim_left s) \<le> length s"
proof (induction s rule: trim_left.induct)
  case (1 s)
  then show ?case by (subst trim_left.simps) force
qed

lemma trim_right_le: "length (trim_right s) \<le> length s"
proof (induction s rule: trim_right.induct)
  case (1 s)
  then show ?case by (subst trim_right.simps) force
qed

text \<open>A string is its own trim exactly when neither end is a space.\<close>

lemma trim_left_id: "trim_left s = s \<longleftrightarrow> s = [] \<or> \<not> is_space (fst (decode_rune s))"
proof (cases "s \<noteq> [] \<and> is_space (fst (decode_rune s))")
  case True
  then have "length (trim_left s) < length s"
    using trim_left_le [of "drop (snd (decode_rune s)) s"] decode_rune_width [of s]
    by (subst trim_left.simps) (auto intro: le_less_trans)
  with True show ?thesis by auto
next
  case False
  then show ?thesis by (subst trim_left.simps) auto
qed

lemma trim_right_id: "trim_right s = s \<longleftrightarrow> s = [] \<or> \<not> is_space (fst (decode_last_rune s))"
proof (cases "s \<noteq> [] \<and> is_space (fst (decode_last_rune s))")
  case True
  then have "length (trim_right s) < length s"
    using trim_right_le [of "take (length s - snd (decode_last_rune s)) s"] decode_last_rune_width [of s]
    by (subst trim_right.simps) (auto intro: le_less_trans)
  with True show ?thesis by auto
next
  case False
  then show ?thesis by (subst trim_right.simps) auto
qed

lemma TrimSpace_id:
  "TrimSpace s = s \<longleftrightarrow>
     s = [] \<or> \<not> is_space (fst (decode_rune s)) \<and> \<not> is_space (fst (decode_last_rune s))"
proof
  assume "TrimSpace s = s"
  then have "length s \<le> length (trim_left s)"
    using trim_right_le [of "trim_left s"] by (simp add: TrimSpace_def)
  then have "trim_left s = s"
    using trim_left_le [of s] by (subst trim_left.simps)
      (metis decode_rune_width le_less_trans length_drop not_less trim_left.simps trim_left_le
        diff_less length_greater_0_conv)
  with \<open>TrimSpace s = s\<close> show "s = [] \<or> \<not> is_space (fst (decode_rune s)) \<and> \<not> is_space (fst (decode_last_rune s))"
    by (auto simp: TrimSpace_def trim_left_id trim_right_id)
next
  assume "s = [] \<or> \<not> is_space (fst (decode_rune s)) \<and> \<not> is_space (fst (decode_last_rune s))"
  then show "TrimSpace s = s"
    using trim_left_id [of s] trim_right_id [of s] by (auto simp: TrimSpace_def)
qed

definition HasPrefix :: "string \<Rightarrow> string \<Rightarrow> bool" where
  "HasPrefix s p \<longleftrightarrow> take (length p) s = p"

text \<open>\<open>strings.CutPrefix\<close> and \<open>strings.TrimPrefix\<close>.\<close>

definition CutPrefix :: "string \<Rightarrow> string \<Rightarrow> string option" where
  "CutPrefix s p = (if HasPrefix s p then Some (drop (length p) s) else None)"

definition ContainsAny :: "string \<Rightarrow> string \<Rightarrow> bool" where
  "ContainsAny s chars \<longleftrightarrow> list_ex (\<lambda>c. c \<in> set chars) s"

lemma HasPrefix_append [simp]: "HasPrefix (p @ s) p"
  by (simp add: HasPrefix_def)

lemma CutPrefix_append [simp]: "CutPrefix (p @ s) p = Some s"
  by (simp add: CutPrefix_def)

section \<open>Byte order\<close>

datatype endian = Little | Big

definition be_nat :: "bytes \<Rightarrow> nat" where
  "be_nat bs = foldl (\<lambda>a b. a * 256 + unat b) 0 bs"

definition be_bytes :: "nat \<Rightarrow> nat \<Rightarrow> bytes" where
  "be_bytes k n = map (\<lambda>i. of_nat (n div 256 ^ (k - Suc i))) [0..<k]"

text \<open>\<open>binary.BigEndian\<close>, and \<open>binary.NativeEndian\<close> on a machine of the given byte order.\<close>

definition native_nat :: "endian \<Rightarrow> bytes \<Rightarrow> nat" where
  "native_nat en bs = be_nat (case en of Little \<Rightarrow> rev bs | Big \<Rightarrow> bs)"

definition native_bytes :: "endian \<Rightarrow> nat \<Rightarrow> nat \<Rightarrow> bytes" where
  "native_bytes en k n = (case en of Little \<Rightarrow> rev (be_bytes k n) | Big \<Rightarrow> be_bytes k n)"

lemma be_nat_Nil [simp]: "be_nat [] = 0"
  by (simp add: be_nat_def)

lemma be_nat_snoc: "be_nat (bs @ [b]) = be_nat bs * 256 + unat b"
  by (simp add: be_nat_def)

lemma length_be_bytes [simp]: "length (be_bytes k n) = k"
  by (simp add: be_bytes_def)

lemma length_native_bytes [simp]: "length (native_bytes en k n) = k"
  by (simp add: native_bytes_def split: endian.splits)

lemma be_bytes_Suc: "be_bytes (Suc k) n = be_bytes k (n div 256) @ [of_nat n]"
proof -
  have "n div 256 div 256 ^ (k - Suc i) = n div 256 ^ (k - i)" if "i < k" for i
    using that by (simp add: div_mult2_eq [symmetric] Suc_diff_Suc flip: power_Suc)
  then show ?thesis by (simp add: be_bytes_def)
qed

lemma unat_of_nat_byte: "unat (of_nat n :: u8) = n mod 256"
  by (simp add: unat_of_nat)

lemma be_nat_be_bytes: "be_nat (be_bytes k n) = n mod 256 ^ k"
proof (induction k arbitrary: n)
  case 0
  then show ?case by (simp add: be_bytes_def)
next
  case (Suc k)
  have "n div 256 mod 256 ^ k * 256 + n mod 256 = n mod (256 * 256 ^ k)"
    by (simp add: mod_mult2_eq)
  with Suc show ?case
    by (simp add: be_bytes_Suc be_nat_snoc unat_of_nat_byte)
qed

lemma be_nat_less: "be_nat bs < 256 ^ length bs"
proof (induction bs rule: rev_induct)
  case Nil
  then show ?case by simp
next
  case (snoc b bs)
  have "unat b < 256" using unat_less [of b] by simp
  with snoc show ?case by (simp add: be_nat_snoc)
qed

lemma be_bytes_be_nat: "be_bytes (length bs) (be_nat bs) = bs"
proof (induction bs rule: rev_induct)
  case Nil
  then show ?case by (simp add: be_bytes_def)
next
  case (snoc b bs)
  have b: "unat b < 256" using unat_less [of b] by simp
  then have "(be_nat bs * 256 + unat b) div 256 = be_nat bs" by simp
  moreover have "(of_nat (be_nat bs * 256 + unat b) :: u8) = b"
    using b by (simp only: word_unat_eq_iff unat_of_nat_byte) simp
  ultimately show ?case using snoc by (simp add: be_bytes_Suc be_nat_snoc)
qed

lemma native_nat_native_bytes [simp]: "native_nat en (native_bytes en k n) = n mod 256 ^ k"
  by (cases en) (simp_all add: native_nat_def native_bytes_def be_nat_be_bytes)

lemma native_nat_less: "native_nat en bs < 256 ^ length bs"
  using be_nat_less [of bs] be_nat_less [of "rev bs"] by (simp add: native_nat_def split: endian.splits)

end
