(* ===== verification/Netip_Roundtrip.thy ===== *)
theory Netip_Roundtrip
  imports Netip
begin

text \<open>
  Printing and parsing an address without a zone gives the address back, for IPv4 and for IPv6
  with and without an ellipsis. The proof follows the parser: one lemma for a number, one for a
  colon-separated run of groups, and the shape of the printed string around the longest run of
  zeros.
\<close>

section \<open>Numbers\<close>

lemma byte_digit_char: "d < 16 \<Longrightarrow> byte_at (digit_char d) = (if d < 10 then 48 + d else 87 + d :: nat)"
  by (simp add: digit_char_def)

lemma is_digit_digit_char [simp]: "d < 10 \<Longrightarrow> is_digit (digit_char d)"
  by (simp add: is_digit_def byte_digit_char)

lemma hex_digit_digit_char [simp]: "d < 16 \<Longrightarrow> hex_digit (digit_char d) = Some d"
  by (simp add: hex_digit_def byte_digit_char)

lemma digit_char_neq [simp]:
  assumes "d < 16"
  shows "digit_char d \<noteq> CHR ''.''" "digit_char d \<noteq> CHR '':''" "digit_char d \<noteq> CHR ''%''"
proof -
  have "byte_at (digit_char d) \<noteq> (46 :: nat)" "byte_at (digit_char d) \<noteq> (58 :: nat)"
    "byte_at (digit_char d) \<noteq> (37 :: nat)"
    using assms by (auto simp: byte_digit_char)
  then show "digit_char d \<noteq> CHR ''.''" "digit_char d \<noteq> CHR '':''" "digit_char d \<noteq> CHR ''%''"
    by auto
qed

lemma ipv4_fields_digit:
  "d < 10 \<Longrightarrow> ipv4_fields prev val digLen fs (digit_char d # cs) =
     (if digLen = 1 \<and> val = 0 then None
      else if val * 10 + d > 255 then None
      else ipv4_fields (Some (digit_char d)) (val * 10 + d) (Suc digLen) fs cs)"
  by (simp add: byte_digit_char)

lemma ipv4_fields_decimal:
  assumes "x < 256"
  shows "\<exists>d < 10. \<exists>l. ipv4_fields prev 0 0 fs (appendDecimal x @ rest) =
    ipv4_fields (Some (digit_char d)) x l fs rest"
proof -
  consider "x < 10" | "10 \<le> x" "x < 100" | "100 \<le> x" by linarith
  then show ?thesis
  proof cases
    case 1
    then show ?thesis by (intro exI [of _ x]) (auto simp: appendDecimal_def ipv4_fields_digit simp del: ipv4_fields.simps)
  next
    case 2
    then have "x div 10 mod 10 = x div 10" "0 < x div 10" "x div 10 * 10 + x mod 10 = x" by auto
    with 2 show ?thesis
      by (intro exI [of _ "x mod 10"]) (auto simp: appendDecimal_def ipv4_fields_digit simp del: ipv4_fields.simps)
  next
    case 3
    have "x div 100 = x div 10 div 10" by (simp add: div_mult2_eq [symmetric])
    then have "x div 100 * 10 + x div 10 mod 10 = x div 10" by simp
    moreover have "0 < x div 100" "x div 100 < 10" "x div 10 \<le> 255" "x div 10 * 10 + x mod 10 = x"
      using 3 assms by auto
    ultimately have d: "0 < x div 100" "x div 100 < 10" "x div 100 * 10 + x div 10 mod 10 = x div 10"
      "x div 10 \<le> 255" "x div 10 * 10 + x mod 10 = x" by blast+
    with 3 assms show ?thesis
      by (intro exI [of _ "x mod 10"]) (auto simp: appendDecimal_def ipv4_fields_digit simp del: ipv4_fields.simps)
  qed
qed

lemma appendDecimal_nonempty [simp]: "appendDecimal x \<noteq> []"
  by (simp add: appendDecimal_def)

lemma ipv4_fields_octet:
  assumes "x < 256" "cs \<noteq> []" "length fs < 3"
  shows "ipv4_fields prev 0 0 fs (appendDecimal x @ CHR ''.'' # cs) = ipv4_fields (Some (CHR ''.'')) 0 0 (fs @ [x]) cs"
proof -
  obtain d l where "d < 10" "ipv4_fields prev 0 0 fs (appendDecimal x @ CHR ''.'' # cs) =
      ipv4_fields (Some (digit_char d)) x l fs (CHR ''.'' # cs)"
    using ipv4_fields_decimal [OF assms(1)] by blast
  with assms show ?thesis by (simp add: is_digit_def)
qed

lemma ipv4_fields_last:
  assumes "x < 256"
  shows "ipv4_fields prev 0 0 fs (appendDecimal x) = (if length fs < 3 then None else Some (fs @ [x]))"
proof -
  obtain d l where "d < 10" "ipv4_fields prev 0 0 fs (appendDecimal x @ []) = ipv4_fields (Some (digit_char d)) x l fs []"
    using ipv4_fields_decimal [OF assms] by blast
  then show ?thesis by simp
qed

section \<open>IPv4\<close>

lemma be_bytes_4: "be_bytes 4 n = [of_nat (n div 16777216), of_nat (n div 65536), of_nat (n div 256), of_nat n]"
  by (simp add: be_bytes_def upt_rec numeral_3_eq_3)

lemma parseIPv4_string4: "parseIPv4 (string4 w) = Some (IPv4 w)"
proof -
  define bs where "bs = be_bytes 4 (unat w)"
  obtain a b c d where bs: "bs = [a, b, c, d]"
    by (simp add: bs_def be_bytes_4)
  have small: "unat x < 256" for x :: u8 using unat_less [of x] by simp
  have "string4 w = appendDecimal (unat a) @ CHR ''.'' # appendDecimal (unat b) @ CHR ''.'' #
      appendDecimal (unat c) @ CHR ''.'' # appendDecimal (unat d)"
    using bs by (simp add: string4_def bs_def [symmetric])
  then have "ipv4_fields None 0 0 [] (string4 w) = Some (map unat bs)"
    using bs by (simp add: ipv4_fields_octet ipv4_fields_last small del: ipv4_fields.simps)
  moreover have "be_nat bs = unat w"
    using unat_less [of w] by (simp add: bs_def be_nat_be_bytes)
  ultimately show ?thesis by (simp add: parseIPv4_def comp_def)
qed

lemma appendDecimal_chars: "c \<in> set (appendDecimal x) \<Longrightarrow> x < 256 \<Longrightarrow> \<exists>d < 10. c = digit_char d"
proof -
  assume "x < 256"
  then have "x div 100 < 10" "x div 10 mod 10 < 10" "x mod 10 < 10" by auto
  moreover assume "c \<in> set (appendDecimal x)"
  then have "c = digit_char (x div 100) \<or> c = digit_char (x div 10 mod 10) \<or> c = digit_char (x mod 10)"
    by (auto simp: appendDecimal_def split: if_splits)
  ultimately show ?thesis by blast
qed

lemma ParseAddr_from_skip:
  "\<forall>c \<in> set p. c \<notin> {CHR ''.'', CHR '':'', CHR ''%''} \<Longrightarrow> ParseAddr_from s (p @ cs) = ParseAddr_from s cs"
  by (induction p) auto

lemma ParseAddr_string4: "ParseAddr (string4 w) = Some (IPv4 w)"
proof -
  define bs where "bs = be_bytes 4 (unat w)"
  obtain a b c d where bs: "bs = [a, b, c, d]"
    by (simp add: bs_def be_bytes_4)
  obtain t where t: "string4 w = appendDecimal (unat a) @ CHR ''.'' # t"
    using bs by (simp add: string4_def bs_def [symmetric])
  have "unat a < 256" using unat_less [of a] by simp
  then have "\<forall>c \<in> set (appendDecimal (unat a)). c \<notin> {CHR ''.'', CHR '':'', CHR ''%''}"
    by (auto dest!: appendDecimal_chars)
  then have "ParseAddr (string4 w) = parseIPv4 (string4 w)"
    by (simp add: ParseAddr_def t ParseAddr_from_skip)
  then show ?thesis by (simp add: parseIPv4_string4)
qed

section \<open>IPv6\<close>

lemma hex_scan_digit:
  "d < 16 \<Longrightarrow> hex_scan off acc (digit_char d # cs) =
     (if off > 3 then None else if acc * 16 + d > 65535 then None else hex_scan (Suc off) (acc * 16 + d) cs)"
  by simp

lemma hex_scan_stop: "rest = [] \<or> hex_digit (hd rest) = None \<Longrightarrow> hex_scan off acc rest = Some (off, acc, rest)"
  by (cases rest) auto

lemma hex_parts:
  "x div 16 * 16 + x mod 16 = (x :: nat)"
  "x div 256 * 16 + x div 16 mod 16 = x div 16"
  "x div 4096 * 16 + x div 256 mod 16 = x div 256"
proof -
  have "x div 256 = x div 16 div 16" "x div 4096 = x div 256 div 16"
    by (simp_all add: div_mult2_eq [symmetric])
  then show "x div 16 * 16 + x mod 16 = x" "x div 256 * 16 + x div 16 mod 16 = x div 16"
    "x div 4096 * 16 + x div 256 mod 16 = x div 256" by simp_all
qed

lemma hex_scan_appendHex:
  assumes "x < 65536" and stop: "rest = [] \<or> hex_digit (hd rest) = None"
  shows "\<exists>l. hex_scan 0 0 (appendHex x @ rest) = Some (Suc l, x, rest)"
proof -
  have le: "x div 16 \<le> 65535" "x div 256 \<le> 65535" "x div 4096 \<le> 65535" "x div 4096 < 16"
    using assms by auto
  have small: "x < 16 \<Longrightarrow> x mod 16 = x" "x < 256 \<Longrightarrow> x div 16 mod 16 = x div 16"
    "x < 4096 \<Longrightarrow> x div 256 mod 16 = x div 256" by auto
  note steps = appendHex_def hex_scan_digit hex_scan_stop [OF stop] hex_parts
  consider "x < 16" | "16 \<le> x" "x < 256" | "256 \<le> x" "x < 4096" | "4096 \<le> x" by linarith
  then show ?thesis
    using le small assms(1) by cases (simp_all add: steps del: hex_scan.simps)
qed

lemma appendHex_digits: "c \<in> set (appendHex x) \<Longrightarrow> x < 65536 \<Longrightarrow> \<exists>d < 16. c = digit_char d"
proof -
  assume "x < 65536"
  then have "x div 4096 < 16" "x div 256 mod 16 < 16" "x div 16 mod 16 < 16" "x mod 16 < 16" by auto
  moreover assume "c \<in> set (appendHex x)"
  then have "c = digit_char (x div 4096) \<or> c = digit_char (x div 256 mod 16) \<or>
      c = digit_char (x div 16 mod 16) \<or> c = digit_char (x mod 16)"
    by (auto simp: appendHex_def split: if_splits)
  ultimately show ?thesis by blast
qed

lemma appendHex_nonempty [simp]: "appendHex x \<noteq> []"
  by (simp add: appendHex_def)

lemma hd_appendHex: "x < 65536 \<Longrightarrow> hd (appendHex x) \<noteq> CHR '':''"
  using appendHex_digits [of "hd (appendHex x)" x] digit_char_neq(2) by (metis appendHex_nonempty hd_in_set)

abbreviation small_groups :: "nat list \<Rightarrow> bool" where
  "small_groups gs \<equiv> \<forall>g \<in> set gs. g < 65536"

abbreviation group_bytes :: "nat list \<Rightarrow> bytes" where
  "group_bytes gs \<equiv> concat (map (be_bytes 2) gs)"

lemma length_group_bytes [simp]: "length (group_bytes gs) = 2 * length gs"
  by (induction gs) auto

lemma colon_not_hex [simp]: "hex_digit (CHR '':'') = None"
  by (simp add: hex_digit_def)

lemma hexs_singleton [simp]: "hexs [g] = appendHex g"
  by (simp add: hexs_def)

lemma hexs_Nil [simp]: "hexs [] = []"
  by (simp add: hexs_def)

lemma hexs_Cons: "gs \<noteq> [] \<Longrightarrow> hexs (g # gs) = appendHex g @ CHR '':'' # hexs gs"
  by (cases gs) (auto simp: hexs_def)

lemma hexs_hd:
  assumes "gs \<noteq> []" "small_groups gs"
  shows "hexs gs \<noteq> []" "hd (hexs gs) \<noteq> CHR '':''"
proof -
  obtain g gs' where gs: "gs = g # gs'" using assms by (cases gs) auto
  show "hexs gs \<noteq> []" "hd (hexs gs) \<noteq> CHR '':''"
    using assms hd_appendHex [of g] by (cases gs'; simp add: gs hexs_def)+
qed

lemma ipv6_loop_last:
  assumes "x < 65536"
  shows "ipv6_loop (Suc n) ip el (appendHex x) = Some (ip @ be_bytes 2 x, el, [])"
proof -
  obtain l where "hex_scan 0 0 (appendHex x @ []) = Some (Suc l, x, [])"
    using hex_scan_appendHex [OF assms] by blast
  then show ?thesis by simp
qed

lemma ipv6_loop_next:
  assumes "x < 65536" "s \<noteq> []" "hd s \<noteq> CHR '':''"
  shows "ipv6_loop (Suc n) ip el (appendHex x @ CHR '':'' # s) = ipv6_loop n (ip @ be_bytes 2 x) el s"
proof -
  obtain l where "hex_scan 0 0 (appendHex x @ CHR '':'' # s) = Some (Suc l, x, CHR '':'' # s)"
    using hex_scan_appendHex [OF assms(1), of "CHR '':'' # s"] by auto
  with assms show ?thesis by (cases s) (auto simp: Let_def)
qed

lemma ipv6_loop_ellipsis:
  assumes "x < 65536"
  shows "ipv6_loop (Suc n) ip None (appendHex x @ CHR '':'' # CHR '':'' # s) =
    (let ip' = ip @ be_bytes 2 x in
     if s = [] then Some (ip', Some (length ip'), []) else ipv6_loop n ip' (Some (length ip')) s)"
proof -
  obtain l where "hex_scan 0 0 (appendHex x @ CHR '':'' # CHR '':'' # s) = Some (Suc l, x, CHR '':'' # CHR '':'' # s)"
    using hex_scan_appendHex [OF assms, of "CHR '':'' # CHR '':'' # s"] by auto
  then show ?thesis by (simp add: Let_def)
qed

lemma ipv6_loop_groups:
  "gs \<noteq> [] \<Longrightarrow> small_groups gs \<Longrightarrow> length gs \<le> n \<Longrightarrow>
   ipv6_loop n ip el (hexs gs) = Some (ip @ group_bytes gs, el, [])"
proof (induction gs arbitrary: n ip)
  case Nil
  then show ?case by simp
next
  case (Cons g gs)
  then obtain m where n: "n = Suc m" "length gs \<le> m" by (cases n) auto
  show ?case
  proof (cases "gs = []")
    case True
    with Cons.prems n show ?thesis by (simp add: ipv6_loop_last del: ipv6_loop.simps)
  next
    case False
    with Cons n hexs_hd [of gs] show ?thesis
      by (simp add: hexs_Cons ipv6_loop_next del: ipv6_loop.simps)
  qed
qed

lemma hexs_append_ellipsis_hd:
  "gs \<noteq> [] \<Longrightarrow> small_groups gs \<Longrightarrow> hexs gs @ t \<noteq> [] \<and> hd (hexs gs @ t) \<noteq> CHR '':''"
  using hexs_hd [of gs] by auto

lemma ipv6_loop_groups_ellipsis:
  "gs \<noteq> [] \<Longrightarrow> small_groups gs \<Longrightarrow> length gs \<le> n \<Longrightarrow>
   ipv6_loop n ip None (hexs gs @ CHR '':'' # CHR '':'' # t) =
     (let ip' = ip @ group_bytes gs in
      if t = [] then Some (ip', Some (length ip'), [])
      else ipv6_loop (n - length gs) ip' (Some (length ip')) t)"
proof (induction gs arbitrary: n ip)
  case Nil
  then show ?case by simp
next
  case (Cons g gs)
  then obtain m where n: "n = Suc m" "length gs \<le> m" by (cases n) auto
  show ?case
  proof (cases "gs = []")
    case True
    with Cons.prems n show ?thesis by (simp add: ipv6_loop_ellipsis Let_def del: ipv6_loop.simps)
  next
    case False
    with Cons n hexs_append_ellipsis_hd [of gs] show ?thesis
      by (simp add: hexs_Cons ipv6_loop_next Let_def del: ipv6_loop.simps)
  qed
qed

section \<open>The zero run\<close>

definition is_zero_run :: "nat list \<Rightarrow> nat \<times> nat \<Rightarrow> bool" where
  "is_zero_run gs zr \<longleftrightarrow> zr = (255, 255) \<or>
     (fst zr + 2 \<le> snd zr \<and> snd zr \<le> length gs \<and> (\<forall>i. fst zr \<le> i \<and> i < snd zr \<longrightarrow> gs ! i = 0))"

lemma takeWhile_zero_nth: "k < length (takeWhile (\<lambda>g. g = 0) xs) \<Longrightarrow> xs ! k = (0 :: nat)"
  by (induction xs arbitrary: k) (auto simp: nth_Cons split: if_splits nat.splits)

lemma is_zero_run_step:
  assumes "is_zero_run gs zr" "i < length gs"
  shows "is_zero_run gs (zero_run_step gs i zr)"
proof -
  define j where "j = i + length (takeWhile (\<lambda>g. g = 0) (drop i gs))"
  have j: "j \<le> length gs"
    using length_takeWhile_le [of "\<lambda>g. g = 0" "drop i gs"] assms(2) by (simp add: j_def)
  have z: "gs ! k = 0" if "i \<le> k" "k < j" for k
  proof -
    have "k - i < length (takeWhile (\<lambda>g. g = 0) (drop i gs))" using that by (simp add: j_def)
    then have "drop i gs ! (k - i) = 0" by (rule takeWhile_zero_nth)
    then show ?thesis using that assms(2) by simp
  qed
  have "is_zero_run gs (i, j)" if "j - i \<ge> 2"
    using j z that by (auto simp: is_zero_run_def)
  then show ?thesis
    using assms(1) by (simp add: zero_run_step_def j_def [symmetric])
qed

lemma is_zero_run_zero_run: "is_zero_run gs (zero_run gs)"
proof -
  have "is_zero_run gs (fold (zero_run_step gs) is (255, 255))" if "set is \<subseteq> {..<length gs}" for "is"
    using that by (induction "is" rule: rev_induct) (auto simp: is_zero_run_step is_zero_run_def [of gs "(255, 255)"])
  from this [of "[0..<length gs]"] show ?thesis by (simp add: zero_run_def atLeast0LessThan)
qed

lemma zero_run_split:
  assumes "is_zero_run gs (zs, ze)" "length gs = 8" "zs \<noteq> 255"
  shows "zs + 2 \<le> ze" "ze \<le> 8" "gs = take zs gs @ replicate (ze - zs) 0 @ drop ze gs"
proof -
  show r: "zs + 2 \<le> ze" "ze \<le> 8" using assms by (auto simp: is_zero_run_def)
  have "take (ze - zs) (drop zs gs) = replicate (ze - zs) 0"
    by (rule nth_equalityI) (use assms r in \<open>auto simp: is_zero_run_def\<close>)
  then show "gs = take zs gs @ replicate (ze - zs) 0 @ drop ze gs"
    using r by (metis append_take_drop_id drop_drop le_add_diff_inverse2 add_leD1)
qed

lemma group_bytes_zeros: "group_bytes (replicate n 0) = replicate (2 * n) 0"
  by (induction n) (simp_all add: be_bytes_def upt_rec)

section \<open>The round trip for IPv6\<close>

lemma CutPrefix_colons_None: "s \<noteq> [] \<Longrightarrow> hd s \<noteq> CHR '':'' \<Longrightarrow> CutPrefix s ''::'' = None"
  by (cases s) (auto simp: CutPrefix_def HasPrefix_def)

lemma CutPrefix_colons_Some [simp]: "CutPrefix (CHR '':'' # CHR '':'' # s) ''::'' = Some s"
  by (simp add: CutPrefix_def HasPrefix_def)

lemma hexs_no_percent: "small_groups gs \<Longrightarrow> CHR ''%'' \<notin> set (hexs gs) \<and> CHR ''.'' \<notin> set (hexs gs)"
proof (induction gs)
  case Nil
  then show ?case by simp
next
  case (Cons g gs)
  have "CHR ''%'' \<notin> set (appendHex g) \<and> CHR ''.'' \<notin> set (appendHex g)"
    using Cons.prems appendHex_digits [of _ g] digit_char_neq by (metis list.set_intros(1))
  with Cons show ?case by (cases "gs = []") (auto simp: hexs_Cons)
qed

lemma string6_no_percent:
  assumes "small_groups gs"
  shows "CHR ''%'' \<notin> set (string6 gs)" "CHR ''.'' \<notin> set (string6 gs)"
proof -
  have "small_groups (take k gs)" "small_groups (drop k gs)" for k
    using assms by (auto dest: in_set_takeD in_set_dropD)
  then have "CHR ''%'' \<notin> set (hexs (take k gs)) \<and> CHR ''.'' \<notin> set (hexs (take k gs))"
    "CHR ''%'' \<notin> set (hexs (drop k gs)) \<and> CHR ''.'' \<notin> set (hexs (drop k gs))" for k
    using hexs_no_percent by blast+
  then show "CHR ''%'' \<notin> set (string6 gs)" "CHR ''.'' \<notin> set (string6 gs)"
    using hexs_no_percent [OF assms] by (auto simp: string6_def split: prod.splits)
qed

lemma parseIPv6_no_zone:
  assumes "CHR ''%'' \<notin> set s"
  shows "parseIPv6 s = (case CutPrefix s ''::'' of
     Some s' \<Rightarrow> if s' = [] then Some (IPv6 0 []) else ipv6_finish [] (ipv6_loop 8 [] (Some 0) s')
   | None \<Rightarrow> ipv6_finish [] (ipv6_loop 8 [] None s))"
proof -
  have "takeWhile (\<lambda>c. c \<noteq> CHR ''%'') s = s" "dropWhile (\<lambda>c. c \<noteq> CHR ''%'') s = []"
    using assms by (auto simp: takeWhile_eq_all_conv dropWhile_eq_Nil_conv)
  then show ?thesis unfolding parseIPv6_def by (simp only: Let_def list.sel simp_thms if_False)
qed

lemma ipv6_finish_full: "length ip = 16 \<Longrightarrow> ipv6_finish z (Some (ip, None, [])) = Some (IPv6 (of_nat (be_nat ip)) z)"
  by (simp add: ipv6_finish_def)

lemma ipv6_finish_ellipsis:
  "length a + length b < 16 \<Longrightarrow> ipv6_finish z (Some (a @ b, Some (length a), [])) =
     Some (IPv6 (of_nat (be_nat (a @ replicate (16 - (length a + length b)) 0 @ b))) z)"
  by (simp add: ipv6_finish_def)

text \<open>The parser on the two shapes of printed address.\<close>

lemma parseIPv6_plain:
  assumes "length gs = 8" "small_groups gs"
  shows "parseIPv6 (hexs gs) = Some (IPv6 (of_nat (be_nat (group_bytes gs))) [])"
proof -
  have "gs \<noteq> []" using assms(1) by auto
  then have "CutPrefix (hexs gs) ''::'' = None"
    using CutPrefix_colons_None [of "hexs gs"] hexs_hd [OF _ assms(2)] by blast
  moreover have "ipv6_loop 8 [] None (hexs gs) = Some (group_bytes gs, None, [])"
    using ipv6_loop_groups [OF \<open>gs \<noteq> []\<close> assms(2), of 8 "[]" None] assms(1) by simp
  ultimately show ?thesis
    using assms hexs_no_percent [OF assms(2)] by (simp add: parseIPv6_no_zone ipv6_finish_full)
qed

lemma ipv6_loop_ellipsis_groups:
  assumes small: "small_groups pre" "small_groups post" and len: "length pre + length post < 8"
    and "pre \<noteq> []"
  shows "ipv6_loop 8 [] None (hexs pre @ ''::'' @ hexs post) =
    Some (group_bytes pre @ group_bytes post, Some (length (group_bytes pre)), [])"
proof (cases "post = []")
  case True
  then show ?thesis
    using ipv6_loop_groups_ellipsis [OF \<open>pre \<noteq> []\<close> small(1), of 8 "[]" "[]"] len by simp
next
  case False
  then have "hexs post \<noteq> []" using hexs_hd small by blast
  then show ?thesis
    using ipv6_loop_groups_ellipsis [OF \<open>pre \<noteq> []\<close> small(1), of 8 "[]" "hexs post"]
      ipv6_loop_groups [OF False small(2)] len by simp
qed

lemma be_nat_zeros [simp]: "be_nat (replicate n 0) = 0"
  by (induction n) (simp_all add: be_nat_def foldl_conv_fold)

lemma parseIPv6_compressed:
  assumes small: "small_groups pre" "small_groups post" and len: "length pre + length post < 8"
  shows "parseIPv6 (hexs pre @ ''::'' @ hexs post) =
    Some (IPv6 (of_nat (be_nat (group_bytes pre @ replicate (16 - 2 * (length pre + length post)) 0
      @ group_bytes post))) [])"
proof -
  have pct: "CHR ''%'' \<notin> set (hexs pre @ ''::'' @ hexs post)"
    using hexs_no_percent small by auto
  have fin: "ipv6_finish [] (Some (group_bytes pre @ group_bytes post, Some (length (group_bytes pre)), [])) =
    Some (IPv6 (of_nat (be_nat (group_bytes pre @ replicate (16 - 2 * (length pre + length post)) 0
      @ group_bytes post))) [])"
    using len ipv6_finish_ellipsis [of "group_bytes pre" "group_bytes post" "[]"] by simp
  show ?thesis
  proof (cases "pre = []")
    case True
    show ?thesis
    proof (cases "post = []")
      case True
      with \<open>pre = []\<close> show ?thesis using pct by (simp add: parseIPv6_no_zone)
    next
      case False
      then have "hexs post \<noteq> []" using hexs_hd small by blast
      moreover have "ipv6_loop 8 [] (Some 0) (hexs post) = Some (group_bytes post, Some 0, [])"
        using ipv6_loop_groups [OF False small(2), of 8 "[]" "Some 0"] len by simp
      ultimately show ?thesis using fin pct True by (simp add: parseIPv6_no_zone)
    qed
  next
    case False
    have "CutPrefix (hexs pre @ ''::'' @ hexs post) ''::'' = None"
      using CutPrefix_colons_None [of "hexs pre @ ''::'' @ hexs post"] hexs_hd [OF False small(1)] by auto
    then show ?thesis
      by (simp only: parseIPv6_no_zone [OF pct] option.case ipv6_loop_ellipsis_groups [OF small len False] fin)
  qed
qed

lemma parseIPv6_string6:
  assumes len: "length gs = 8" and small: "small_groups gs"
  shows "parseIPv6 (string6 gs) = Some (IPv6 (of_nat (be_nat (group_bytes gs))) [])"
proof -
  obtain zs ze where zr: "zero_run gs = (zs, ze)" by force
  have run: "is_zero_run gs (zs, ze)" using is_zero_run_zero_run [of gs] zr by simp
  show ?thesis
  proof (cases "zs = 255")
    case True
    then show ?thesis using len small by (simp add: string6_def zr parseIPv6_plain)
  next
    case False
    note sp = zero_run_split [OF run len False]
    have sm: "small_groups (take zs gs)" "small_groups (drop ze gs)"
      using small by (auto dest: in_set_takeD in_set_dropD)
    have lens: "length (take zs gs) = zs" "length (drop ze gs) = 8 - ze" using sp len by auto
    have "group_bytes gs = group_bytes (take zs gs @ replicate (ze - zs) 0 @ drop ze gs)"
      using sp(3) by simp
    then have gb: "group_bytes gs =
        group_bytes (take zs gs) @ replicate (2 * (ze - zs)) 0 @ group_bytes (drop ze gs)"
      using group_bytes_zeros by simp
    have n: "16 - 2 * (zs + (8 - ze)) = 2 * (ze - zs)" using sp by arith
    have "length (take zs gs) + length (drop ze gs) < 8" using sp lens by arith
    from parseIPv6_compressed [OF sm this] show ?thesis
      using False by (simp only: lens n gb string6_def zr prod.case Let_def if_False)
  qed
qed

lemma groups_small: "small_groups (groups w)"
proof -
  have "be_nat [a, b] < 65536" for a b :: u8
    using be_nat_less [of "[a, b]"] by (simp add: power2_eq_square)
  then show ?thesis by (auto simp: groups_def Let_def)
qed

lemma concat_pairs: "concat (map (\<lambda>i. [bs ! (2 * i), bs ! (2 * i + 1)]) [0..<n]) = map ((!) bs) [0..<2 * n]"
  by (induction n) auto

lemma group_bytes_groups: "group_bytes (groups w) = be_bytes 16 (unat w)"
proof -
  define bs where "bs = be_bytes 16 (unat w)"
  have "length bs = 16" by (simp add: bs_def)
  have pair: "be_bytes 2 (be_nat [a, b]) = [a, b]" for a b :: u8
    using be_bytes_be_nat [of "[a, b]"] by (simp add: numeral_2_eq_2)
  have "group_bytes (groups w) = concat (map (\<lambda>i. [bs ! (2 * i), bs ! (2 * i + 1)]) [0..<8])"
    by (simp add: groups_def Let_def bs_def [symmetric] comp_def pair)
  also have "\<dots> = map ((!) bs) [0..<16]" using concat_pairs [of bs 8] by simp
  also have "\<dots> = bs" using \<open>length bs = 16\<close> map_nth [of bs] by simp
  finally show ?thesis by (simp add: bs_def)
qed

lemma ParseAddr_string6: "ParseAddr (string6 (groups w)) = Some (IPv6 w [])"
proof -
  have len: "length (groups w) = 8" by (simp add: groups_def Let_def)
  have "be_nat (group_bytes (groups w)) = unat w"
    using unat_less [of w] by (simp add: group_bytes_groups be_nat_be_bytes)
  then have p: "parseIPv6 (string6 (groups w)) = Some (IPv6 w [])"
    using parseIPv6_string6 [OF len groups_small] by simp
  have "ParseAddr_from t s = (if CHR '':'' \<in> set s then parseIPv6 t else None)"
    if "CHR ''%'' \<notin> set s" "CHR ''.'' \<notin> set s" for t s
    using that by (induction s) auto
  then have "ParseAddr (string6 (groups w)) = None \<or> ParseAddr (string6 (groups w)) = Some (IPv6 w [])"
    using string6_no_percent [OF groups_small, of w] p by (simp add: ParseAddr_def)
  moreover have "CHR '':'' \<in> set (string6 (groups w))"
  proof -
    have "groups w \<noteq> []" "tl (groups w) \<noteq> []" using len by (auto simp: length_Suc_conv dest: arg_cong [of _ _ length])
    then have "CHR '':'' \<in> set (hexs (groups w))"
      using hexs_Cons [of "tl (groups w)" "hd (groups w)"] by simp
    then show ?thesis by (cases "zero_run (groups w)") (simp add: string6_def)
  qed
  ultimately show ?thesis
    using string6_no_percent [OF groups_small, of w] p
      \<open>\<And>t s. CHR ''%'' \<notin> set s \<Longrightarrow> CHR ''.'' \<notin> set s \<Longrightarrow> ParseAddr_from t s = (if CHR '':'' \<in> set s then parseIPv6 t else None)\<close>
    by (simp add: ParseAddr_def)
qed

text \<open>The round trip for every address the daemon stores: unmapped and without a zone.\<close>

theorem ParseAddr_String:
  assumes "a \<noteq> NoAddr" "Zone a = []" "\<not> Is4In6 a"
  shows "ParseAddr (addr_String a) = Some a"
  using assms ParseAddr_string4 ParseAddr_string6 by (cases a) auto

end
