(* ===== verification/ControlPlane.thy ===== *)
theory ControlPlane
  imports Netip_Roundtrip
begin

text \<open>
  The policy interface shared by the session manager and the agent, \<open>controlplane/protocol.go\<close>:
  the records of an assignment, the validation of each of them, and \<open>ParseAddress\<close>. The lemmas
  say what an accepted assignment satisfies, as conditions on its fields, and that the canonical
  spelling of an accepted address is accepted again as the same address.
\<close>

section \<open>The records\<close>

record cp_policy =
  cp_Enabled :: bool
  cp_Mode :: string
  cp_WeightA :: u32
  cp_WeightB :: u32
  cp_RTTDeltaUS :: u32

record cp_leg =
  cp_IfName :: string
  cp_LocalAddress :: string

record cp_legs =
  cp_A :: cp_leg
  cp_B :: cp_leg

record cp_flow =
  cp_DestinationAddress :: string
  cp_DestinationPort :: u16

record cp_context_spec =
  cp_ID :: string
  cp_DNN :: string
  cp_Legs :: cp_legs
  cp_Flow :: cp_flow

record cp_assignment =
  cp_ContextSpec :: cp_context_spec
  cp_Policy :: cp_policy
  cp_Generation :: u32

section \<open>Validation\<close>

definition cp_Policy_Validate :: "cp_policy \<Rightarrow> go_error option" where
  "cp_Policy_Validate p =
     (if cp_Mode p \<noteq> ''load-balance'' \<and> cp_Mode p \<noteq> ''lowest-rtt''
      then Some (errors_New ''unsupported mode'')
      else if cp_WeightA p > 100 \<or> cp_WeightB p > 100 \<or> cp_WeightA p + cp_WeightB p \<noteq> 100
      then Some (errors_New ''weights must be in 0..100 and total 100'')
      else None)"

text \<open>The test of one rune in the loop of \<open>ValidateName\<close>: letters, digits and \<open>._-\<close>.\<close>

definition name_rune :: "nat \<Rightarrow> bool" where
  "name_rune c \<longleftrightarrow>
     c \<ge> 97 \<and> c \<le> 122 \<or> c \<ge> 65 \<and> c \<le> 90 \<or> c \<ge> 48 \<and> c \<le> 57 \<or> c \<in> {46, 95, 45}"

definition ValidateName :: "string \<Rightarrow> go_error option" where
  "ValidateName s =
     (if length s = 0 \<or> length s > 128 \<or> s = ''.'' \<or> s = ''..''
      then Some (errors_New ''name must contain 1..128 letters, digits, dots, underscores or hyphens'')
      else if list_all name_rune (runes s) then None
      else Some (errors_New ''name contains an unsupported character''))"

definition ParseAddress :: "string \<Rightarrow> go_error + addr" where
  "ParseAddress s =
     (case ParseAddr s of
        None \<Rightarrow> Inl (errors_New ''invalid unicast address'')
      | Some a \<Rightarrow>
          if Zone a \<noteq> [] \<or> IsUnspecified a \<or> IsMulticast a
          then Inl (errors_New ''invalid unicast address'') else Inr (Unmap a))"

text \<open>The value of a call \<open>a, _ := ParseAddress(s)\<close>: the zero address on an error.\<close>

fun addr_or_zero :: "go_error + addr \<Rightarrow> addr" where
  "addr_or_zero (Inl e) = NoAddr"
| "addr_or_zero (Inr a) = a"

definition leg_error :: "cp_leg \<Rightarrow> go_error option" where
  "leg_error leg =
     (if cp_IfName leg = [] \<or> length (cp_IfName leg) > 15
         \<or> ContainsAny (cp_IfName leg) [CHR '' '', CHR ''/'', CHR 0x09, CHR 0x0D, CHR 0x0A]
      then Some (errors_New ''invalid interface name'')
      else case ParseAddress (cp_LocalAddress leg) of Inl e \<Rightarrow> Some e | Inr _ \<Rightarrow> None)"

definition ContextSpec_Validate :: "cp_context_spec \<Rightarrow> go_error option" where
  "ContextSpec_Validate s =
     (case ValidateName (cp_ID s) of Some e \<Rightarrow> Some (Errorf ''id'' [e]) | None \<Rightarrow>
      case ValidateName (cp_DNN s) of Some e \<Rightarrow> Some (Errorf ''dnn'' [e]) | None \<Rightarrow>
      case leg_error (cp_A (cp_Legs s)) of Some e \<Rightarrow> Some e | None \<Rightarrow>
      case leg_error (cp_B (cp_Legs s)) of Some e \<Rightarrow> Some e | None \<Rightarrow>
      let a = addr_or_zero (ParseAddress (cp_LocalAddress (cp_A (cp_Legs s))));
          b = addr_or_zero (ParseAddress (cp_LocalAddress (cp_B (cp_Legs s)))) in
      if a = b \<or> cp_IfName (cp_A (cp_Legs s)) = cp_IfName (cp_B (cp_Legs s))
      then Some (errors_New ''legs require different interfaces and local addresses'')
      else case ParseAddress (cp_DestinationAddress (cp_Flow s)) of Inl e \<Rightarrow> Some e | Inr _ \<Rightarrow>
      if cp_DestinationPort (cp_Flow s) = 0 then Some (errors_New ''destinationPort must be nonzero'')
      else None)"

definition Assignment_Validate :: "cp_assignment \<Rightarrow> go_error option" where
  "Assignment_Validate a =
     (case ContextSpec_Validate (cp_ContextSpec a) of Some e \<Rightarrow> Some e | None \<Rightarrow>
      case cp_Policy_Validate (cp_Policy a) of Some e \<Rightarrow> Some e | None \<Rightarrow>
      if cp_Generation a = 0 then Some (errors_New ''generation must be nonzero'') else None)"

section \<open>Names\<close>

definition name_char :: "char \<Rightarrow> bool" where
  "name_char c \<longleftrightarrow> name_rune (byte_at c)"

lemma name_rune_ascii: "name_rune r \<Longrightarrow> r < 128"
  by (auto simp: name_rune_def)

lemma ValidateName_ok:
  "ValidateName s = None \<longleftrightarrow>
     0 < length s \<and> length s \<le> 128 \<and> s \<noteq> ''.'' \<and> s \<noteq> ''..'' \<and> (\<forall>c \<in> set s. name_char c)"
proof -
  have "list_all name_rune (runes s) \<longleftrightarrow> (\<forall>c \<in> set s. name_char c)"
    by (subst runes_all_ascii) (auto simp: name_rune_ascii name_char_def list_all_iff)
  then show ?thesis by (auto simp: ValidateName_def not_less)
qed

lemma name_char_not_special: "name_char c \<Longrightarrow> c \<notin> set ''/%?# ''"
  by (auto simp: name_char_def name_rune_def)

section \<open>Addresses\<close>

lemma ParseAddress_ok:
  "ParseAddress s = Inr a \<longleftrightarrow>
     (\<exists>b. ParseAddr s = Some b \<and> Zone b = [] \<and> \<not> IsUnspecified b \<and> \<not> IsMulticast b \<and> a = Unmap b)"
  by (auto simp: ParseAddress_def split: option.splits if_splits)

lemma parseIPv4_not_NoAddr: "parseIPv4 s \<noteq> Some NoAddr"
  by (simp add: parseIPv4_def split: option.splits)

lemma parseIPv6_not_NoAddr: "parseIPv6 s \<noteq> Some NoAddr"
  by (auto simp: parseIPv6_def ipv6_finish_def Let_def split: option.splits if_splits)

lemma ParseAddr_not_NoAddr: "ParseAddr s \<noteq> Some NoAddr"
proof -
  have "ParseAddr_from s t \<noteq> Some NoAddr" for t
    by (induction t) (auto simp: parseIPv4_not_NoAddr parseIPv6_not_NoAddr)
  then show ?thesis by (simp add: ParseAddr_def)
qed

lemma Zone_Unmap: "Zone a = [] \<Longrightarrow> Zone (Unmap a) = []"
  by (cases a) auto

lemma IsMulticast_Unmap [simp]: "IsMulticast (Unmap a) = IsMulticast a"
  by (simp add: IsMulticast_def)

lemma IsUnspecified_Unmap: "IsUnspecified (Unmap a) \<Longrightarrow> IsUnspecified a \<or> Unmap a = IPv4 0"
  by (cases a) (auto simp: IsUnspecified_def split: if_splits)

lemma ParseAddress_facts:
  assumes "ParseAddress s = Inr a"
  shows "a \<noteq> NoAddr" "Zone a = []" "\<not> Is4In6 a" "\<not> IsMulticast a"
  using assms ParseAddr_not_NoAddr [of s] by (auto simp: ParseAddress_ok Zone_Unmap)

lemma ParseAddr_String_of_parsed:
  "ParseAddress s = Inr a \<Longrightarrow> ParseAddr (addr_String a) = Some a"
  using ParseAddress_facts [of s a] ParseAddr_String [of a] by blast

lemma ParseAddress_String:
  assumes "ParseAddress s = Inr a" "a \<noteq> IPv4 0"
  shows "ParseAddress (addr_String a) = Inr a"
proof -
  note f = ParseAddress_facts [OF assms(1)] and p = ParseAddr_String_of_parsed [OF assms(1)]
  have "\<not> IsUnspecified a"
    using assms IsUnspecified_Unmap by (auto simp: ParseAddress_ok IsUnspecified_def)
  with f p show ?thesis by (auto simp: ParseAddress_ok Unmap_id)
qed

lemma addr_String_inject:
  "ParseAddress s = Inr a \<Longrightarrow> ParseAddress t = Inr b \<Longrightarrow> addr_String a = addr_String b \<longleftrightarrow> a = b"
  using ParseAddr_String_of_parsed by (metis option.inject)

section \<open>What validation accepts\<close>

lemma cp_Policy_Validate_ok:
  "cp_Policy_Validate p = None \<longleftrightarrow>
     cp_Mode p \<in> {''load-balance'', ''lowest-rtt''} \<and> unat (cp_WeightA p) + unat (cp_WeightB p) = 100"
proof -
  have "a \<le> 100 \<and> b \<le> 100 \<and> a + b = 100 \<longleftrightarrow> unat a + unat b = 100" for a b :: u32
    using unat_less [of a] unat_less [of b]
    by (auto simp: word_le_nat_alt word_unat_eq_iff unat_word_ariths)
  from this [of "cp_WeightA p" "cp_WeightB p"] show ?thesis
    by (auto simp: cp_Policy_Validate_def not_less [symmetric])
qed

definition leg_ok :: "cp_leg \<Rightarrow> bool" where
  "leg_ok leg \<longleftrightarrow>
     0 < length (cp_IfName leg) \<and> length (cp_IfName leg) \<le> 15 \<and>
     (\<forall>c \<in> set (cp_IfName leg). c \<notin> {CHR '' '', CHR ''/'', CHR 0x09, CHR 0x0D, CHR 0x0A}) \<and>
     (\<exists>a. ParseAddress (cp_LocalAddress leg) = Inr a)"

lemma leg_error_None: "leg_error leg = None \<longleftrightarrow> leg_ok leg"
  by (auto simp: leg_error_def leg_ok_def ContainsAny_def list_ex_iff split: sum.splits)

definition spec_ok :: "cp_context_spec \<Rightarrow> bool" where
  "spec_ok s \<longleftrightarrow>
     ValidateName (cp_ID s) = None \<and> ValidateName (cp_DNN s) = None \<and>
     leg_ok (cp_A (cp_Legs s)) \<and> leg_ok (cp_B (cp_Legs s)) \<and>
     ParseAddress (cp_LocalAddress (cp_A (cp_Legs s))) \<noteq> ParseAddress (cp_LocalAddress (cp_B (cp_Legs s))) \<and>
     cp_IfName (cp_A (cp_Legs s)) \<noteq> cp_IfName (cp_B (cp_Legs s)) \<and>
     (\<exists>a. ParseAddress (cp_DestinationAddress (cp_Flow s)) = Inr a) \<and>
     cp_DestinationPort (cp_Flow s) \<noteq> 0"

lemma ContextSpec_Validate_ok: "ContextSpec_Validate s = None \<longleftrightarrow> spec_ok s"
proof (cases "leg_ok (cp_A (cp_Legs s)) \<and> leg_ok (cp_B (cp_Legs s))")
  case True
  then obtain a b where "ParseAddress (cp_LocalAddress (cp_A (cp_Legs s))) = Inr a"
    "ParseAddress (cp_LocalAddress (cp_B (cp_Legs s))) = Inr b"
    by (auto simp: leg_ok_def)
  with True show ?thesis
    by (simp add: ContextSpec_Validate_def spec_ok_def leg_error_None [symmetric] split: option.split sum.split)
next
  case False
  then have "leg_error (cp_A (cp_Legs s)) \<noteq> None \<or> leg_error (cp_B (cp_Legs s)) \<noteq> None"
    by (simp add: leg_error_None)
  then have "ContextSpec_Validate s \<noteq> None"
    by (auto simp: ContextSpec_Validate_def split: option.split)
  with False show ?thesis by (auto simp: spec_ok_def)
qed

lemma Assignment_Validate_ok:
  "Assignment_Validate a = None \<longleftrightarrow>
     spec_ok (cp_ContextSpec a) \<and> cp_Policy_Validate (cp_Policy a) = None \<and> cp_Generation a \<noteq> 0"
  by (simp add: Assignment_Validate_def ContextSpec_Validate_ok [symmetric] split: option.split)

end
