(* ===== verification/AgentConfig.thy ===== *)
theory AgentConfig
  imports GoStrings
begin

text \<open>
  The agent's configuration, \<open>dualsteer-agent/config.go\<close>: the records the YAML file is decoded
  into, with pointers as options, their validation, and \<open>Prepare\<close>. The YAML decoder is code of
  another module and a parameter here. A nil dereference is the outcome \<open>Panic\<close>; validation is
  shown never to panic and to accept exactly the configurations described by \<open>config_ok\<close>.
\<close>

section \<open>The records\<close>

record endpoint =
  LocalID :: "u32 option"
  RemoteID :: "u32 option"

record leg =
  IfName :: string
  Weight :: "u32 option"
  Endpoints :: "endpoint list"

record legs =
  LegA :: leg
  LegB :: leg

record connection =
  Token :: "u32 option"
  NetNSInode :: u64

record policy =
  Enabled :: "bool option"
  Generation :: u32
  Mode :: string
  RTTDeltaUS :: u32
  Legs :: legs
  Connection :: "connection option"

record config =
  DualSteer :: policy

record plan =
  plan_Policy :: policy
  IfIndexA :: int
  IfIndexB :: int

section \<open>Validation\<close>

definition check_leg :: "leg \<Rightarrow> go_error option" where
  "check_leg l =
     (if IfName l = [] \<or> TrimSpace (IfName l) \<noteq> IfName l
      then Some (errors_New ''leg requires a nonempty ifname without surrounding whitespace'')
      else case Weight l of
        None \<Rightarrow> Some (errors_New ''leg weight must be specified in range 0..100'')
      | Some w \<Rightarrow> if w > 100 then Some (errors_New ''leg weight must be specified in range 0..100'') else None)"

text \<open>The loop over the endpoints of a leg; \<open>seen\<close> holds the pairs already met.\<close>

fun scan_endpoints :: "(u32 \<times> u32) list \<Rightarrow> endpoint list \<Rightarrow> go_error + (u32 \<times> u32) list" where
  "scan_endpoints seen [] = Inr seen"
| "scan_endpoints seen (ep # eps) =
     (case (LocalID ep, RemoteID ep) of
        (Some l, Some r) \<Rightarrow>
          if l > 255 \<or> r > 255 then Inl (errors_New ''endpoints require localId and remoteId in 0..255'')
          else if (l, r) \<in> set seen then Inl (errors_New ''duplicate endpoint pair across legs'')
          else scan_endpoints ((l, r) # seen) eps
      | _ \<Rightarrow> Inl (errors_New ''endpoints require localId and remoteId in 0..255''))"

definition Config_Validate :: "config \<Rightarrow> unit outcome" where
  "Config_Validate c =
     (let p = DualSteer c; a = LegA (Legs p); b = LegB (Legs p) in
      if Enabled p = None then Err (errors_New ''dualSteer.enabled is required'')
      else if Generation p = 0 then Err (errors_New ''dualSteer.generation must be at least 1'')
      else if Mode p \<noteq> ''load-balance'' \<and> Mode p \<noteq> ''lowest-rtt''
      then Err (errors_New ''dualSteer.mode must be load-balance or lowest-rtt'')
      else case check_leg a of Some e \<Rightarrow> Err e | None \<Rightarrow>
      case check_leg b of Some e \<Rightarrow> Err e | None \<Rightarrow>
      if IfName a = IfName b then Err (errors_New ''legs A and B must use different interface names'')
      else case (Weight a, Weight b) of
        (Some wa, Some wb) \<Rightarrow>
          if wa + wb \<noteq> 100 then Err (errors_New ''leg A and B weights must sum to 100'')
          else if (case Connection p of None \<Rightarrow> False | Some cn \<Rightarrow> Token cn = None)
          then Err (errors_New ''connection.token must be explicitly supplied (zero is valid)'')
          else (case scan_endpoints [] (Endpoints a) of
                  Inl e \<Rightarrow> Err e
                | Inr seen \<Rightarrow> (case scan_endpoints seen (Endpoints b) of Inl e \<Rightarrow> Err e | Inr _ \<Rightarrow> Ok ()))
      | _ \<Rightarrow> Panic)"

text \<open>
  \<open>Decode\<close>: the decoder fills a configuration, and a second call must report the end of the
  input. Both results of the decoder are parameters.
\<close>

definition io_EOF :: go_error where
  "io_EOF = Sentinel ''EOF''"

definition Decode :: "('d \<Rightarrow> (go_error + config) \<times> 'd) \<Rightarrow> ('d \<Rightarrow> go_error option) \<Rightarrow> 'd \<Rightarrow> config outcome" where
  "Decode yaml_config yaml_any d =
     (case yaml_config d of
        (Inl e, d') \<Rightarrow> Err (Errorf ''decode config'' [e])
      | (Inr cfg, d') \<Rightarrow>
          (case yaml_any d' of
             None \<Rightarrow> Err (errors_New ''exactly one YAML document is required'')
           | Some e \<Rightarrow> if \<not> errors_Is e io_EOF then Err (Errorf ''decode trailing document'' [e])
                       else outcome_bind (Config_Validate cfg) (\<lambda>_. Ok cfg)))"

section \<open>Interfaces\<close>

text \<open>
  The operating system's interfaces, as \<open>net.InterfaceByName\<close> and \<open>Interface.Addrs\<close> report
  them; an address is its text, such as \<open>192.0.2.1/24\<close>.
\<close>

record iface =
  if_Name :: string
  if_Index :: int
  if_Addrs :: "go_error + string list"

definition InterfaceByName :: "iface list \<Rightarrow> string \<Rightarrow> go_error + iface" where
  "InterfaceByName ifs name =
     (case find (\<lambda>i. if_Name i = name) ifs of
        None \<Rightarrow> Inl (errors_New ''no such network interface'') | Some i \<Rightarrow> Inr i)"

definition ResolveInterface :: "iface list \<Rightarrow> string \<Rightarrow> go_error + int" where
  "ResolveInterface ifs name = (case InterfaceByName ifs name of Inl e \<Rightarrow> Inl e | Inr i \<Rightarrow> Inr (if_Index i))"

definition Prepare :: "config \<Rightarrow> (string \<Rightarrow> go_error + int) \<Rightarrow> plan outcome" where
  "Prepare c resolve =
     outcome_bind (Config_Validate c) (\<lambda>_.
       case resolve (IfName (LegA (Legs (DualSteer c)))) of
         Inl e \<Rightarrow> Err (Errorf ''resolve leg A interface'' [e])
       | Inr a \<Rightarrow>
           (case resolve (IfName (LegB (Legs (DualSteer c)))) of
              Inl e \<Rightarrow> Err (Errorf ''resolve leg B interface'' [e])
            | Inr b \<Rightarrow>
                if a \<le> 0 \<or> b \<le> 0 then Err (errors_New ''resolved interface indices must be positive'')
                else Ok \<lparr>plan_Policy = DualSteer c, IfIndexA = a, IfIndexB = b\<rparr>))"

section \<open>What validation accepts\<close>

definition endpoint_pair :: "endpoint \<Rightarrow> (u32 \<times> u32) option" where
  "endpoint_pair ep = (case (LocalID ep, RemoteID ep) of (Some l, Some r) \<Rightarrow> Some (l, r) | _ \<Rightarrow> None)"

text \<open>A list of endpoints that names distinct pairs of one-byte identifiers, none of them in a given set.\<close>

definition endpoints_ok :: "endpoint list \<Rightarrow> bool" where
  "endpoints_ok eps \<longleftrightarrow>
     (\<forall>ep \<in> set eps. \<exists>l r. endpoint_pair ep = Some (l, r) \<and> l \<le> 255 \<and> r \<le> 255) \<and>
     distinct (map endpoint_pair eps)"

lemma scan_endpoints_seen:
  "scan_endpoints seen eps = Inr seen' \<longleftrightarrow>
     (\<forall>ep \<in> set eps. \<exists>l r. endpoint_pair ep = Some (l, r) \<and> l \<le> 255 \<and> r \<le> 255) \<and>
     distinct (map endpoint_pair eps) \<and> (\<forall>ep \<in> set eps. endpoint_pair ep \<notin> Some ` set seen) \<and>
     seen' = rev (map (the \<circ> endpoint_pair) eps) @ seen"
proof (induction eps arbitrary: seen)
  case Nil
  then show ?case by auto
next
  case (Cons ep eps)
  show ?case
  proof (cases "endpoint_pair ep")
    case None
    then show ?thesis by (auto simp: endpoint_pair_def split: option.splits)
  next
    case (Some lr)
    then obtain l r where ep: "LocalID ep = Some l" "RemoteID ep = Some r" "endpoint_pair ep = Some (l, r)"
      by (auto simp: endpoint_pair_def split: option.splits)
    show ?thesis
    proof (cases "l > 255 \<or> r > 255 \<or> (l, r) \<in> set seen")
      case True
      then show ?thesis by (auto simp: ep)
    next
      case False
      then show ?thesis by (auto simp: ep Cons.IH) (metis image_eqI)
    qed
  qed
qed

definition leg_config_ok :: "leg \<Rightarrow> bool" where
  "leg_config_ok l \<longleftrightarrow>
     IfName l \<noteq> [] \<and> TrimSpace (IfName l) = IfName l \<and> (\<exists>w. Weight l = Some w \<and> w \<le> 100)"

lemma check_leg_None: "check_leg l = None \<longleftrightarrow> leg_config_ok l"
  by (auto simp: check_leg_def leg_config_ok_def not_less split: option.splits)

definition config_ok :: "config \<Rightarrow> bool" where
  "config_ok c \<longleftrightarrow>
     (let p = DualSteer c; a = LegA (Legs p); b = LegB (Legs p) in
      Enabled p \<noteq> None \<and> Generation p \<noteq> 0 \<and> Mode p \<in> {''load-balance'', ''lowest-rtt''} \<and>
      leg_config_ok a \<and> leg_config_ok b \<and> IfName a \<noteq> IfName b \<and>
      unat (the (Weight a)) + unat (the (Weight b)) = 100 \<and>
      (\<forall>cn. Connection p = Some cn \<longrightarrow> Token cn \<noteq> None) \<and>
      endpoints_ok (Endpoints a @ Endpoints b))"

lemma scan_both_legs:
  "(\<exists>seen seen'. scan_endpoints [] xs = Inr seen \<and> scan_endpoints seen ys = Inr seen') \<longleftrightarrow> endpoints_ok (xs @ ys)"
proof -
  have "Some ` set (map (the \<circ> endpoint_pair) xs) = endpoint_pair ` set xs"
    if "\<forall>ep \<in> set xs. \<exists>l r. endpoint_pair ep = Some (l, r) \<and> l \<le> 255 \<and> r \<le> 255"
    using that by (force simp: image_image)
  then show ?thesis
    by (auto simp: scan_endpoints_seen endpoints_ok_def) (metis image_eqI)
qed

lemma weights_sum:
  fixes a b :: u32
  assumes "a \<le> 100" "b \<le> 100"
  shows "a + b = 100 \<longleftrightarrow> unat a + unat b = 100"
  using assms unat_less [of a] unat_less [of b]
  by (auto simp: word_le_nat_alt word_unat_eq_iff unat_word_ariths)

lemma Config_Validate_ok: "Config_Validate c = Ok () \<longleftrightarrow> config_ok c"
proof (cases "leg_config_ok (LegA (Legs (DualSteer c))) \<and> leg_config_ok (LegB (Legs (DualSteer c)))")
  case True
  then obtain wa wb where w: "Weight (LegA (Legs (DualSteer c))) = Some wa" "wa \<le> 100"
    "Weight (LegB (Legs (DualSteer c))) = Some wb" "wb \<le> 100"
    by (auto simp: leg_config_ok_def)
  show ?thesis
    using True
    by (auto simp: Config_Validate_def config_ok_def Let_def check_leg_None [symmetric] w weights_sum
        scan_both_legs [symmetric] split: option.splits sum.splits)
next
  case False
  then have "check_leg (LegA (Legs (DualSteer c))) \<noteq> None \<or> check_leg (LegB (Legs (DualSteer c))) \<noteq> None"
    by (simp add: check_leg_None)
  then have "Config_Validate c \<noteq> Ok ()"
    by (auto simp: Config_Validate_def Let_def split: option.split)
  with False show ?thesis by (auto simp: config_ok_def Let_def)
qed

lemma Config_Validate_no_panic: "Config_Validate c \<noteq> Panic"
  by (auto simp: Config_Validate_def Let_def check_leg_def split: option.splits sum.splits if_splits)

lemma Prepare_no_panic: "Prepare c resolve \<noteq> Panic"
  by (auto simp: Prepare_def Config_Validate_no_panic split: sum.splits)

lemma Prepare_ok:
  "Prepare c resolve = Ok p \<longleftrightarrow>
     config_ok c \<and> plan_Policy p = DualSteer c \<and>
     resolve (IfName (LegA (Legs (DualSteer c)))) = Inr (IfIndexA p) \<and> 0 < IfIndexA p \<and>
     resolve (IfName (LegB (Legs (DualSteer c)))) = Inr (IfIndexB p) \<and> 0 < IfIndexB p"
  by (cases p) (auto simp: Prepare_def Config_Validate_ok split: sum.splits)

end
