(* ===== verification/MapStore.thy ===== *)
theory MapStore
  imports AgentConfig
begin

text \<open>
  The keys and values of the scheduler's two maps and the interface \<open>MapStore\<close> of
  \<open>dualsteer-agent/maps.go\<close>. The interface is a record of its methods over an unspecified state
  \<open>'w\<close> of the world; its contract is the locale \<open>map_store_laws\<close>, stated through two abstraction
  functions that read the policies and the paths off the world. A method may fail at any call; a
  failed write has no effect. \<open>reliable_store\<close> adds a bound on the number of writes that are
  certain to succeed, for the statements that the code makes progress.
\<close>

section \<open>Keys and values\<close>

record conn_key =
  ck_NetNSInode :: u64
  ck_Token :: u32
  ck_Reserved :: u32

record map_policy =
  mp_Generation :: u32
  mp_Enabled :: u32
  mp_Mode :: u32
  mp_WeightA :: u32
  mp_WeightB :: u32
  mp_RTTDeltaUS :: u32

record path_key =
  pk_Conn :: conn_key
  pk_LocalID :: u32
  pk_RemoteID :: u32

record map_path =
  path_Generation :: u32
  path_Access :: u32

definition ErrNotFound :: go_error where
  "ErrNotFound = Sentinel ''map entry not found''"

text \<open>\<open>Plan.MapPolicy\<close> dereferences three pointers of the plan's policy.\<close>

definition MapPolicy :: "plan \<Rightarrow> map_policy outcome" where
  "MapPolicy p =
     (let q = plan_Policy p in
      case (Enabled q, Weight (LegA (Legs q)), Weight (LegB (Legs q))) of
        (Some en, Some wa, Some wb) \<Rightarrow>
          Ok \<lparr>mp_Generation = Generation q, mp_Enabled = (if en then 1 else 0),
              mp_Mode = (if Mode q = ''lowest-rtt'' then 2 else 1),
              mp_WeightA = wa, mp_WeightB = wb, mp_RTTDeltaUS = RTTDeltaUS q\<rparr>
      | _ \<Rightarrow> Panic)"

lemma MapPolicy_not_Err: "MapPolicy p \<noteq> Err e"
  by (simp add: MapPolicy_def Let_def split: option.split)

lemma MapPolicy_valid:
  assumes "Config_Validate \<lparr>DualSteer = plan_Policy p\<rparr> = Ok ()"
  shows "\<exists>mp. MapPolicy p = Ok mp \<and> mp_Generation mp = Generation (plan_Policy p)"
  using assms [unfolded Config_Validate_ok]
  by (auto simp: config_ok_def leg_config_ok_def Let_def MapPolicy_def)

section \<open>The interface\<close>

record 'w map_store =
  LookupPolicy :: "conn_key \<Rightarrow> 'w \<Rightarrow> (go_error + map_policy) \<times> 'w"
  UpdatePolicy :: "conn_key \<Rightarrow> map_policy \<Rightarrow> 'w \<Rightarrow> go_error option \<times> 'w"
  DeletePolicy :: "conn_key \<Rightarrow> 'w \<Rightarrow> go_error option \<times> 'w"
  Paths :: "conn_key \<Rightarrow> 'w \<Rightarrow> ((path_key, map_path) gomap \<times> go_error option) \<times> 'w"
  UpdatePath :: "path_key \<Rightarrow> map_path \<Rightarrow> 'w \<Rightarrow> go_error option \<times> 'w"
  DeletePath :: "path_key \<Rightarrow> 'w \<Rightarrow> go_error option \<times> 'w"

text \<open>
  Beside the store the operations consult the Go run-time, which picks the order of the next
  range over a map.
\<close>

record 'w runtime = "'w map_store" +
  MapOrder :: "'w \<Rightarrow> nat list \<times> 'w"

section \<open>The contract\<close>

abbreviation paths_of :: "(path_key \<Rightarrow> map_path option) \<Rightarrow> conn_key \<Rightarrow> path_key \<Rightarrow> map_path option" where
  "paths_of P key \<equiv> P |` {k. pk_Conn k = key}"

locale map_store_laws =
  fixes s :: "('w, 'z) runtime_scheme"
    and pol :: "'w \<Rightarrow> conn_key \<Rightarrow> map_policy option"
    and pth :: "'w \<Rightarrow> path_key \<Rightarrow> map_path option"
  assumes LookupPolicy_frame: "LookupPolicy s k w = (r, w') \<Longrightarrow> pol w' = pol w \<and> pth w' = pth w"
    and LookupPolicy_found: "LookupPolicy s k w = (Inr p, w') \<Longrightarrow> pol w k = Some p"
    and LookupPolicy_absent: "LookupPolicy s k w = (Inl e, w') \<Longrightarrow> errors_Is e ErrNotFound \<Longrightarrow> pol w k = None"
    and UpdatePolicy_frame: "UpdatePolicy s k p w = (u, w') \<Longrightarrow> pth w' = pth w"
    and UpdatePolicy_ok: "UpdatePolicy s k p w = (None, w') \<Longrightarrow> pol w' = (pol w)(k \<mapsto> p)"
    and UpdatePolicy_err: "UpdatePolicy s k p w = (Some e, w') \<Longrightarrow> pol w' = pol w"
    and DeletePolicy_frame: "DeletePolicy s k w = (u, w') \<Longrightarrow> pth w' = pth w"
    and DeletePolicy_ok: "DeletePolicy s k w = (None, w') \<Longrightarrow> pol w' = (pol w)(k := None)"
    and DeletePolicy_err: "DeletePolicy s k w = (Some e, w') \<Longrightarrow> pol w' = pol w"
    and DeletePolicy_absent: "DeletePolicy s k w = (Some e, w') \<Longrightarrow> errors_Is e ErrNotFound \<Longrightarrow> pol w k = None"
    and Paths_frame: "Paths s k w = (me, w') \<Longrightarrow> pol w' = pol w \<and> pth w' = pth w"
    and Paths_ok: "Paths s k w = ((m, None), w') \<Longrightarrow> wf_map m \<and> map_of m = paths_of (pth w) k"
    and Paths_err: "Paths s k w = ((m, Some e), w') \<Longrightarrow> wf_map m \<and> map_of m \<subseteq>\<^sub>m paths_of (pth w) k"
    and UpdatePath_frame: "UpdatePath s q v w = (u, w') \<Longrightarrow> pol w' = pol w"
    and UpdatePath_ok: "UpdatePath s q v w = (None, w') \<Longrightarrow> pth w' = (pth w)(q \<mapsto> v)"
    and UpdatePath_err: "UpdatePath s q v w = (Some e, w') \<Longrightarrow> pth w' = pth w"
    and UpdatePath_present: "UpdatePath s q v w = (Some e, w') \<Longrightarrow> \<not> errors_Is e ErrNotFound"
    and DeletePath_frame: "DeletePath s q w = (u, w') \<Longrightarrow> pol w' = pol w"
    and DeletePath_ok: "DeletePath s q w = (None, w') \<Longrightarrow> pth w' = (pth w)(q := None)"
    and DeletePath_err: "DeletePath s q w = (Some e, w') \<Longrightarrow> pth w' = pth w"
    and DeletePath_absent: "DeletePath s q w = (Some e, w') \<Longrightarrow> errors_Is e ErrNotFound \<Longrightarrow> pth w q = None"
    and MapOrder_frame: "MapOrder s w = (ns, w') \<Longrightarrow> pol w' = pol w \<and> pth w' = pth w"
begin

text \<open>
  A deletion whose error is nil or \<open>ErrNotFound\<close> leaves the entry absent: the two cases every
  caller treats alike.
\<close>

lemma DeletePolicy_done:
  "DeletePolicy s k w = (r, w') \<Longrightarrow> (\<And>e. r = Some e \<Longrightarrow> errors_Is e ErrNotFound) \<Longrightarrow> pol w' = (pol w)(k := None)"
  by (cases r) (auto simp: DeletePolicy_ok, metis DeletePolicy_err DeletePolicy_absent fun_upd_idem_iff)

lemma DeletePath_done:
  "DeletePath s q w = (r, w') \<Longrightarrow> (\<And>e. r = Some e \<Longrightarrow> errors_Is e ErrNotFound) \<Longrightarrow> pth w' = (pth w)(q := None)"
  by (cases r) (auto simp: DeletePath_ok, metis DeletePath_err DeletePath_absent fun_upd_idem_iff)

lemma DeletePath_cases:
  "DeletePath s q w = (r, w') \<Longrightarrow> pth w' = pth w \<or> pth w' = (pth w)(q := None)"
  by (cases r) (auto dest: DeletePath_ok DeletePath_err)

lemma DeletePolicy_cases:
  "DeletePolicy s k w = (r, w') \<Longrightarrow> pol w' = pol w \<or> pol w' = (pol w)(k := None)"
  by (cases r) (auto dest: DeletePolicy_ok DeletePolicy_err)

lemmas frames = LookupPolicy_frame UpdatePolicy_frame DeletePolicy_frame Paths_frame
  UpdatePath_frame DeletePath_frame MapOrder_frame

end

text \<open>
  A store that is certain to accept the next \<open>n\<close> writes: \<open>ok n w\<close>. Reads and deletions then
  succeed, or report an absent entry, and use up nothing.
\<close>

locale reliable_store = map_store_laws +
  fixes ok :: "nat \<Rightarrow> 'w \<Rightarrow> bool"
  assumes LookupPolicy_reliable: "ok n w \<Longrightarrow> LookupPolicy s k w = (r, w') \<Longrightarrow>
      ok n w' \<and> (case pol w k of None \<Rightarrow> \<exists>e. r = Inl e \<and> errors_Is e ErrNotFound | Some p \<Rightarrow> r = Inr p)"
    and UpdatePolicy_reliable: "ok (Suc n) w \<Longrightarrow> UpdatePolicy s k p w = (u, w') \<Longrightarrow> u = None \<and> ok n w'"
    and DeletePolicy_reliable: "ok n w \<Longrightarrow> DeletePolicy s k w = (u, w') \<Longrightarrow>
      ok n w' \<and> (u = None \<or> (\<exists>e. u = Some e \<and> errors_Is e ErrNotFound))"
    and Paths_reliable: "ok n w \<Longrightarrow> Paths s k w = ((m, u), w') \<Longrightarrow> u = None \<and> ok n w'"
    and UpdatePath_reliable: "ok (Suc n) w \<Longrightarrow> UpdatePath s q v w = (u, w') \<Longrightarrow> u = None \<and> ok n w'"
    and DeletePath_reliable: "ok n w \<Longrightarrow> DeletePath s q w = (u, w') \<Longrightarrow>
      ok n w' \<and> (u = None \<or> (\<exists>e. u = Some e \<and> errors_Is e ErrNotFound))"
    and MapOrder_reliable: "ok n w \<Longrightarrow> MapOrder s w = (ns, w') \<Longrightarrow> ok n w'"
    and ok_mono: "ok (Suc n) w \<Longrightarrow> ok n w"

text \<open>
  A store that logs the writes that take effect, in order. The scheduler reads the maps between
  any two writes, so the log determines every state it can see.
\<close>

datatype map_write =
    WritePolicy conn_key map_policy
  | ErasePolicy conn_key
  | WritePath path_key map_path
  | ErasePath path_key

locale logged_store = map_store_laws +
  fixes log :: "'w \<Rightarrow> map_write list"
  assumes LookupPolicy_log: "LookupPolicy s k w = (r, w') \<Longrightarrow> log w' = log w"
    and UpdatePolicy_log: "UpdatePolicy s k p w = (u, w') \<Longrightarrow>
      log w' = log w @ (if u = None then [WritePolicy k p] else [])"
    and DeletePolicy_log: "DeletePolicy s k w = (u, w') \<Longrightarrow>
      log w' = log w @ (if u = None then [ErasePolicy k] else [])"
    and Paths_log: "Paths s k w = (me, w') \<Longrightarrow> log w' = log w"
    and UpdatePath_log: "UpdatePath s q v w = (u, w') \<Longrightarrow>
      log w' = log w @ (if u = None then [WritePath q v] else [])"
    and DeletePath_log: "DeletePath s q w = (u, w') \<Longrightarrow>
      log w' = log w @ (if u = None then [ErasePath q] else [])"
    and MapOrder_log: "MapOrder s w = (ns, w') \<Longrightarrow> log w' = log w"

end
