(* ===== verification/Live.thy ===== *)
theory Live
  imports MapStore
begin

text \<open>
  The live transaction of \<open>dualsteer-agent/live.go\<close>: \<open>ApplyLive\<close> stages the paths of a new
  generation, commits the policy and removes stale paths, with a rollback when staging or the
  commit fails; \<open>DeleteLive\<close> removes the policy and then the paths. The lemmas of the context
  \<open>map_store_laws\<close> describe the effect of each loop and then of the two operations, for every
  pattern of failures and every iteration order.
\<close>

section \<open>Operations\<close>

text \<open>
  \<open>Policy.ConnectionKey\<close>; the current namespace inode comes from \<open>CurrentNetNSInode\<close>, a \<open>stat\<close>
  of \<open>/proc/self/ns/net\<close>.
\<close>

definition ConnectionKey :: "go_error + u64 \<Rightarrow> policy \<Rightarrow> go_error + conn_key" where
  "ConnectionKey current p =
     (case Connection p of
        None \<Rightarrow> Inl (errors_New ''live operations require dualSteer.connection.token from MPTCP PM events'')
      | Some c \<Rightarrow> (case Token c of
          None \<Rightarrow> Inl (errors_New ''live operations require dualSteer.connection.token from MPTCP PM events'')
        | Some t \<Rightarrow> (case current of
            Inl e \<Rightarrow> Inl e
          | Inr inode \<Rightarrow>
              if NetNSInode c \<noteq> 0 \<and> NetNSInode c \<noteq> inode
              then Inl (errors_New ''connection netnsInode differs from current namespace'')
              else Inr \<lparr>ck_NetNSInode = inode, ck_Token = t, ck_Reserved = 0\<rparr>)))"

text \<open>The loop of \<open>DesiredPaths\<close> over the endpoints of one leg, which stores into the result map.\<close>

fun add_paths :: "conn_key \<Rightarrow> u32 \<Rightarrow> u32 \<Rightarrow> endpoint list \<Rightarrow> (path_key, map_path) gomap \<Rightarrow>
    go_error + (path_key, map_path) gomap" where
  "add_paths key gen access [] result = Inr result"
| "add_paths key gen access (ep # eps) result =
     (case (LocalID ep, RemoteID ep) of
        (Some l, Some r) \<Rightarrow>
          add_paths key gen access eps
            (go_set \<lparr>pk_Conn = key, pk_LocalID = l, pk_RemoteID = r\<rparr>
               \<lparr>path_Generation = gen, path_Access = access\<rparr> result)
      | _ \<Rightarrow> Inl (errors_New ''endpoint localId and remoteId required''))"

definition DesiredPaths :: "policy \<Rightarrow> conn_key \<Rightarrow> go_error + (path_key, map_path) gomap" where
  "DesiredPaths p key =
     (if Endpoints (LegA (Legs p)) = [] \<or> Endpoints (LegB (Legs p)) = []
      then Inl (errors_New ''live apply requires explicit endpoints for each leg; interface indices are not endpoint IDs'')
      else case add_paths key (Generation p) 0 (Endpoints (LegA (Legs p))) [] of
        Inl e \<Rightarrow> Inl e
      | Inr m \<Rightarrow> add_paths key (Generation p) 1 (Endpoints (LegB (Legs p))) m)"

text \<open>The staging loop returns the error that stopped it and the keys staged so far.\<close>

fun stage_paths :: "('w, 'z) runtime_scheme \<Rightarrow> (path_key \<times> map_path) list \<Rightarrow> path_key list \<Rightarrow> 'w \<Rightarrow>
    go_error option \<times> path_key list \<times> 'w" where
  "stage_paths s [] staged w = (None, staged, w)"
| "stage_paths s ((k, v) # kvs) staged w =
     (case UpdatePath s k v w of
        (Some e, w') \<Rightarrow> (Some e, staged, w')
      | (None, w') \<Rightarrow> stage_paths s kvs (staged @ [k]) w')"

text \<open>The closure \<open>rollback\<close>: restore or remove each staged key, collecting the failures.\<close>

fun rollback_paths :: "('w, 'z) runtime_scheme \<Rightarrow> (path_key, map_path) gomap \<Rightarrow> path_key list \<Rightarrow> 'w \<Rightarrow>
    go_error list \<times> 'w" where
  "rollback_paths s before [] w = ([], w)"
| "rollback_paths s before (k # ks) w =
     (let (err, w1) = (case map_of before k of Some v \<Rightarrow> UpdatePath s k v w | None \<Rightarrow> DeletePath s k w);
          (fs, w2) = rollback_paths s before ks w1
      in (case err of
            Some e \<Rightarrow> if \<not> errors_Is e ErrNotFound then (Errorf ''rollback path'' [e] # fs, w2) else (fs, w2)
          | None \<Rightarrow> (fs, w2)))"

definition rollback :: "('w, 'z) runtime_scheme \<Rightarrow> (path_key, map_path) gomap \<Rightarrow> path_key list \<Rightarrow>
    go_error \<Rightarrow> 'w \<Rightarrow> unit outcome \<times> 'w" where
  "rollback s before staged cause w =
     (let (fs, w') = rollback_paths s before staged w in (Err (Joined (cause # fs)), w'))"

text \<open>A loop that deletes paths and collects every error other than \<open>ErrNotFound\<close>.\<close>

fun delete_paths :: "('w, 'z) runtime_scheme \<Rightarrow> path_key list \<Rightarrow> 'w \<Rightarrow> go_error list \<times> 'w" where
  "delete_paths s [] w = ([], w)"
| "delete_paths s (k # ks) w =
     (let (err, w1) = DeletePath s k w; (fs, w2) = delete_paths s ks w1
      in (case err of
            Some e \<Rightarrow> if \<not> errors_Is e ErrNotFound then (e # fs, w2) else (fs, w2)
          | None \<Rightarrow> (fs, w2)))"

definition generation_error :: "u32 \<Rightarrow> go_error + map_policy \<Rightarrow> go_error option" where
  "generation_error gen r =
     (case r of
        Inl e \<Rightarrow> if \<not> errors_Is e ErrNotFound then Some (Errorf ''read existing policy'' [e]) else None
      | Inr old \<Rightarrow> if gen \<le> mp_Generation old then Some (errors_New ''stale generation'') else None)"

definition cleanup_error :: "go_error list \<Rightarrow> unit outcome" where
  "cleanup_error fs =
     (case errors_Join (map Some fs) of
        None \<Rightarrow> Ok ()
      | Some e \<Rightarrow> Err (Errorf ''policy committed but stale path cleanup failed (retry delete or advance generation)'' [e]))"

text \<open>
  The second half of \<open>ApplyLive\<close>, from the staging loop on: stage every desired path, commit the
  policy, delete the paths that are no longer desired.
\<close>

definition stage_and_commit :: "('w, 'z) runtime_scheme \<Rightarrow> plan \<Rightarrow> conn_key \<Rightarrow> (path_key, map_path) gomap \<Rightarrow>
    (path_key, map_path) gomap \<Rightarrow> 'w \<Rightarrow> unit outcome \<times> 'w" where
  "stage_and_commit s p key desired before w =
     (let (ns, w1) = MapOrder s w in
      (case stage_paths s (go_range ns desired) [] w1 of
         (Some e, staged, w2) \<Rightarrow> rollback s before staged (Errorf ''stage path'' [e]) w2
       | (None, staged, w2) \<Rightarrow>
           (case MapPolicy p of Panic \<Rightarrow> (Panic, w2) | Err e \<Rightarrow> (Err e, w2) | Ok mp \<Rightarrow>
            (case UpdatePolicy s key mp w2 of
               (Some e, w3) \<Rightarrow> rollback s before staged (Errorf ''commit policy'' [e]) w3
             | (None, w3) \<Rightarrow>
                 let (ns', w4) = MapOrder s w3;
                     stale = filter (\<lambda>k. map_of desired k = None) (map fst (go_range ns' before));
                     (fs, w5) = delete_paths s stale w4
                 in (cleanup_error fs, w5)))))"

definition ApplyLive :: "('w, 'z) runtime_scheme \<Rightarrow> plan \<Rightarrow> conn_key \<Rightarrow> 'w \<Rightarrow> unit outcome \<times> 'w" where
  "ApplyLive s p key w =
     (case Config_Validate \<lparr>DualSteer = plan_Policy p\<rparr> of Panic \<Rightarrow> (Panic, w) | Err e \<Rightarrow> (Err e, w) | Ok _ \<Rightarrow>
      if ck_NetNSInode key = 0 \<or> ck_Reserved key \<noteq> 0 then (Err (errors_New ''invalid connection key''), w)
      else case DesiredPaths (plan_Policy p) key of Inl e \<Rightarrow> (Err e, w) | Inr desired \<Rightarrow>
      let (old, w1) = LookupPolicy s key w in
      case generation_error (Generation (plan_Policy p)) old of Some e \<Rightarrow> (Err e, w1) | None \<Rightarrow>
      (case Paths s key w1 of
         ((before, Some e), w2) \<Rightarrow> (Err e, w2)
       | ((before, None), w2) \<Rightarrow> stage_and_commit s p key desired before w2))"

definition DeleteLive :: "('w, 'z) runtime_scheme \<Rightarrow> conn_key \<Rightarrow> 'w \<Rightarrow> go_error option \<times> 'w" where
  "DeleteLive s key w =
     (let (err, w1) = DeletePolicy s key w in
      if (case err of Some e \<Rightarrow> \<not> errors_Is e ErrNotFound | None \<Rightarrow> False)
      then (Some (Errorf ''delete policy'' [the err]), w1)
      else (case Paths s key w1 of
              ((paths, Some e), w2) \<Rightarrow> (Some e, w2)
            | ((paths, None), w2) \<Rightarrow>
                let (ns, w3) = MapOrder s w2;
                    (fs, w4) = delete_paths s (map fst (go_range ns paths)) w3
                in (errors_Join (map Some fs), w4)))"

section \<open>The desired paths\<close>

text \<open>
  The map \<open>DesiredPaths\<close> builds, as a function: a path of the connection belongs to leg B or leg
  A when the leg lists its pair, with the generation of the policy.
\<close>

definition desired_path :: "policy \<Rightarrow> conn_key \<Rightarrow> path_key \<Rightarrow> map_path option" where
  "desired_path p key q =
     (let pair = Some (pk_LocalID q, pk_RemoteID q) in
      if pk_Conn q \<noteq> key then None
      else if pair \<in> endpoint_pair ` set (Endpoints (LegB (Legs p)))
      then Some \<lparr>path_Generation = Generation p, path_Access = 1\<rparr>
      else if pair \<in> endpoint_pair ` set (Endpoints (LegA (Legs p)))
      then Some \<lparr>path_Generation = Generation p, path_Access = 0\<rparr>
      else None)"

lemma path_key_eq_iff:
  "q = \<lparr>pk_Conn = key, pk_LocalID = l, pk_RemoteID = r\<rparr> \<longleftrightarrow>
     pk_Conn q = key \<and> (pk_LocalID q, pk_RemoteID q) = (l, r)"
  by (cases q) auto

lemma add_paths_spec:
  assumes "add_paths key gen access eps m = Inr m'" "wf_map m"
  shows "wf_map m'"
    and "map_of m' q = (if pk_Conn q = key \<and> Some (pk_LocalID q, pk_RemoteID q) \<in> endpoint_pair ` set eps
      then Some \<lparr>path_Generation = gen, path_Access = access\<rparr> else map_of m q)"
  using assms
proof (induction eps arbitrary: m)
  case Nil
  { case 1 then show ?case by simp }
  { case 2 then show ?case by simp }
next
  case (Cons ep eps)
  { case 1 then show ?case using Cons.IH(1) by (auto split: option.splits) }
  { case 2 then show ?case
      using Cons.IH(2) by (auto simp: endpoint_pair_def path_key_eq_iff image_iff split: option.splits) }
qed

lemma add_paths_Inr_iff:
  "(\<exists>m'. add_paths key gen access eps m = Inr m') \<longleftrightarrow> (\<forall>ep \<in> set eps. endpoint_pair ep \<noteq> None)"
  by (induction eps arbitrary: m) (auto simp: endpoint_pair_def split: option.splits)

lemma DesiredPaths_spec:
  assumes "DesiredPaths p key = Inr m"
  shows "wf_map m" "map_of m = desired_path p key"
proof -
  from assms obtain ma where a: "add_paths key (Generation p) 0 (Endpoints (LegA (Legs p))) [] = Inr ma"
    and b: "add_paths key (Generation p) 1 (Endpoints (LegB (Legs p))) ma = Inr m"
    by (auto simp: DesiredPaths_def split: if_splits sum.splits)
  have "wf_map ma" using add_paths_spec(1) [OF a] by simp
  then show "wf_map m" using add_paths_spec(1) [OF b] by simp
  show "map_of m = desired_path p key"
    using add_paths_spec(2) [OF a] add_paths_spec(2) [OF b \<open>wf_map ma\<close>]
    by (auto simp: desired_path_def Let_def fun_eq_iff)
qed

lemma desired_path_conn: "desired_path p key q = Some v \<Longrightarrow> pk_Conn q = key"
  by (simp add: desired_path_def Let_def split: if_splits)

lemma DesiredPaths_conn: "DesiredPaths p key = Inr m \<Longrightarrow> q \<in> fst ` set m \<Longrightarrow> pk_Conn q = key"
  using DesiredPaths_spec [of p key m] desired_path_conn by (metis domD dom_map_of_conv_image_fst)

section \<open>The loops\<close>

context map_store_laws
begin

lemma stage_paths_spec:
  assumes "stage_paths s kvs st w = (r, st', w')" "distinct (map fst kvs)"
  shows "pol w' = pol w \<and> (\<exists>n. n \<le> length kvs \<and> st' = st @ map fst (take n kvs) \<and>
    pth w' = pth w ++ map_of (take n kvs) \<and> (r = None \<longrightarrow> n = length kvs))"
  using assms
proof (induction kvs arbitrary: st w)
  case Nil
  then show ?case by auto
next
  case (Cons kv kvs)
  obtain k v where kv: "kv = (k, v)" by force
  obtain u w1 where up: "UpdatePath s k v w = (u, w1)" by force
  show ?case
  proof (cases u)
    case (Some e)
    then show ?thesis
      using Cons.prems up UpdatePath_err UpdatePath_frame by (auto simp: kv intro!: exI [of _ "0::nat"])
  next
    case None
    with Cons.prems up have rest: "stage_paths s kvs (st @ [k]) w1 = (r, st', w')" by (simp add: kv)
    from Cons.IH [OF rest] Cons.prems(2) obtain n where n: "pol w' = pol w1" "n \<le> length kvs"
      "st' = (st @ [k]) @ map fst (take n kvs)" "pth w' = pth w1 ++ map_of (take n kvs)" "r = None \<longrightarrow> n = length kvs"
      by auto
    have "k \<notin> dom (map_of (take n kvs))"
      using Cons.prems(2) by (auto simp: kv dom_map_of_conv_image_fst dest: in_set_takeD)
    then have eff: "pth w' = pth w ++ map_of (take (Suc n) (kv # kvs))"
      using n(4) UpdatePath_ok up None by (simp add: kv map_add_upd_left)
    have "Suc n \<le> length (kv # kvs)" "st' = st @ map fst (take (Suc n) (kv # kvs))"
      "r = None \<longrightarrow> Suc n = length (kv # kvs)"
      using n by (simp_all add: kv)
    with eff n(1) UpdatePath_frame [OF up] show ?thesis by metis
  qed
qed

lemma rollback_paths_spec:
  assumes "rollback_paths s before ks w = (fs, w')"
  shows "pol w' = pol w \<and> (\<forall>q. q \<notin> set ks \<longrightarrow> pth w' q = pth w q) \<and>
    (\<forall>q. pth w' q = pth w q \<or> q \<in> set ks \<and> pth w' q = map_of before q) \<and>
    (fs = [] \<longrightarrow> (\<forall>q \<in> set ks. pth w' q = map_of before q))"
  using assms
proof (induction ks arbitrary: w fs)
  case Nil
  then show ?case by simp
next
  case (Cons k ks)
  obtain u w1 where op: "(case map_of before k of Some v \<Rightarrow> UpdatePath s k v w | None \<Rightarrow> DeletePath s k w) = (u, w1)"
    by force
  obtain fs' where rest: "rollback_paths s before ks w1 = (fs', w')"
    using Cons.prems op by (auto simp: Let_def split: prod.splits option.splits if_splits)
  have fs: "fs = [] \<longrightarrow> fs' = [] \<and> (\<forall>e. u = Some e \<longrightarrow> errors_Is e ErrNotFound)"
    using Cons.prems op rest by (auto simp: Let_def split: option.splits if_splits)
  have eff: "pol w1 = pol w" "\<And>q. q \<noteq> k \<Longrightarrow> pth w1 q = pth w q"
    "(\<forall>e. u = Some e \<longrightarrow> errors_Is e ErrNotFound) \<Longrightarrow> pth w1 k = map_of before k"
    "pth w1 k = pth w k \<or> pth w1 k = map_of before k"
  proof -
    consider (del) "map_of before k = None" "DeletePath s k w = (u, w1)"
      | (upd) v where "map_of before k = Some v" "UpdatePath s k v w = (u, w1)"
      using op by (cases "map_of before k") auto
    then have "pol w1 = pol w \<and> (\<forall>q. q \<noteq> k \<longrightarrow> pth w1 q = pth w q) \<and>
        ((\<forall>e. u = Some e \<longrightarrow> errors_Is e ErrNotFound) \<longrightarrow> pth w1 k = map_of before k) \<and>
        (pth w1 k = pth w k \<or> pth w1 k = map_of before k)"
    proof cases
      case del
      then show ?thesis
        using DeletePath_frame [OF del(2)] DeletePath_done [OF del(2)] DeletePath_cases [OF del(2)] by auto
    next
      case upd
      then show ?thesis
        using UpdatePath_frame [OF upd(2)] UpdatePath_ok [of k v w w1] UpdatePath_err [of k v w]
          UpdatePath_present [of k v w] by (cases u) auto
    qed
    then show "pol w1 = pol w" "\<And>q. q \<noteq> k \<Longrightarrow> pth w1 q = pth w q"
      "(\<forall>e. u = Some e \<longrightarrow> errors_Is e ErrNotFound) \<Longrightarrow> pth w1 k = map_of before k"
      "pth w1 k = pth w k \<or> pth w1 k = map_of before k" by auto
  qed
  have "pth w' q = pth w q \<or> q \<in> set (k # ks) \<and> pth w' q = map_of before q" for q
    using Cons.IH [OF rest, THEN conjunct2, THEN conjunct2, THEN conjunct1, THEN spec, of q] eff(2) [of q] eff(4)
    by (cases "q = k") auto
  with Cons.IH [OF rest] fs eff(1-3) show ?case by auto
qed

lemma delete_paths_spec:
  assumes "delete_paths s ks w = (fs, w')"
  shows "pol w' = pol w \<and> (\<forall>q. q \<notin> set ks \<longrightarrow> pth w' q = pth w q) \<and>
    (\<forall>q. pth w' q = pth w q \<or> pth w' q = None) \<and>
    (fs = [] \<longrightarrow> (\<forall>q \<in> set ks. pth w' q = None))"
  using assms
proof (induction ks arbitrary: w fs)
  case Nil
  then show ?case by simp
next
  case (Cons k ks)
  obtain u w1 where op: "DeletePath s k w = (u, w1)" by force
  obtain fs' where rest: "delete_paths s ks w1 = (fs', w')"
    using Cons.prems op by (auto simp: Let_def split: prod.splits option.splits if_splits)
  have fs: "fs = [] \<longrightarrow> fs' = [] \<and> (\<forall>e. u = Some e \<longrightarrow> errors_Is e ErrNotFound)"
    using Cons.prems op rest by (auto simp: Let_def split: option.splits if_splits)
  have eff: "pol w1 = pol w" "\<And>q. q \<noteq> k \<Longrightarrow> pth w1 q = pth w q" "pth w1 k = pth w k \<or> pth w1 k = None"
    "(\<forall>e. u = Some e \<longrightarrow> errors_Is e ErrNotFound) \<Longrightarrow> pth w1 k = None"
    using DeletePath_frame [OF op] DeletePath_done [OF op] DeletePath_cases [OF op] by auto
  have "pth w1 q = pth w q \<or> pth w1 q = None" for q using eff(2,3) by (cases "q = k") auto
  with Cons.IH [OF rest] have mono: "pth w' q = pth w q \<or> pth w' q = None" for q by metis
  from Cons.IH [OF rest] fs eff(1,2,4) mono show ?case by auto
qed

section \<open>The transaction\<close>

text \<open>
  The three ways a call of \<open>ApplyLive\<close> ends: rejected before any write, rolled back without a
  commit, or committed with a possibly incomplete cleanup.
\<close>

lemma rollback_after_stage:
  assumes stage: "stage_paths s kvs [] w = (r, staged, w1)" and distinct: "distinct (map fst kvs)"
    and before: "map_of before = paths_of (pth w) key" and conn: "\<forall>q \<in> fst ` set kvs. pk_Conn q = key"
    and w2: "pol w2 = pol w1" "pth w2 = pth w1"
    and rb: "rollback s before staged c w2 = (res, w3)"
  obtains fs where "res = Err (Joined (c # fs))" "pol w3 = pol w"
    "\<And>q. pk_Conn q \<noteq> key \<Longrightarrow> pth w3 q = pth w q" "fs = [] \<Longrightarrow> pth w3 = pth w"
    "\<And>q. pth w3 q = pth w q \<or> pth w3 q \<noteq> None \<and> pth w3 q = map_of kvs q"
proof -
  obtain fs where fs: "rollback_paths s before staged w2 = (fs, w3)" "res = Err (Joined (c # fs))"
    using rb by (auto simp: rollback_def Let_def split: prod.splits)
  obtain n where n: "pol w1 = pol w" "staged = map fst (take n kvs)" "pth w1 = pth w ++ map_of (take n kvs)"
    using stage_paths_spec [OF stage distinct] by auto
  have out: "pth w1 q = pth w q" if "q \<notin> set staged" for q
  proof -
    have "map_of (take n kvs) q = None" using that n(2) by (simp add: map_of_eq_None_iff)
    then show ?thesis by (simp add: n(3) map_add_def)
  qed
  have staged: "pk_Conn q = key" if "q \<in> set staged" for q
  proof -
    have "set staged \<subseteq> fst ` set kvs" unfolding n(2) set_map by (rule image_mono [OF set_take_subset])
    then show ?thesis using that conn by blast
  qed
  note sp = rollback_paths_spec [OF fs(1)]
  show thesis
  proof (rule that)
    show "res = Err (Joined (c # fs))" by (rule fs(2))
    show "pol w3 = pol w" using sp n w2 by simp
    show "pth w3 q = pth w q" if "pk_Conn q \<noteq> key" for q
      using sp out staged that w2 by metis
    show "pth w3 = pth w" if "fs = []"
    proof
      fix q
      show "pth w3 q = pth w q"
        using sp that out [of q] staged [of q] before w2 by (cases "q \<in> set staged") auto
    qed
    show "pth w3 q = pth w q \<or> pth w3 q \<noteq> None \<and> pth w3 q = map_of kvs q" for q
    proof (cases "q \<in> set staged")
      case False
      then show ?thesis using sp out [OF False] w2 by metis
    next
      case True
      then obtain v where v: "map_of (take n kvs) q = Some v"
        unfolding n(2) set_map by (metis map_of_eq_None_iff not_Some_eq)
      then have "pth w1 q = Some v" by (simp add: n(3))
      moreover have "map_of kvs q = Some v"
        by (rule map_of_is_SomeI [OF distinct in_set_takeD [OF map_of_SomeD [OF v]]])
      ultimately show ?thesis using sp [THEN conjunct2, THEN conjunct2, THEN conjunct1, THEN spec, of q] before staged [OF True] w2
        by auto
    qed
  qed
qed

lemma stage_and_commit_cases:
  assumes run: "stage_and_commit s p key desired before w = (res, w')"
    and des: "wf_map desired" "\<forall>q \<in> fst ` set desired. pk_Conn q = key"
    and before: "map_of before = paths_of (pth w) key" and mp: "MapPolicy p = Ok mp"
  obtains
    (rolled_back) c fs where "res = Err (Joined (c # fs))" "pol w' = pol w"
      "\<And>q. pk_Conn q \<noteq> key \<Longrightarrow> pth w' q = pth w q" "fs = [] \<Longrightarrow> pth w' = pth w"
      "\<And>q. pth w' q = pth w q \<or> pth w' q \<noteq> None \<and> pth w' q = map_of desired q"
  | (committed) stale fs w4 where
      "delete_paths s stale w4 = (fs, w')" "res = cleanup_error fs"
      "pol w4 = (pol w)(key \<mapsto> mp)" "pth w4 = pth w ++ map_of desired"
      "\<And>q. q \<in> set stale \<longleftrightarrow> map_of desired q = None \<and> pk_Conn q = key \<and> pth w q \<noteq> None"
proof -
  obtain ns w1 where mo: "MapOrder s w = (ns, w1)" by force
  note mof = MapOrder_frame [OF mo]
  let ?kvs = "go_range ns desired"
  have kvs: "distinct (map fst ?kvs)" "map_of ?kvs = map_of desired" using des(1) by simp_all
  have conn: "\<forall>q \<in> fst ` set ?kvs. pk_Conn q = key" using des(2) by auto
  obtain se staged w2 where st: "stage_paths s ?kvs [] w1 = (se, staged, w2)" by (metis prod.exhaust)
  have before1: "map_of before = paths_of (pth w1) key" using before mof by simp
  note rb = rollback_after_stage [OF st kvs(1) before1 conn]
  note run' = run [unfolded stage_and_commit_def] mo st
  consider (stage_err) e where "se = Some e"
    | (commit_err) e w3 where "se = None" "UpdatePolicy s key mp w2 = (Some e, w3)"
    | (commit) w3 where "se = None" "UpdatePolicy s key mp w2 = (None, w3)"
    by (cases se; cases "UpdatePolicy s key mp w2"; cases "fst (UpdatePolicy s key mp w2)") auto
  then show thesis
  proof cases
    case stage_err
    then have r: "rollback s before staged (Errorf ''stage path'' [e]) w2 = (res, w')" using run' by simp
    show thesis by (rule rb [OF refl refl r], rule rolled_back) (simp_all add: mof kvs(2))
  next
    case commit_err
    then have r: "rollback s before staged (Errorf ''commit policy'' [e]) w3 = (res, w')" using run' mp by simp
    have w3: "pol w3 = pol w2" "pth w3 = pth w2"
      using commit_err UpdatePolicy_err UpdatePolicy_frame by auto
    show thesis by (rule rb [OF w3 r], rule rolled_back) (simp_all add: mof kvs(2))
  next
    case commit
    obtain ns' w4 where mo': "MapOrder s w3 = (ns', w4)" by force
    let ?stale = "filter (\<lambda>k. map_of desired k = None) (map fst (go_range ns' before))"
    obtain fs w5 where dp: "delete_paths s ?stale w4 = (fs, w5)" by force
    have res: "res = cleanup_error fs" "w5 = w'" using run' commit mp mo' dp by simp_all
    have p4: "pol w4 = (pol w2)(key \<mapsto> mp)" "pth w4 = pth w2"
      using UpdatePolicy_ok UpdatePolicy_frame commit(2) MapOrder_frame [OF mo'] by auto
    have p2: "pol w2 = pol w" "pth w2 = pth w ++ map_of desired"
      using stage_paths_spec [OF st kvs(1)] commit(1) mof kvs(2) by auto
    have "fst ` set before = dom (paths_of (pth w) key)"
      using before by (metis dom_map_of_conv_image_fst)
    then have stale: "q \<in> set ?stale \<longleftrightarrow> map_of desired q = None \<and> pk_Conn q = key \<and> pth w q \<noteq> None" for q
      by (auto simp: dom_def restrict_map_def split: if_splits)
    show thesis
    proof (rule committed [OF _ res(1)])
      show "delete_paths s ?stale w4 = (fs, w')" using dp res(2) by simp
      show "pol w4 = (pol w)(key \<mapsto> mp)" "pth w4 = pth w ++ map_of desired" using p4 p2 by simp_all
    qed (rule stale)
  qed
qed

lemma ApplyLive_cases:
  assumes "ApplyLive s p key w = (res, w')"
  obtains
    (rejected) e where "res = Err e" "pol w' = pol w" "pth w' = pth w"
  | (staging) desired before mp w2 where
      "Config_Validate \<lparr>DualSteer = plan_Policy p\<rparr> = Ok ()" "ck_NetNSInode key \<noteq> 0" "ck_Reserved key = 0"
      "DesiredPaths (plan_Policy p) key = Inr desired" "MapPolicy p = Ok mp"
      "\<And>old. pol w key = Some old \<Longrightarrow> mp_Generation old < Generation (plan_Policy p)"
      "pol w2 = pol w" "pth w2 = pth w" "map_of before = paths_of (pth w2) key"
      "stage_and_commit s p key desired before w2 = (res, w')"
proof -
  obtain old w1 where lk: "LookupPolicy s key w = (old, w1)" by force
  obtain before pe w2 where ps: "Paths s key w1 = ((before, pe), w2)" by (metis prod.exhaust)
  have w1: "pol w1 = pol w \<and> pth w1 = pth w" by (rule LookupPolicy_frame [OF lk])
  have w2: "pol w2 = pol w1 \<and> pth w2 = pth w1" by (rule Paths_frame [OF ps])
  obtain cv where cv: "Config_Validate \<lparr>DualSteer = plan_Policy p\<rparr> = cv" by blast
  then have np: "cv \<noteq> Panic" using Config_Validate_no_panic by blast
  note run = assms [unfolded ApplyLive_def cv]
  have "(\<exists>e. res = Err e) \<and> w' \<in> {w, w1, w2} \<or>
      Config_Validate \<lparr>DualSteer = plan_Policy p\<rparr> = Ok () \<and> ck_NetNSInode key \<noteq> 0 \<and> ck_Reserved key = 0 \<and>
      generation_error (Generation (plan_Policy p)) old = None \<and> pe = None \<and>
      (\<exists>desired. DesiredPaths (plan_Policy p) key = Inr desired \<and>
        stage_and_commit s p key desired before w2 = (res, w'))"
    using run np by (simp add: lk ps) (cases cv; auto simp: cv lk ps split: if_splits sum.splits option.splits)
  then consider (stop) e where "res = Err e" "w' \<in> {w, w1, w2}"
    | (go) desired where "Config_Validate \<lparr>DualSteer = plan_Policy p\<rparr> = Ok ()" "ck_NetNSInode key \<noteq> 0"
        "ck_Reserved key = 0" "DesiredPaths (plan_Policy p) key = Inr desired"
        "generation_error (Generation (plan_Policy p)) old = None" "pe = None"
        "stage_and_commit s p key desired before w2 = (res, w')"
    by blast
  then show thesis
  proof cases
    case stop
    show thesis by (rule rejected [OF stop(1)]) (use stop(2) w1 w2 in auto)
  next
    case go
    obtain mp where mp: "MapPolicy p = Ok mp" using MapPolicy_valid go(1) by blast
    have gen: "mp_Generation q < Generation (plan_Policy p)" if "pol w key = Some q" for q
      using go(5) that lk LookupPolicy_found [of key w] LookupPolicy_absent [of key w]
      by (cases old) (auto simp: generation_error_def not_le split: if_splits)
    have "map_of before = paths_of (pth w2) key" using Paths_ok [of key w1 before w2] ps go(6) w2 by simp
    with go mp gen w1 w2 show thesis by (intro staging [of desired mp w2 before]) auto
  qed
qed

lemma ApplyLive_phases:
  assumes "ApplyLive s p key w = (res, w')"
  obtains
    (rejected) e where "res = Err e" "pol w' = pol w" "pth w' = pth w"
  | (rolled_back) c fs where "res = Err (Joined (c # fs))" "pol w' = pol w"
      "\<And>q. pk_Conn q \<noteq> key \<Longrightarrow> pth w' q = pth w q" "fs = [] \<Longrightarrow> pth w' = pth w"
      "\<And>old. pol w key = Some old \<Longrightarrow> mp_Generation old < Generation (plan_Policy p)"
      "\<And>q. pth w' q = pth w q \<or> pth w' q \<noteq> None \<and> pth w' q = desired_path (plan_Policy p) key q"
  | (committed) desired mp fs where
      "Config_Validate \<lparr>DualSteer = plan_Policy p\<rparr> = Ok ()" "ck_NetNSInode key \<noteq> 0" "ck_Reserved key = 0"
      "DesiredPaths (plan_Policy p) key = Inr desired" "MapPolicy p = Ok mp"
      "res = cleanup_error fs" "pol w' = (pol w)(key \<mapsto> mp)"
      "\<And>old. pol w key = Some old \<Longrightarrow> mp_Generation old < Generation (plan_Policy p)"
      "\<And>q. pk_Conn q \<noteq> key \<Longrightarrow> pth w' q = pth w q"
      "\<And>q v. map_of desired q = Some v \<Longrightarrow> pth w' q = Some v"
      "\<And>q. map_of desired q = None \<Longrightarrow> pth w' q = pth w q \<or> pth w' q = None"
      "\<And>q. fs = [] \<Longrightarrow> pk_Conn q = key \<Longrightarrow> pth w' q = map_of desired q"
  using assms
proof (cases rule: ApplyLive_cases)
  case rejected
  then show thesis by (rule that(1))
next
  case (staging desired before mp w2)
  have conn: "\<forall>q \<in> fst ` set desired. pk_Conn q = key" using DesiredPaths_conn [OF staging(4)] by blast
  from staging(10) show thesis
  proof (cases rule: stage_and_commit_cases [OF _ DesiredPaths_spec(1) [OF staging(4)] conn staging(9,5),
      consumes 1, case_names rolled_back committed])
    case (rolled_back c fs)
    show thesis by (rule that(2) [OF rolled_back(1)]) (use rolled_back staging(6,7,8) DesiredPaths_spec(2) [OF staging(4)] in auto)
  next
    case (committed stale fs w4)
    note d = delete_paths_spec [OF committed(1)]
    have p4: "pth w4 q = (case map_of desired q of None \<Rightarrow> pth w q | Some v \<Rightarrow> Some v)" for q
      by (simp add: committed(4) staging(8) map_add_def)
    have stale: "q \<in> set stale \<longleftrightarrow> map_of desired q = None \<and> pk_Conn q = key \<and> pth w q \<noteq> None" for q
      by (simp add: committed(5) staging(8))
    have unstale: "pth w' q = pth w4 q" if "q \<notin> set stale" for q using d that by blast
    show thesis
    proof (rule that(3) [OF staging(1-5) committed(2)])
      show "pol w' = (pol w)(key \<mapsto> mp)" using d committed(3) staging(7) by simp
      show "pth w' q = pth w q" if "pk_Conn q \<noteq> key" for q
      proof -
        have "map_of desired q = None" using conn that by (auto simp: map_of_eq_None_iff)
        then show ?thesis using unstale [of q] that by (simp add: p4 stale)
      qed
      show "pth w' q = Some v" if "map_of desired q = Some v" for q v
        using unstale [of q] that by (simp add: p4 stale)
      show "pth w' q = pth w q \<or> pth w' q = None" if "map_of desired q = None" for q
      proof -
        have "pth w' q = pth w4 q \<or> pth w' q = None"
          using d [THEN conjunct2, THEN conjunct2, THEN conjunct1] by (rule spec)
        then show ?thesis by (simp add: p4 that)
      qed
      show "pth w' q = map_of desired q" if "fs = []" "pk_Conn q = key" for q
      proof (cases "q \<in> set stale")
        case True
        then have "pth w' q = None" using d that(1) by blast
        then show ?thesis using True stale by simp
      next
        case False
        then show ?thesis using unstale [OF False] stale [of q] that(2) by (auto simp: p4 split: option.splits)
      qed
    qed (use staging(6) in blast)
  qed
qed

lemma delete_every_path:
  assumes "delete_paths s (map fst (go_range ns ps)) w = (fs, w')" "map_of ps = paths_of (pth w) key"
  shows "pol w' = pol w \<and> (\<forall>q. pk_Conn q \<noteq> key \<longrightarrow> pth w' q = pth w q) \<and>
    (\<forall>q. pth w' q = pth w q \<or> pth w' q = None) \<and>
    (fs = [] \<longrightarrow> (\<forall>q. pk_Conn q = key \<longrightarrow> pth w' q = None))"
proof -
  note d = delete_paths_spec [OF assms(1)]
  have "q \<in> set (map fst (go_range ns ps)) \<longleftrightarrow> map_of ps q \<noteq> None" for q
    by (simp add: map_of_eq_None_iff)
  then have keys: "q \<in> set (map fst (go_range ns ps)) \<longleftrightarrow> pk_Conn q = key \<and> pth w q \<noteq> None" for q
    by (simp add: assms(2) restrict_map_def)
  have outside: "pth w' q = pth w q" if "\<not> (pk_Conn q = key \<and> pth w q \<noteq> None)" for q
    using d that keys [of q] by metis
  have "pth w' q = None" if "fs = []" "pk_Conn q = key" for q
  proof (cases "pth w q")
    case None
    then show ?thesis using outside [of q] by simp
  next
    case (Some v)
    then have "q \<in> set (map fst (go_range ns ps))" using keys [of q] that by blast
    then show ?thesis using d that(1) by blast
  qed
  then show ?thesis using d outside by auto
qed

lemma DeleteLive_spec:
  assumes "DeleteLive s key w = (e, w')"
  shows "(\<forall>k. k \<noteq> key \<longrightarrow> pol w' k = pol w k) \<and> (\<forall>q. pk_Conn q \<noteq> key \<longrightarrow> pth w' q = pth w q) \<and>
    (\<forall>q. pth w' q = pth w q \<or> pth w' q = None) \<and> (pol w' key = pol w key \<or> pol w' key = None) \<and>
    (pol w' key \<noteq> None \<longrightarrow> pth w' = pth w) \<and>
    (e = None \<longrightarrow> pol w' key = None \<and> (\<forall>q. pk_Conn q = key \<longrightarrow> pth w' q = None))"
proof -
  obtain u w1 where dp: "DeletePolicy s key w = (u, w1)" by force
  note fr = DeletePolicy_frame [OF dp]
  show ?thesis
  proof (cases "\<exists>x. u = Some x \<and> \<not> errors_Is x ErrNotFound")
    case True
    then have "e \<noteq> None" "w' = w1" using assms dp by (auto simp: DeleteLive_def)
    moreover have "pol w1 = pol w" using True dp DeletePolicy_err by auto
    ultimately show ?thesis using fr by auto
  next
    case False
    then have gone: "pol w1 = (pol w)(key := None)" using DeletePolicy_done [OF dp] by blast
    obtain ps pe w2 where pa: "Paths s key w1 = ((ps, pe), w2)" by (metis prod.exhaust)
    note pf = Paths_frame [OF pa]
    have nxt: "(case u of Some x \<Rightarrow> \<not> errors_Is x ErrNotFound | None \<Rightarrow> False) = False"
      using False by (auto split: option.splits)
    show ?thesis
    proof (cases pe)
      case (Some x)
      then have "e = Some x" "w' = w2" using assms dp nxt pa by (simp_all add: DeleteLive_def)
      then show ?thesis using gone pf fr by simp
    next
      case None
      obtain ns w3 where mo: "MapOrder s w2 = (ns, w3)" by force
      obtain fs w4 where dl: "delete_paths s (map fst (go_range ns ps)) w3 = (fs, w4)" by force
      have res: "e = errors_Join (map Some fs)" "w' = w4"
        using assms dp nxt pa None mo dl by (simp_all add: DeleteLive_def)
      note mf = MapOrder_frame [OF mo]
      have "map_of ps = paths_of (pth w) key" using Paths_ok pa None pf fr by auto
      then have "map_of ps = paths_of (pth w3) key" using mf pf fr by simp
      note d = delete_every_path [OF dl this]
      have "pth w3 = pth w" "pol w3 = (pol w)(key := None)" using mf pf gone fr by simp_all
      moreover have "e = None \<longleftrightarrow> fs = []" by (simp add: res(1) errors_Join_map_Some)
      ultimately show ?thesis using d by (simp add: res(2))
    qed
  qed
qed

end

end
