(* ===== verification/PolicyProperties.thy ===== *)
theory PolicyProperties
  imports ControlPlane Live
begin

text \<open>
  The properties of the input validation: what the control plane and the agent's configuration
  accept, that accepted names are safe as one segment of a URL path, and that the canonical
  spelling of an address is a normal form.
\<close>

section \<open>Addresses and names\<close>

text \<open>
  C31: the spelling of an accepted address is accepted as the same address, so two spellings of one
  address have one canonical form; the only exception is the address \<open>0.0.0.0\<close>.
\<close>

theorem parse_address_canonical:
  assumes "ParseAddress s = Inr a" "a \<noteq> IPv4 0"
  shows "ParseAddress (addr_String a) = Inr a \<and>
    (\<forall>t b. ParseAddress t = Inr b \<longrightarrow> (addr_String a = addr_String b) = (a = b))"
  using ParseAddress_String [OF assms] addr_String_inject [OF assms(1)] by blast

lemma parse_address_canonical_witness:
  "ParseAddress (addr_String (IPv6 0x20010db8000000000000000000000001 [])) =
    Inr (IPv6 0x20010db8000000000000000000000001 [])"
proof -
  have "ParseAddress ''2001:0DB8::0:1'' = Inr (IPv6 0x20010db8000000000000000000000001 [])" by code_simp
  from parse_address_canonical [OF this] show ?thesis by simp
qed

text \<open>
  The exception is real. The IPv4-mapped spelling of the unspecified address passes the test
  for unspecified addresses, which comes before \<open>Unmap\<close>; the address it yields is spelled
  \<open>0.0.0.0\<close>, and that spelling is rejected.
\<close>

theorem parse_address_mapped_unspecified:
  "ParseAddress ''::ffff:0.0.0.0'' = Inr (IPv4 0) \<and> addr_String (IPv4 0) = ''0.0.0.0'' \<and>
    ParseAddress ''0.0.0.0'' = Inl (errors_New ''invalid unicast address'')"
proof (intro conjI)
  show "ParseAddress ''::ffff:0.0.0.0'' = Inr (IPv4 0)" by code_simp
  show "addr_String (IPv4 0) = ''0.0.0.0''" by code_simp
  show "ParseAddress ''0.0.0.0'' = Inl (errors_New ''invalid unicast address'')" by code_simp
qed

text \<open>
  An accepted name has 1 to 128 bytes, is not a dot segment and holds only letters, digits,
  dots, underscores and hyphens, so it is one literal segment of a URL path.
\<close>

theorem validate_name_segment:
  assumes "ValidateName s = None"
  shows "0 < length s \<and> length s \<le> 128 \<and> s \<noteq> ''.'' \<and> s \<noteq> ''..'' \<and> set s \<inter> set ''/%?# '' = {} \<and>
    (\<forall>c \<in> set s. byte_at c < (128 :: nat))"
proof -
  have cs: "\<And>c. c \<in> set s \<Longrightarrow> name_char c" and len: "0 < length s \<and> length s \<le> 128 \<and> s \<noteq> ''.'' \<and> s \<noteq> ''..''"
    using assms by (simp_all add: ValidateName_ok)
  have "set s \<inter> set ''/%?# '' = {}" using cs name_char_not_special by blast
  moreover have "\<forall>c \<in> set s. byte_at c < (128 :: nat)"
    using cs name_rune_ascii unfolding name_char_def by blast
  ultimately show ?thesis using len by blast
qed

lemma validate_name_segment_witness: "set ''ctx-1.a_B'' \<inter> set ''/%?# '' = {}"
proof -
  have "ValidateName ''ctx-1.a_B'' = None" by code_simp
  from validate_name_segment [OF this] show ?thesis by (elim conjE)
qed

section \<open>Assignments\<close>

text \<open>
  C30: an assignment is accepted exactly when its names are valid, its legs name different
  interfaces and hold different addresses, its flow has a port, its weights sum to 100 without
  wrapping, and its generation is not zero.
\<close>

theorem assignment_validate_iff:
  "Assignment_Validate a = None \<longleftrightarrow>
     (let s = cp_ContextSpec a; la = cp_A (cp_Legs s); lb = cp_B (cp_Legs s); p = cp_Policy a in
      ValidateName (cp_ID s) = None \<and> ValidateName (cp_DNN s) = None \<and> leg_ok la \<and> leg_ok lb \<and>
      ParseAddress (cp_LocalAddress la) \<noteq> ParseAddress (cp_LocalAddress lb) \<and> cp_IfName la \<noteq> cp_IfName lb \<and>
      (\<exists>d. ParseAddress (cp_DestinationAddress (cp_Flow s)) = Inr d) \<and> cp_DestinationPort (cp_Flow s) \<noteq> 0 \<and>
      (cp_Mode p = ''load-balance'' \<or> cp_Mode p = ''lowest-rtt'') \<and>
      unat (cp_WeightA p) + unat (cp_WeightB p) = 100 \<and> cp_Generation a \<noteq> 0)"
  by (auto simp: Assignment_Validate_ok spec_ok_def cp_Policy_Validate_ok Let_def)

section \<open>The agent's configuration\<close>

text \<open>
  C29: validation never dereferences a missing value, and it accepts exactly the configurations
  with a generation, a known mode, two legs with different trimmed interface names, weights that
  sum to 100, a token when a connection is given, and endpoint pairs of one-byte identifiers none
  of which occurs twice.
\<close>

theorem config_validate_iff:
  "Config_Validate c \<noteq> Panic \<and>
    (Config_Validate c = Ok () \<longleftrightarrow>
      (let p = DualSteer c; a = LegA (Legs p); b = LegB (Legs p) in
       Enabled p \<noteq> None \<and> Generation p \<noteq> 0 \<and> (Mode p = ''load-balance'' \<or> Mode p = ''lowest-rtt'') \<and>
       leg_config_ok a \<and> leg_config_ok b \<and> IfName a \<noteq> IfName b \<and>
       unat (the (Weight a)) + unat (the (Weight b)) = 100 \<and>
       (case Connection p of None \<Rightarrow> True | Some cn \<Rightarrow> Token cn \<noteq> None) \<and> endpoints_ok (Endpoints a @ Endpoints b)))"
proof
  show "Config_Validate c \<noteq> Panic" by (rule Config_Validate_no_panic)
  show "Config_Validate c = Ok () \<longleftrightarrow>
      (let p = DualSteer c; a = LegA (Legs p); b = LegB (Legs p) in
       Enabled p \<noteq> None \<and> Generation p \<noteq> 0 \<and> (Mode p = ''load-balance'' \<or> Mode p = ''lowest-rtt'') \<and>
       leg_config_ok a \<and> leg_config_ok b \<and> IfName a \<noteq> IfName b \<and>
       unat (the (Weight a)) + unat (the (Weight b)) = 100 \<and>
       (case Connection p of None \<Rightarrow> True | Some cn \<Rightarrow> Token cn \<noteq> None) \<and> endpoints_ok (Endpoints a @ Endpoints b))"
    by (cases "Connection (DualSteer c)") (simp_all add: Config_Validate_ok config_ok_def Let_def)
qed

lemma add_paths_length:
  assumes "add_paths key gen access eps m = Inr m'" "distinct (map endpoint_pair eps)"
    and "\<forall>q. map_of m q \<noteq> None \<longrightarrow> Some (pk_LocalID q, pk_RemoteID q) \<notin> endpoint_pair ` set eps"
  shows "length m' = length m + length eps"
  using assms
proof (induction eps arbitrary: m)
  case Nil
  then show ?case by simp
next
  case (Cons ep eps)
  then obtain l r where ep: "LocalID ep = Some l" "RemoteID ep = Some r" by (auto split: option.splits)
  let ?q = "\<lparr>pk_Conn = key, pk_LocalID = l, pk_RemoteID = r\<rparr>"
  let ?m = "go_set ?q \<lparr>path_Generation = gen, path_Access = access\<rparr> m"
  have pair: "endpoint_pair ep = Some (l, r)" by (simp add: ep endpoint_pair_def)
  have "map_of m ?q = None" using Cons.prems(3) [rule_format, of ?q] pair by (cases "map_of m ?q") auto
  then have len: "length ?m = Suc (length m)" by (simp add: length_go_set)
  have run: "add_paths key gen access eps ?m = Inr m'" using Cons.prems(1) ep by simp
  have "length m' = length ?m + length eps"
    using Cons.prems(2,3) pair by (intro Cons.IH [OF run]) auto
  then show ?case using len by simp
qed

text \<open>
  C28: a validated policy with endpoints on both legs gives one path per endpoint, no two of which
  share a key, and the value of the policy map; neither step can fail.
\<close>

theorem validated_policy_plans:
  assumes valid: "Config_Validate \<lparr>DualSteer = plan_Policy p\<rparr> = Ok ()"
    and ne: "Endpoints (LegA (Legs (plan_Policy p))) \<noteq> []" "Endpoints (LegB (Legs (plan_Policy p))) \<noteq> []"
  shows "\<exists>m mp. DesiredPaths (plan_Policy p) key = Inr m \<and> wf_map m \<and>
    length m = length (Endpoints (LegA (Legs (plan_Policy p)))) + length (Endpoints (LegB (Legs (plan_Policy p)))) \<and>
    MapPolicy p = Ok mp \<and> unat (mp_WeightA mp) + unat (mp_WeightB mp) = 100 \<and> (mp_Mode mp = 1 \<or> mp_Mode mp = 2)"
proof -
  let ?p = "plan_Policy p"
  let ?a = "Endpoints (LegA (Legs ?p))" and ?b = "Endpoints (LegB (Legs ?p))"
  have ok: "config_ok \<lparr>DualSteer = ?p\<rparr>" using valid by (simp add: Config_Validate_ok)
  then have eps: "endpoints_ok (?a @ ?b)" by (simp add: config_ok_def Let_def)
  then have some: "\<forall>ep \<in> set (?a @ ?b). endpoint_pair ep \<noteq> None" and dist: "distinct (map endpoint_pair (?a @ ?b))"
    unfolding endpoints_ok_def by (metis option.distinct(1), blast)
  obtain ma where a: "add_paths key (Generation ?p) 0 ?a [] = Inr ma"
    using some add_paths_Inr_iff [of key "Generation ?p" 0 ?a "[]"] by auto
  obtain m where b: "add_paths key (Generation ?p) 1 ?b ma = Inr m"
    using some add_paths_Inr_iff [of key "Generation ?p" 1 ?b ma] by auto
  have m: "DesiredPaths ?p key = Inr m" using ne a b by (simp add: DesiredPaths_def)
  have "length ma = length ?a" using add_paths_length [OF a] dist by simp
  moreover have "length m = length ma + length ?b"
  proof (rule add_paths_length [OF b])
    show "distinct (map endpoint_pair ?b)" using dist by simp
    show "\<forall>q. map_of ma q \<noteq> None \<longrightarrow> Some (pk_LocalID q, pk_RemoteID q) \<notin> endpoint_pair ` set ?b"
      using add_paths_spec(2) [OF a] dist by (auto split: if_splits)
  qed
  ultimately have len: "length m = length ?a + length ?b" by simp
  obtain en wa wb where w: "Enabled ?p = Some en" "Weight (LegA (Legs ?p)) = Some wa" "Weight (LegB (Legs ?p)) = Some wb"
    "unat wa + unat wb = 100"
    using ok by (auto simp: config_ok_def leg_config_ok_def Let_def)
  then show ?thesis using m len DesiredPaths_spec(1) [OF m] by (auto simp: MapPolicy_def Let_def)
qed

definition sample_policy :: policy where
  "sample_policy = \<lparr>Enabled = Some True, Generation = 3, Mode = ''lowest-rtt'', RTTDeltaUS = 500,
     Legs = \<lparr>LegA = \<lparr>IfName = ''wlan0'', Weight = Some 60, Endpoints = [\<lparr>LocalID = Some 0, RemoteID = Some 0\<rparr>]\<rparr>,
             LegB = \<lparr>IfName = ''wwan0'', Weight = Some 40, Endpoints = [\<lparr>LocalID = Some 1, RemoteID = Some 0\<rparr>]\<rparr>\<rparr>,
     Connection = None\<rparr>"

lemma validated_policy_plans_witness:
  "\<exists>m. DesiredPaths sample_policy \<lparr>ck_NetNSInode = 1, ck_Token = 2, ck_Reserved = 0\<rparr> = Inr m \<and> length m = 2"
proof -
  let ?p = "\<lparr>plan_Policy = sample_policy, IfIndexA = 2, IfIndexB = 3\<rparr>"
  have "Config_Validate \<lparr>DualSteer = plan_Policy ?p\<rparr> = Ok ()" by code_simp
  from validated_policy_plans [OF this, of "\<lparr>ck_NetNSInode = 1, ck_Token = 2, ck_Reserved = 0\<rparr>"]
  obtain m where "DesiredPaths (plan_Policy ?p) \<lparr>ck_NetNSInode = 1, ck_Token = 2, ck_Reserved = 0\<rparr> = Inr m"
    "length m = length (Endpoints (LegA (Legs (plan_Policy ?p)))) + length (Endpoints (LegB (Legs (plan_Policy ?p))))"
    by (auto simp: sample_policy_def)
  then show ?thesis by (simp add: sample_policy_def)
qed

text \<open>
  \<open>Prepare\<close> never panics and succeeds exactly on valid configurations both of whose interfaces
  resolve to positive indices, which it records.
\<close>

theorem prepare_iff:
  "Prepare c resolve \<noteq> Panic \<and>
    (Prepare c resolve = Ok p \<longleftrightarrow>
      Config_Validate c = Ok () \<and> plan_Policy p = DualSteer c \<and>
      resolve (IfName (LegA (Legs (DualSteer c)))) = Inr (IfIndexA p) \<and> 0 < IfIndexA p \<and>
      resolve (IfName (LegB (Legs (DualSteer c)))) = Inr (IfIndexB p) \<and> 0 < IfIndexB p)"
  using Prepare_no_panic [of c resolve] Prepare_ok [of c resolve p] Config_Validate_ok by metis

text \<open>
  The control plane accepts interface names the agent's validation rejects: only four kinds of
  white space are excluded there, while the agent compares the name with its trimmed form.
\<close>

theorem interface_name_gap:
  "leg_error \<lparr>cp_IfName = ''eth0'' @ [CHR 0x0B], cp_LocalAddress = ''192.0.2.1''\<rparr> = None \<and>
    check_leg \<lparr>IfName = ''eth0'' @ [CHR 0x0B], Weight = Some 50, Endpoints = []\<rparr> =
      Some (errors_New ''leg requires a nonempty ifname without surrounding whitespace'')"
proof
  show "leg_error \<lparr>cp_IfName = ''eth0'' @ [CHR 0x0B], cp_LocalAddress = ''192.0.2.1''\<rparr> = None" by code_simp
  show "check_leg \<lparr>IfName = ''eth0'' @ [CHR 0x0B], Weight = Some 50, Endpoints = []\<rparr> =
      Some (errors_New ''leg requires a nonempty ifname without surrounding whitespace'')" by code_simp
qed

text \<open>
  A repeated pair within one leg is rejected as well, with the text that speaks of a duplicate
  across legs.
\<close>

theorem duplicate_within_leg_rejected:
  "Config_Validate \<lparr>DualSteer = sample_policy\<lparr>Legs := \<lparr>LegA = LegA (Legs sample_policy)\<lparr>Endpoints :=
      [\<lparr>LocalID = Some 4, RemoteID = Some 0\<rparr>, \<lparr>LocalID = Some 4, RemoteID = Some 0\<rparr>]\<rparr>,
      LegB = LegB (Legs sample_policy)\<rparr>\<rparr>\<rparr> = Err (errors_New ''duplicate endpoint pair across legs'')"
  by code_simp

end
