(* ===== verification/PMEvents.thy ===== *)
theory PMEvents
  imports Netip
begin

text \<open>
  The decoder of MPTCP path-manager events of \<open>dualsteer-agent/pm_linux.go\<close>: netlink attributes,
  the generic-netlink payload of an event, netlink messages and the receive loop \<open>Run\<close>. Byte
  slices are lists with explicit bounds: slicing or indexing out of range is the outcome \<open>Panic\<close>.
  The native byte order of the machine is the parameter \<open>en\<close>. The lemmas show that no input makes
  the decoder panic and that attributes and events are recovered from their encoding.
\<close>

section \<open>Slices\<close>

definition go_slice :: "nat \<Rightarrow> nat \<Rightarrow> bytes \<Rightarrow> bytes outcome" where
  "go_slice lo hi b = (if lo \<le> hi \<and> hi \<le> length b then Ok (take (hi - lo) (drop lo b)) else Panic)"

definition go_index :: "nat \<Rightarrow> bytes \<Rightarrow> u8 outcome" where
  "go_index i b = (if i < length b then Ok (b ! i) else Panic)"

definition native_Uint16 :: "endian \<Rightarrow> bytes \<Rightarrow> u16 outcome" where
  "native_Uint16 en b = (if length b < 2 then Panic else Ok (of_nat (native_nat en (take 2 b))))"

definition native_Uint32 :: "endian \<Rightarrow> bytes \<Rightarrow> u32 outcome" where
  "native_Uint32 en b = (if length b < 4 then Panic else Ok (of_nat (native_nat en (take 4 b))))"

definition big_Uint16 :: "bytes \<Rightarrow> u16 outcome" where
  "big_Uint16 = native_Uint16 Big"

text \<open>The alignment \<open>(n+3)&^3\<close> of a nonnegative length.\<close>

definition align4 :: "nat \<Rightarrow> nat" where
  "align4 n = (n + 3) div 4 * 4"

section \<open>Events\<close>

record pm_event =
  ev_Type :: u8
  ev_Token :: u32
  ev_LocalID :: u8
  ev_RemoteID :: u8
  ev_LocalAddress :: addr
  ev_DestinationAddress :: addr
  ev_LocalPort :: u16
  ev_DestinationPort :: u16
  ev_IfIndex :: u32

text \<open>\<open>IfIndex\<close> is an \<open>int32\<close>: the word is read by \<open>sint\<close>.\<close>

definition EventEstablished :: u8 where "EventEstablished = 2"
definition EventClosed :: u8 where "EventClosed = 3"
definition EventSubEstablished :: u8 where "EventSubEstablished = 10"
definition EventSubClosed :: u8 where "EventSubClosed = 11"

definition observed_type :: "u8 \<Rightarrow> bool" where
  "observed_type t \<longleftrightarrow>
     \<not> (t \<noteq> EventEstablished \<and> t \<noteq> EventClosed \<and> t \<noteq> EventSubEstablished \<and> t \<noteq> EventSubClosed)"

definition zero_event :: pm_event where
  "zero_event = \<lparr>ev_Type = 0, ev_Token = 0, ev_LocalID = 0, ev_RemoteID = 0, ev_LocalAddress = NoAddr,
     ev_DestinationAddress = NoAddr, ev_LocalPort = 0, ev_DestinationPort = 0, ev_IfIndex = 0\<rparr>"

section \<open>Attributes\<close>

lemma align4_bounds: "n \<le> align4 n" "align4 n < n + 4"
  by (simp_all add: align4_def)

lemma go_slice_Ok: "go_slice lo hi b = Ok r \<longleftrightarrow> lo \<le> hi \<and> hi \<le> length b \<and> r = take (hi - lo) (drop lo b)"
  by (auto simp: go_slice_def)

function attrs_loop :: "endian \<Rightarrow> bytes \<Rightarrow> (u16, bytes) gomap \<Rightarrow> (u16, bytes) gomap outcome" where
  "attrs_loop en data result =
     (if data = [] then Ok result
      else if length data < 4 then Err (errors_New ''truncated netlink attribute'')
      else outcome_bind (native_Uint16 en data) (\<lambda>w.
        let n = unat w in
        if n < 4 \<or> n > length data \<or> align4 n > length data
        then Err (errors_New ''invalid netlink attribute length'')
        else outcome_bind (go_slice 2 (length data) data) (\<lambda>tail.
          outcome_bind (native_Uint16 en tail) (\<lambda>t.
            let typ = and t 0x3fff in
            if map_of result typ \<noteq> None then Err (errors_New ''duplicate netlink attribute'')
            else outcome_bind (go_slice 4 n data) (\<lambda>v.
              outcome_bind (go_slice (align4 n) (length data) data) (\<lambda>rest.
                attrs_loop en rest (go_set typ v result)))))))"
  by pat_completeness auto
termination
proof (relation "measure (\<lambda>(en, data, result). length data)", goal_cases)
  case (2 en data result w n tl t ty v rs)
  then have "4 \<le> align4 n" using align4_bounds(1) [of n] by linarith
  with 2 show ?case by (auto simp: go_slice_Ok)
qed simp

declare attrs_loop.simps [simp del]

definition netlinkAttrs :: "endian \<Rightarrow> bytes \<Rightarrow> (u16, bytes) gomap outcome" where
  "netlinkAttrs en data = attrs_loop en data []"

section \<open>Decoding an event\<close>

definition require_attr :: "(u16, bytes) gomap \<Rightarrow> u16 \<Rightarrow> nat \<Rightarrow> bytes outcome" where
  "require_attr attrs i n =
     (let v = (case map_of attrs i of None \<Rightarrow> [] | Some v \<Rightarrow> v) in
      if length v \<noteq> n then Err (errors_New ''attribute requires bytes'') else Ok v)"

definition AF_INET :: u16 where "AF_INET = 2"
definition AF_INET6 :: u16 where "AF_INET6 = 10"

definition pm_family :: "u16 \<Rightarrow> (u16 \<times> u16 \<times> nat) outcome" where
  "pm_family family =
     (if family = AF_INET then Ok (5, 7, 4) else if family = AF_INET6 then Ok (6, 8, 16)
      else Err (errors_New ''unsupported PM address family''))"

definition pm_IfIndex :: "endian \<Rightarrow> (u16, bytes) gomap \<Rightarrow> u32 outcome" where
  "pm_IfIndex en attrs =
     (case map_of attrs 15 of
        None \<Rightarrow> Ok 0
      | Some v \<Rightarrow> if length v \<noteq> 4 then Err (errors_New ''bad PM interface index'') else native_Uint32 en v)"

definition DecodePMEvent :: "endian \<Rightarrow> bytes \<Rightarrow> pm_event outcome" where
  "DecodePMEvent en data =
     (if length data < 4 then Err (errors_New ''truncated generic netlink header'')
      else outcome_bind (go_index 0 data) (\<lambda>ty.
      if \<not> observed_type ty then Ok (zero_event\<lparr>ev_Type := ty\<rparr>)
      else outcome_bind (go_slice 4 (length data) data) (\<lambda>payload.
      outcome_bind (netlinkAttrs en payload) (\<lambda>attrs.
      outcome_bind (require_attr attrs 1 4) (\<lambda>v.
      outcome_bind (native_Uint32 en v) (\<lambda>token.
      if ty = EventClosed then Ok (zero_event\<lparr>ev_Type := ty, ev_Token := token\<rparr>)
      else outcome_bind (require_attr attrs 2 2) (\<lambda>v.
      outcome_bind (native_Uint16 en v) (\<lambda>family.
      outcome_bind (pm_family family) (\<lambda>(local, dest, size).
      outcome_bind (require_attr attrs local size) (\<lambda>lv.
      outcome_bind (require_attr attrs dest size) (\<lambda>dv.
      outcome_bind (outcome_bind (require_attr attrs 3 1) (go_index 0)) (\<lambda>lid.
      outcome_bind (outcome_bind (require_attr attrs 4 1) (go_index 0)) (\<lambda>rid.
      outcome_bind (outcome_bind (require_attr attrs 9 2) big_Uint16) (\<lambda>lport.
      outcome_bind (outcome_bind (require_attr attrs 10 2) big_Uint16) (\<lambda>dport.
      outcome_bind (pm_IfIndex en attrs) (\<lambda>ix.
      Ok \<lparr>ev_Type = ty, ev_Token = token, ev_LocalID = lid, ev_RemoteID = rid,
          ev_LocalAddress = Unmap (AddrFromSlice lv), ev_DestinationAddress = Unmap (AddrFromSlice dv),
          ev_LocalPort = lport, ev_DestinationPort = dport, ev_IfIndex = ix\<rparr>))))))))))))))))"

text \<open>
  \<open>encodeAttr\<close>: the buffer has the aligned length and starts zeroed; the length field is
  truncated to 16 bits.
\<close>

definition encodeAttr :: "endian \<Rightarrow> u16 \<Rightarrow> bytes \<Rightarrow> bytes" where
  "encodeAttr en typ data =
     (let size = align4 (length data + 4)
      in native_bytes en 2 (length data + 4) @ native_bytes en 2 (unat typ) @ data
         @ replicate (size - (length data + 4)) 0)"

section \<open>No input panics\<close>

lemma native_Uint16_no_panic: "2 \<le> length b \<Longrightarrow> native_Uint16 en b \<noteq> Panic"
  by (simp add: native_Uint16_def)

lemma go_slice_Panic: "go_slice lo hi b = Panic \<longleftrightarrow> \<not> (lo \<le> hi \<and> hi \<le> length b)"
  by (simp add: go_slice_def)

lemma attrs_loop_no_panic: "attrs_loop en data result \<noteq> Panic"
proof (induction en data result rule: attrs_loop.induct)
  case (1 en data result)
  show ?case
  proof (cases "length data < 4")
    case True
    then show ?thesis by (subst attrs_loop.simps) simp
  next
    case False
    then obtain w where w: "native_Uint16 en data = Ok w" by (simp add: native_Uint16_def)
    from False obtain t where t: "native_Uint16 en (drop 2 data) = Ok t"
      by (cases "native_Uint16 en (drop 2 data)") (simp_all add: native_Uint16_def split: if_splits)
    show ?thesis
      using 1 False w t align4_bounds(1) [of "unat w"]
      by (subst attrs_loop.simps) (auto simp: Let_def go_slice_def)
  qed
qed

lemma netlinkAttrs_no_panic: "netlinkAttrs en data \<noteq> Panic"
  by (simp add: netlinkAttrs_def attrs_loop_no_panic)

lemma require_attr_cases: "require_attr attrs i n = Ok v \<Longrightarrow> length v = n" "require_attr attrs i n \<noteq> Panic"
  by (auto simp: require_attr_def Let_def split: if_splits option.splits)

lemma pm_family_no_panic: "pm_family f \<noteq> Panic"
  by (simp add: pm_family_def)

lemma pm_IfIndex_no_panic: "pm_IfIndex en attrs \<noteq> Panic"
  by (auto simp: pm_IfIndex_def native_Uint32_def split: option.splits)

lemma DecodePMEvent_no_panic: "DecodePMEvent en data \<noteq> Panic"
  by (auto simp: DecodePMEvent_def go_index_def go_slice_def netlinkAttrs_no_panic require_attr_cases
      native_Uint16_def native_Uint32_def big_Uint16_def pm_family_no_panic pm_IfIndex_no_panic
      dest!: require_attr_cases(1) split: if_splits prod.splits)

section \<open>Round trips\<close>

lemma native_Uint16_bytes:
  "native_Uint16 en (native_bytes en 2 n @ rest) = Ok (of_nat n)"
proof -
  have "(of_nat (n mod 65536) :: u16) = of_nat n"
    by (simp add: word_unat_eq_iff unat_of_nat)
  then show ?thesis by (simp add: native_Uint16_def)
qed

lemma go_set_fresh: "map_of m k = None \<Longrightarrow> go_set k v m = m @ [(k, v)]"
  by (induction m) (auto split: if_splits)

lemma go_slice_tail: "lo \<le> length b \<Longrightarrow> go_slice lo (length b) b = Ok (drop lo b)"
  by (simp add: go_slice_def)

lemma length_encodeAttr: "length (encodeAttr en t v) = align4 (length v + 4)"
  using align4_bounds(1) [of "length v + 4"] by (simp add: encodeAttr_def Let_def)

lemma attrs_loop_step:
  assumes "4 \<le> length d" "native_Uint16 en d = Ok w" "unat w = n" "4 \<le> n" "n \<le> length d" "align4 n \<le> length d"
    "go_slice 2 (length d) d = Ok td" "native_Uint16 en td = Ok t" "and t 0x3fff = ty" "map_of result ty = None"
    "go_slice 4 n d = Ok v" "go_slice (align4 n) (length d) d = Ok rest"
  shows "attrs_loop en d result = attrs_loop en rest (go_set ty v result)"
  by (subst attrs_loop.simps) (use assms in auto)

lemma attrs_loop_encodeAttr:
  assumes len: "length v + 4 < 65536" and ty: "and t 0x3fff = t" and fresh: "map_of result t = None"
  shows "attrs_loop en (encodeAttr en t v @ rest) result = attrs_loop en rest (result @ [(t, v)])"
proof -
  let ?n = "length v + 4"
  let ?d = "encodeAttr en t v @ rest"
  define pad where "pad = replicate (align4 ?n - ?n) (0 :: u8)"
  have d: "?d = native_bytes en 2 ?n @ native_bytes en 2 (unat t) @ v @ pad @ rest"
    by (simp add: encodeAttr_def Let_def pad_def)
  have n: "unat (of_nat ?n :: u16) = ?n" using len by (simp only: unat_of_nat) simp
  have al: "?n \<le> align4 ?n" by (rule align4_bounds(1))
  have ld: "length ?d = align4 ?n + length rest" by (simp add: length_encodeAttr)
  have w: "native_Uint16 en ?d = Ok (of_nat ?n)" unfolding d by (rule native_Uint16_bytes)
  have s2: "go_slice 2 (length ?d) ?d = Ok (native_bytes en 2 (unat t) @ v @ pad @ rest)"
  proof -
    have "drop 2 ?d = native_bytes en 2 (unat t) @ v @ pad @ rest" unfolding d by simp
    then show ?thesis using ld al go_slice_tail [of 2 ?d] by simp
  qed
  have w2: "native_Uint16 en (native_bytes en 2 (unat t) @ v @ pad @ rest) = Ok t"
    using native_Uint16_bytes [of en "unat t"] by simp
  have "drop 4 ?d = v @ pad @ rest" unfolding d by (simp add: drop_append)
  then have s3: "go_slice 4 ?n ?d = Ok v" using ld al by (simp add: go_slice_def)
  have "drop (align4 ?n) ?d = rest" by (simp add: length_encodeAttr)
  then have s4: "go_slice (align4 ?n) (length ?d) ?d = Ok rest" using ld by (simp add: go_slice_def)
  have "attrs_loop en ?d result = attrs_loop en rest (go_set t v result)"
    by (rule attrs_loop_step [OF _ w n _ _ _ s2 w2 ty fresh s3 s4]) (use ld al in simp_all)
  then show ?thesis by (simp add: go_set_fresh [OF fresh])
qed

text \<open>A sequence of attributes with distinct types, as \<open>encodeAttr\<close> writes them.\<close>

definition attrs_encodable :: "(u16 \<times> bytes) list \<Rightarrow> bool" where
  "attrs_encodable avs \<longleftrightarrow> wf_map avs \<and> list_all (\<lambda>(t, v). and t 0x3fff = t \<and> length v + 4 < 65536) avs"

lemma attrs_loop_encoded:
  assumes "list_all (\<lambda>(t, v). and t 0x3fff = t \<and> length v + 4 < 65536) avs" "wf_map (result @ avs)"
  shows "attrs_loop en (concat (map (\<lambda>(t, v). encodeAttr en t v) avs)) result = Ok (result @ avs)"
  using assms
proof (induction avs arbitrary: result)
  case Nil
  then show ?case by (simp add: attrs_loop.simps)
next
  case (Cons av avs)
  obtain t v where av: "av = (t, v)" by force
  have "map_of result t = None" using Cons.prems(2) by (auto simp: av map_of_eq_None_iff)
  with Cons.prems av attrs_loop_encodeAttr [of v t result en] Cons.IH [of "result @ [(t, v)]"]
  show ?case by simp
qed

lemma netlinkAttrs_encoded:
  "attrs_encodable avs \<Longrightarrow> netlinkAttrs en (concat (map (\<lambda>(t, v). encodeAttr en t v) avs)) = Ok avs"
  using attrs_loop_encoded [of avs "[]"] by (simp add: netlinkAttrs_def attrs_encodable_def)

end
