(* ===== verification/Daemon.thy ===== *)
theory Daemon
  imports ControlPlane Live PMEvents "HOL-Library.List_Lexorder" "HOL-Library.Char_ord"
begin

text \<open>
  The daemon of \<open>dualsteer-agent/daemon.go\<close>: desired contexts, observed connections and the
  reconciliation that brings the scheduler's maps in line with them. An operation takes the
  environment (the store, the run-time's map order and the address validator), the daemon's state
  and the world, and returns its error with both states. The mutex makes every exported operation
  atomic, so a run of the daemon is a sequence of these operations. The addresses held through
  pointers in Go (\<open>*desiredContext\<close>, \<open>*observedConnection\<close>) are owned by one map each and are
  modelled by the map's values.
\<close>

section \<open>The address validator\<close>

text \<open>
  \<open>ValidateLegAddress\<close>, over the interfaces the system reports: the address must be assigned to
  the named interface, whose index is returned.
\<close>

definition ValidateLegAddress :: "iface list \<Rightarrow> cp_leg \<Rightarrow> go_error + int" where
  "ValidateLegAddress ifs leg =
     (case InterfaceByName ifs (cp_IfName leg) of Inl e \<Rightarrow> Inl e | Inr i \<Rightarrow>
      (case ParseAddress (cp_LocalAddress leg) of Inl e \<Rightarrow> Inl e | Inr want \<Rightarrow>
       (case if_Addrs i of Inl e \<Rightarrow> Inl e | Inr addresses \<Rightarrow>
        if list_ex (\<lambda>a. case ParsePrefix a of None \<Rightarrow> False | Some (ip, _) \<Rightarrow> Unmap ip = want) addresses
        then Inr (if_Index i) else Inl (errors_New ''address is not assigned to interface''))))"

section \<open>State\<close>

record observed_flow =
  of_LocalAddress :: addr
  of_DestinationAddress :: addr
  of_LocalPort :: u16
  of_DestinationPort :: u16
  of_LocalID :: u8
  of_RemoteID :: u8

definition eventFlow :: "pm_event \<Rightarrow> observed_flow" where
  "eventFlow e =
     \<lparr>of_LocalAddress = ev_LocalAddress e, of_DestinationAddress = ev_DestinationAddress e,
      of_LocalPort = ev_LocalPort e, of_DestinationPort = ev_DestinationPort e,
      of_LocalID = ev_LocalID e, of_RemoteID = ev_RemoteID e\<rparr>"

text \<open>\<open>lastError\<close> holds the error whose text the code keeps; the empty text is \<open>None\<close>.\<close>

record observed_connection =
  oc_initial :: "pm_event option"
  oc_flows :: "(observed_flow, pm_event) gomap"
  oc_owner :: string
  oc_closed :: bool
  oc_lastError :: "go_error option"

record desired_context =
  dc_assignment :: cp_assignment
  dc_deleting :: bool

record daemon =
  d_netns :: u64
  d_contexts :: "(string, desired_context) gomap"
  d_connections :: "(u32, observed_connection) gomap"
  d_fatal :: "go_error option"

definition NewDaemon :: "u64 \<Rightarrow> daemon" where
  "NewDaemon netns = \<lparr>d_netns = netns, d_contexts = [], d_connections = [], d_fatal = None\<rparr>"

record 'w daemon_env = "'w runtime" +
  ValidateAddr :: "cp_leg \<Rightarrow> 'w \<Rightarrow> (go_error + int) \<times> 'w"

definition with_validator :: "'w runtime \<Rightarrow> (cp_leg \<Rightarrow> 'w \<Rightarrow> (go_error + int) \<times> 'w) \<Rightarrow> 'w daemon_env" where
  "with_validator r v =
     \<lparr>LookupPolicy = LookupPolicy r, UpdatePolicy = UpdatePolicy r, DeletePolicy = DeletePolicy r, Paths = Paths r,
      UpdatePath = UpdatePath r, DeletePath = DeletePath r, MapOrder = MapOrder r, ValidateAddr = v\<rparr>"

definition conn_of :: "daemon \<Rightarrow> u32 \<Rightarrow> conn_key" where
  "conn_of d token = \<lparr>ck_NetNSInode = d_netns d, ck_Token = token, ck_Reserved = 0\<rparr>"

definition set_connection :: "u32 \<Rightarrow> observed_connection \<Rightarrow> daemon \<Rightarrow> daemon" where
  "set_connection token c d = d\<lparr>d_connections := go_set token c (d_connections d)\<rparr>"

definition drop_connection :: "u32 \<Rightarrow> daemon \<Rightarrow> daemon" where
  "drop_connection token d = d\<lparr>d_connections := go_delete token (d_connections d)\<rparr>"

section \<open>Planning a connection\<close>

definition mustAddress :: "string \<Rightarrow> addr" where
  "mustAddress s = addr_or_zero (ParseAddress s)"

text \<open>
  The loop of \<open>plan\<close> over the observed flows; it extends the endpoints of the two legs. \<open>seen\<close>
  maps a pair of identifiers to the leg it was first met on.
\<close>

fun plan_flows :: "cp_legs \<Rightarrow> int \<Rightarrow> int \<Rightarrow> pm_event list \<Rightarrow> (u32 \<times> u32, u32) gomap \<Rightarrow>
    endpoint list \<Rightarrow> endpoint list \<Rightarrow> go_error + endpoint list \<times> endpoint list" where
  "plan_flows ls ia ib [] seen as bs = Inr (as, bs)"
| "plan_flows ls ia ib (e # es) seen as bs =
     (let ona = (ev_LocalAddress e = mustAddress (cp_LocalAddress (cp_A ls)));
          onb = (ev_LocalAddress e = mustAddress (cp_LocalAddress (cp_B ls))) in
      if \<not> ona \<and> \<not> onb then plan_flows ls ia ib es seen as bs
      else
        let access = (if ona then 0 else 1 :: u32); index = (if ona then ia else ib);
            pair = (ucast (ev_LocalID e), ucast (ev_RemoteID e)) :: u32 \<times> u32 in
        if ev_IfIndex e \<noteq> 0 \<and> sint (ev_IfIndex e) \<noteq> index
        then Inl (errors_New ''PM interface index disagrees with declared leg'')
        else case map_of seen pair of
          Some previous \<Rightarrow>
            if previous \<noteq> access then Inl (errors_New ''same endpoint pair observed on both legs'')
            else plan_flows ls ia ib es seen as bs
        | None \<Rightarrow>
            let ep = \<lparr>LocalID = Some (fst pair), RemoteID = Some (snd pair)\<rparr> in
            plan_flows ls ia ib es (go_set pair access seen)
              (if ona then as @ [ep] else as) (if ona then bs else bs @ [ep]))"

definition plan_policy :: "cp_assignment \<Rightarrow> endpoint list \<Rightarrow> endpoint list \<Rightarrow> policy" where
  "plan_policy a as bs =
     (let ls = cp_Legs (cp_ContextSpec a); p = cp_Policy a in
      \<lparr>Enabled = Some (cp_Enabled p), Generation = cp_Generation a, Mode = cp_Mode p,
       RTTDeltaUS = cp_RTTDeltaUS p,
       Legs = \<lparr>LegA = \<lparr>IfName = cp_IfName (cp_A ls), Weight = Some (cp_WeightA p), Endpoints = as\<rparr>,
               LegB = \<lparr>IfName = cp_IfName (cp_B ls), Weight = Some (cp_WeightB p), Endpoints = bs\<rparr>\<rparr>,
       Connection = None\<rparr>)"

definition Daemon_plan :: "('w, 'z) daemon_env_scheme \<Rightarrow> observed_connection \<Rightarrow> cp_assignment \<Rightarrow> 'w \<Rightarrow>
    (go_error + plan) \<times> 'w" where
  "Daemon_plan s c a w =
     (let ls = cp_Legs (cp_ContextSpec a) in
      case ValidateAddr s (cp_A ls) w of (Inl e, w1) \<Rightarrow> (Inl e, w1) | (Inr ia, w1) \<Rightarrow>
      (case ValidateAddr s (cp_B ls) w1 of (Inl e, w2) \<Rightarrow> (Inl e, w2) | (Inr ib, w2) \<Rightarrow>
       (let (ns, w3) = MapOrder s w2 in
        case plan_flows ls ia ib (map snd (go_range ns (oc_flows c))) [] [] [] of
          Inl e \<Rightarrow> (Inl e, w3)
        | Inr (as, bs) \<Rightarrow> (Inr \<lparr>plan_Policy = plan_policy a as bs, IfIndexA = ia, IfIndexB = ib\<rparr>, w3))))"

section \<open>Applying a plan\<close>

text \<open>The two loops that repair the paths when the policy in the map is already the wanted one.\<close>

definition zero_path :: map_path where
  "zero_path = \<lparr>path_Generation = 0, path_Access = 0\<rparr>"

fun repair_updates :: "('w, 'z) runtime_scheme \<Rightarrow> (path_key, map_path) gomap \<Rightarrow> (path_key \<times> map_path) list \<Rightarrow>
    'w \<Rightarrow> go_error option \<times> 'w" where
  "repair_updates s before [] w = (None, w)"
| "repair_updates s before ((k, v) # kvs) w =
     (if (case map_of before k of None \<Rightarrow> zero_path | Some x \<Rightarrow> x) \<noteq> v
      then (case UpdatePath s k v w of
              (Some e, w1) \<Rightarrow> (Some e, w1)
            | (None, w1) \<Rightarrow> repair_updates s before kvs w1)
      else repair_updates s before kvs w)"

fun repair_deletes :: "('w, 'z) runtime_scheme \<Rightarrow> (path_key, map_path) gomap \<Rightarrow> path_key list \<Rightarrow>
    'w \<Rightarrow> go_error option \<times> 'w" where
  "repair_deletes s want [] w = (None, w)"
| "repair_deletes s want (k # ks) w =
     (if map_of want k = None
      then (case DeletePath s k w of
              (Some e, w1) \<Rightarrow> if \<not> errors_Is e ErrNotFound then (Some e, w1) else repair_deletes s want ks w1
            | (None, w1) \<Rightarrow> repair_deletes s want ks w1)
      else repair_deletes s want ks w)"

definition repair :: "('w, 'z) runtime_scheme \<Rightarrow> conn_key \<Rightarrow> (path_key, map_path) gomap \<Rightarrow> 'w \<Rightarrow> go_error option \<times> 'w" where
  "repair s key want w =
     (case Paths s key w of
        ((before, Some e), w1) \<Rightarrow> (Some e, w1)
      | ((before, None), w1) \<Rightarrow>
          let (ns, w2) = MapOrder s w1 in
          (case repair_updates s before (go_range ns want) w2 of
             (Some e, w3) \<Rightarrow> (Some e, w3)
           | (None, w3) \<Rightarrow>
               let (ns', w4) = MapOrder s w3 in
               repair_deletes s want (map fst (go_range ns' before)) w4))"

definition applyConnection :: "('w, 'z) daemon_env_scheme \<Rightarrow> conn_key \<Rightarrow> observed_connection \<Rightarrow> cp_assignment \<Rightarrow> 'w \<Rightarrow>
    unit outcome \<times> 'w" where
  "applyConnection s key c a w =
     (case Daemon_plan s c a w of
        (Inl e, w1) \<Rightarrow> (let (cleanup, w2) = DeleteLive s key w1 in (error_outcome (errors_Join [Some e, cleanup]), w2))
      | (Inr p, w1) \<Rightarrow>
          if Endpoints (LegA (Legs (plan_Policy p))) = [] \<or> Endpoints (LegB (Legs (plan_Policy p))) = []
          then (let (e, w2) = DeleteLive s key w1 in (error_outcome e, w2))
          else (case DesiredPaths (plan_Policy p) key of
                  Inl e \<Rightarrow> (Err e, w1)
                | Inr want \<Rightarrow>
                    (case LookupPolicy s key w1 of
                       (Inl e, w2) \<Rightarrow> if \<not> errors_Is e ErrNotFound then (Err e, w2) else ApplyLive s p key w2
                     | (Inr have, w2) \<Rightarrow>
                         (case MapPolicy p of
                            Panic \<Rightarrow> (Panic, w2)
                          | Err e \<Rightarrow> (Err e, w2)
                          | Ok mp \<Rightarrow>
                              if have = mp then (let (e, w3) = repair s key want w2 in (error_outcome e, w3))
                              else ApplyLive s p key w2))))"

section \<open>Reconciliation\<close>

text \<open>The test of one candidate context against the initial event of a connection without owner.\<close>

definition context_matches :: "pm_event \<Rightarrow> desired_context \<Rightarrow> bool" where
  "context_matches e candidate \<longleftrightarrow>
     (let a = cp_ContextSpec (dc_assignment candidate) in
      \<not> dc_deleting candidate \<and>
      ev_DestinationAddress e = mustAddress (cp_DestinationAddress (cp_Flow a)) \<and>
      ev_DestinationPort e = cp_DestinationPort (cp_Flow a) \<and>
      (ev_LocalAddress e = mustAddress (cp_LocalAddress (cp_A (cp_Legs a))) \<or>
       ev_LocalAddress e = mustAddress (cp_LocalAddress (cp_B (cp_Legs a)))))"

definition find_owner :: "('w, 'z) runtime_scheme \<Rightarrow> daemon \<Rightarrow> pm_event \<Rightarrow> 'w \<Rightarrow> (string \<times> desired_context) option \<times> 'w" where
  "find_owner s d e w =
     (let (ns, w1) = MapOrder s w in (find (\<lambda>(cid, dc). context_matches e dc) (go_range ns (d_contexts d)), w1))"

text \<open>
  The body of the loop over the connections. The lookup of a token the loop removed before cannot
  happen, as each token occurs once; it leaves the state alone. The last component is the failure
  the body appends.
\<close>

definition release :: "('w, 'z) runtime_scheme \<Rightarrow> u32 \<Rightarrow> observed_connection \<Rightarrow> daemon \<Rightarrow> 'w \<Rightarrow>
    go_error list \<times> daemon \<times> 'w" where
  "release s token c d w =
     (let (err, w1) = (if oc_owner c \<noteq> [] then DeleteLive s (conn_of d token) w else (None, w)) in
      case err of
        Some e \<Rightarrow> ([e], set_connection token (c\<lparr>oc_lastError := Some e\<rparr>) d, w1)
      | None \<Rightarrow>
          if oc_closed c then ([], drop_connection token d, w1)
          else ([], set_connection token (c\<lparr>oc_owner := [], oc_lastError := None\<rparr>) d, w1))"

definition assign_owner :: "('w, 'z) runtime_scheme \<Rightarrow> daemon \<Rightarrow> observed_connection \<Rightarrow> 'w \<Rightarrow>
    observed_connection \<times> desired_context option \<times> 'w" where
  "assign_owner s d c w =
     (case (if oc_owner c = [] then oc_initial c else None) of
        None \<Rightarrow> (c, map_of (d_contexts d) (oc_owner c), w)
      | Some e \<Rightarrow>
          (case find_owner s d e w of
             (None, w1) \<Rightarrow> (c, map_of (d_contexts d) (oc_owner c), w1)
           | (Some (cid, candidate), w1) \<Rightarrow> (c\<lparr>oc_owner := cid\<rparr>, Some candidate, w1)))"

definition reconcile_connection :: "('w, 'z) daemon_env_scheme \<Rightarrow> u32 \<Rightarrow> daemon \<Rightarrow> 'w \<Rightarrow>
    go_error list outcome \<times> daemon \<times> 'w" where
  "reconcile_connection s token d w =
     (case map_of (d_connections d) token of None \<Rightarrow> (Ok [], d, w) | Some c \<Rightarrow>
      if oc_closed c \<or> (case map_of (d_contexts d) (oc_owner c) of None \<Rightarrow> False | Some dc \<Rightarrow> dc_deleting dc)
      then (let (fs, d1, w1) = release s token c d w in (Ok fs, d1, w1))
      else
        let (c1, desired, w1) = assign_owner s d c w in
        case desired of
          None \<Rightarrow> (Ok [], set_connection token c1 d, w1)
        | Some dc \<Rightarrow>
            (case applyConnection s (conn_of d token) c1 (dc_assignment dc) w1 of
               (Panic, w2) \<Rightarrow> (Panic, set_connection token c1 d, w2)
             | (Ok _, w2) \<Rightarrow> (Ok [], set_connection token (c1\<lparr>oc_lastError := None\<rparr>) d, w2)
             | (Err e, w2) \<Rightarrow> (Ok [Errorf ''token'' [e]], set_connection token (c1\<lparr>oc_lastError := Some e\<rparr>) d, w2)))"

fun reconcile_connections :: "('w, 'z) daemon_env_scheme \<Rightarrow> u32 list \<Rightarrow> go_error list \<Rightarrow> daemon \<Rightarrow> 'w \<Rightarrow>
    go_error list outcome \<times> daemon \<times> 'w" where
  "reconcile_connections s [] failures d w = (Ok failures, d, w)"
| "reconcile_connections s (token # tokens) failures d w =
     (case reconcile_connection s token d w of
        (Ok fs, d1, w1) \<Rightarrow> reconcile_connections s tokens (failures @ fs) d1 w1
      | (Err e, d1, w1) \<Rightarrow> (Err e, d1, w1)
      | (Panic, d1, w1) \<Rightarrow> (Panic, d1, w1))"

text \<open>
  The loop over the contexts removes every deleting context that owns no connection. Whether it
  removes one does not depend on the others, so the order of both ranges does not matter.
\<close>

definition sweep_contexts :: "daemon \<Rightarrow> daemon" where
  "sweep_contexts d =
     d\<lparr>d_contexts := filter (\<lambda>(cid, c). \<not> (dc_deleting c \<and>
          \<not> list_ex (\<lambda>(token, conn). oc_owner conn = cid) (d_connections d))) (d_contexts d)\<rparr>"

definition reconcileLocked :: "('w, 'z) daemon_env_scheme \<Rightarrow> daemon \<Rightarrow> 'w \<Rightarrow> unit outcome \<times> daemon \<times> 'w" where
  "reconcileLocked s d w =
     (let (ns, w1) = MapOrder s w in
      case reconcile_connections s (map fst (go_range ns (d_connections d))) [] d w1 of
        (Ok failures, d1, w2) \<Rightarrow> (error_outcome (errors_Join (map Some failures)), sweep_contexts d1, w2)
      | (Err e, d1, w2) \<Rightarrow> (Err e, d1, w2)
      | (Panic, d1, w2) \<Rightarrow> (Panic, d1, w2))"

section \<open>The exported operations\<close>

definition ErrAssignmentRejected :: go_error where
  "ErrAssignmentRejected = Sentinel ''assignment rejected''"

definition rejectAssignment :: "go_error \<Rightarrow> go_error" where
  "rejectAssignment e = Joined [ErrAssignmentRejected, e]"

text \<open>The canonical spelling of the three addresses of an assignment.\<close>

definition canonical_leg :: "cp_leg \<Rightarrow> cp_leg" where
  "canonical_leg l = l\<lparr>cp_LocalAddress := addr_String (mustAddress (cp_LocalAddress l))\<rparr>"

definition canonical_flow :: "cp_flow \<Rightarrow> cp_flow" where
  "canonical_flow f = f\<lparr>cp_DestinationAddress := addr_String (mustAddress (cp_DestinationAddress f))\<rparr>"

definition canonical_spec :: "cp_context_spec \<Rightarrow> cp_context_spec" where
  "canonical_spec s =
     s\<lparr>cp_Legs := \<lparr>cp_A = canonical_leg (cp_A (cp_Legs s)), cp_B = canonical_leg (cp_B (cp_Legs s))\<rparr>,
       cp_Flow := canonical_flow (cp_Flow s)\<rparr>"

definition canonical :: "cp_assignment \<Rightarrow> cp_assignment" where
  "canonical a = a\<lparr>cp_ContextSpec := canonical_spec (cp_ContextSpec a)\<rparr>"

fun validate_legs :: "('w, 'z) daemon_env_scheme \<Rightarrow> cp_leg list \<Rightarrow> 'w \<Rightarrow> go_error option \<times> 'w" where
  "validate_legs s [] w = (None, w)"
| "validate_legs s (l # ls) w =
     (case ValidateAddr s l w of (Inl e, w1) \<Rightarrow> (Some e, w1) | (Inr _, w1) \<Rightarrow> validate_legs s ls w1)"

definition admission_error :: "daemon \<Rightarrow> cp_assignment \<Rightarrow> go_error option" where
  "admission_error d a =
     (case map_of (d_contexts d) (cp_ID (cp_ContextSpec a)) of
        Some old \<Rightarrow>
          if dc_deleting old then Some (errors_New ''context deletion pending'')
          else if cp_ContextSpec (dc_assignment old) \<noteq> cp_ContextSpec a
          then Some (errors_New ''context flow, DNN and legs are immutable; delete it first'')
          else if cp_Generation a < cp_Generation (dc_assignment old)
              \<or> cp_Generation a = cp_Generation (dc_assignment old) \<and> a \<noteq> dc_assignment old
          then Some (errors_New ''stale or conflicting policy generation'')
          else None
      | None \<Rightarrow>
          if length (d_contexts d) \<ge> 1024 then Some (errors_New ''context capacity reached'')
          else if list_ex (\<lambda>(cid, other). cp_Flow (cp_ContextSpec (dc_assignment other)) = cp_Flow (cp_ContextSpec a)) (d_contexts d)
          then Some (errors_New ''destination flow already assigned to another context'')
          else None)"

definition Daemon_Put :: "('w, 'z) daemon_env_scheme \<Rightarrow> cp_assignment \<Rightarrow> daemon \<Rightarrow> 'w \<Rightarrow> unit outcome \<times> daemon \<times> 'w" where
  "Daemon_Put s a0 d w =
     (case Assignment_Validate a0 of Some e \<Rightarrow> (Err (rejectAssignment e), d, w) | None \<Rightarrow>
      let a = canonical a0 in
      case d_fatal d of Some e \<Rightarrow> (Err e, d, w) | None \<Rightarrow>
      (case validate_legs s [cp_A (cp_Legs (cp_ContextSpec a)), cp_B (cp_Legs (cp_ContextSpec a))] w of
         (Some e, w1) \<Rightarrow> (Err (rejectAssignment e), d, w1)
       | (None, w1) \<Rightarrow>
           (case admission_error d a of
              Some e \<Rightarrow> (Err (rejectAssignment e), d, w1)
            | None \<Rightarrow>
                reconcileLocked s
                  (d\<lparr>d_contexts := go_set (cp_ID (cp_ContextSpec a)) \<lparr>dc_assignment = a, dc_deleting = False\<rparr> (d_contexts d)\<rparr>) w1)))"

definition Daemon_Delete :: "('w, 'z) daemon_env_scheme \<Rightarrow> string \<Rightarrow> daemon \<Rightarrow> 'w \<Rightarrow> unit outcome \<times> daemon \<times> 'w" where
  "Daemon_Delete s cid d w =
     reconcileLocked s
       (case map_of (d_contexts d) cid of
          None \<Rightarrow> d
        | Some c \<Rightarrow> d\<lparr>d_contexts := go_set cid (c\<lparr>dc_deleting := True\<rparr>) (d_contexts d)\<rparr>) w"

definition Daemon_Retry :: "('w, 'z) daemon_env_scheme \<Rightarrow> daemon \<Rightarrow> 'w \<Rightarrow> unit outcome \<times> daemon \<times> 'w" where
  "Daemon_Retry s d w = reconcileLocked s d w"

text \<open>A call \<open>_ = d.reconcileLocked()\<close> followed by \<open>return nil\<close>.\<close>

definition reconcile_ignored :: "('w, 'z) daemon_env_scheme \<Rightarrow> daemon \<Rightarrow> 'w \<Rightarrow> unit outcome \<times> daemon \<times> 'w" where
  "reconcile_ignored s d w =
     (case reconcileLocked s d w of (Panic, d1, w1) \<Rightarrow> (Panic, d1, w1) | (_, d1, w1) \<Rightarrow> (Ok (), d1, w1))"

text \<open>
  The part of \<open>Observe\<close> after the connection is found or created: \<open>c\<close> is its current value, already
  stored. The record of an established event is kept also when the flow is then refused.
\<close>

definition record_initial :: "pm_event \<Rightarrow> observed_connection \<Rightarrow> go_error + observed_connection" where
  "record_initial e c =
     (if oc_closed c then Inl (errors_New ''token reused before previous connection cleanup completed'')
      else if ev_Type e = EventEstablished
      then (if (case oc_initial c of None \<Rightarrow> False | Some i \<Rightarrow> eventFlow i \<noteq> eventFlow e)
            then Inl (errors_New ''token reused without observed close'')
            else Inr (c\<lparr>oc_initial := Some e\<rparr>))
      else Inr c)"

definition record_flow :: "pm_event \<Rightarrow> observed_connection \<Rightarrow> go_error + observed_connection" where
  "record_flow e c =
     (if ev_Type e = EventSubClosed then Inr (c\<lparr>oc_flows := go_delete (eventFlow e) (oc_flows c)\<rparr>)
      else if length (oc_flows c) \<ge> 256 \<and> map_of (oc_flows c) (eventFlow e) = None
      then Inl (errors_New ''subflow observation capacity exceeded'')
      else Inr (c\<lparr>oc_flows := go_set (eventFlow e) e (oc_flows c)\<rparr>))"

definition observe_open :: "('w, 'z) daemon_env_scheme \<Rightarrow> pm_event \<Rightarrow> observed_connection \<Rightarrow> daemon \<Rightarrow> 'w \<Rightarrow>
    unit outcome \<times> daemon \<times> 'w" where
  "observe_open s e c d w =
     (let d0 = set_connection (ev_Token e) c d in
      case record_initial e c of
        Inl err \<Rightarrow> (Err err, d0, w)
      | Inr c1 \<Rightarrow>
          (case record_flow e c1 of
             Inl err \<Rightarrow> (Err err, set_connection (ev_Token e) c1 d0, w)
           | Inr c2 \<Rightarrow> reconcile_ignored s (set_connection (ev_Token e) c2 d0) w))"

definition new_connection :: observed_connection where
  "new_connection = \<lparr>oc_initial = None, oc_flows = [], oc_owner = [], oc_closed = False, oc_lastError = None\<rparr>"

definition Daemon_Observe :: "('w, 'z) daemon_env_scheme \<Rightarrow> pm_event \<Rightarrow> daemon \<Rightarrow> 'w \<Rightarrow> unit outcome \<times> daemon \<times> 'w" where
  "Daemon_Observe s e d w =
     (if ev_Type e \<noteq> EventEstablished \<and> ev_Type e \<noteq> EventSubEstablished \<and> ev_Type e \<noteq> EventSubClosed
         \<and> ev_Type e \<noteq> EventClosed then (Ok (), d, w)
      else case d_fatal d of Some f \<Rightarrow> (Err f, d, w) | None \<Rightarrow>
      let found = map_of (d_connections d) (ev_Token e) in
      if ev_Type e = EventClosed
      then reconcile_ignored s
             (case found of None \<Rightarrow> d | Some c \<Rightarrow> set_connection (ev_Token e) (c\<lparr>oc_closed := True\<rparr>) d) w
      else case found of
        Some c \<Rightarrow> observe_open s e c d w
      | None \<Rightarrow>
          if ev_Type e = EventSubClosed then (Ok (), d, w)
          else if length (d_connections d) \<ge> 4096
          then (Err (errors_New ''observed connection capacity exceeded; event replay unavailable''), d, w)
          else observe_open s e new_connection d w)"

definition Daemon_Fail :: "go_error option \<Rightarrow> daemon \<Rightarrow> daemon" where
  "Daemon_Fail e d = d\<lparr>d_fatal := e\<rparr>"

fun cleanup_connections :: "('w, 'z) runtime_scheme \<Rightarrow> daemon \<Rightarrow> (u32 \<times> observed_connection) list \<Rightarrow> 'w \<Rightarrow>
    go_error list \<times> 'w" where
  "cleanup_connections s d [] w = ([], w)"
| "cleanup_connections s d ((token, c) # cs) w =
     (if oc_owner c \<noteq> []
      then (let (e, w1) = DeleteLive s (conn_of d token) w; (fs, w2) = cleanup_connections s d cs w1
            in ((case e of None \<Rightarrow> fs | Some x \<Rightarrow> x # fs), w2))
      else cleanup_connections s d cs w)"

definition Daemon_Cleanup :: "('w, 'z) runtime_scheme \<Rightarrow> daemon \<Rightarrow> 'w \<Rightarrow> go_error option \<times> 'w" where
  "Daemon_Cleanup s d w =
     (let (ns, w1) = MapOrder s w; (fs, w2) = cleanup_connections s d (go_range ns (d_connections d)) w1
      in (errors_Join (map Some fs), w2))"

end
