(* ===== verification/DaemonInv.thy ===== *)
theory DaemonInv
  imports Daemon
begin

text \<open>
  The invariant of the daemon. \<open>state_ok\<close> bounds and relates the two tables, \<open>maps_ok\<close> says that
  every map entry of the daemon's namespace belongs to a connection that has an owner, and
  \<open>generations_ok\<close> that a committed policy is older than its owner's assignment or is exactly its
  policy. Every exported operation keeps the invariant for every failure of the store, every
  answer of the address validator and every map order; none panics; none touches an entry of
  another namespace.
\<close>

section \<open>The invariant\<close>

definition context_ok :: "string \<Rightarrow> desired_context \<Rightarrow> bool" where
  "context_ok cid dc \<longleftrightarrow>
     cp_ID (cp_ContextSpec (dc_assignment dc)) = cid \<and>
     (\<exists>a. Assignment_Validate a = None \<and> dc_assignment dc = canonical a)"

definition contexts_ok :: "(string, desired_context) gomap \<Rightarrow> bool" where
  "contexts_ok m \<longleftrightarrow>
     wf_map m \<and> length m \<le> 1024 \<and> (\<forall>cid dc. map_of m cid = Some dc \<longrightarrow> context_ok cid dc) \<and>
     (\<forall>cid dc cid' dc'. map_of m cid = Some dc \<longrightarrow> map_of m cid' = Some dc' \<longrightarrow>
        cp_Flow (cp_ContextSpec (dc_assignment dc)) = cp_Flow (cp_ContextSpec (dc_assignment dc')) \<longrightarrow> cid = cid')"

definition connection_ok :: "(string, desired_context) gomap \<Rightarrow> observed_connection \<Rightarrow> bool" where
  "connection_ok m c \<longleftrightarrow>
     wf_map (oc_flows c) \<and> length (oc_flows c) \<le> 256 \<and>
     (\<forall>f e. map_of (oc_flows c) f = Some e \<longrightarrow> eventFlow e = f) \<and>
     (oc_owner c \<noteq> [] \<longrightarrow> map_of m (oc_owner c) \<noteq> None)"

definition state_ok :: "daemon \<Rightarrow> bool" where
  "state_ok d \<longleftrightarrow>
     contexts_ok (d_contexts d) \<and> wf_map (d_connections d) \<and> length (d_connections d) \<le> 4096 \<and>
     (\<forall>token c. map_of (d_connections d) token = Some c \<longrightarrow> connection_ok (d_contexts d) c)"

definition owned :: "daemon \<Rightarrow> u32 \<Rightarrow> bool" where
  "owned d token \<longleftrightarrow> (\<exists>c. map_of (d_connections d) token = Some c \<and> oc_owner c \<noteq> [])"

definition maps_ok :: "daemon \<Rightarrow> (conn_key \<Rightarrow> map_policy option) \<Rightarrow> (path_key \<Rightarrow> map_path option) \<Rightarrow> bool" where
  "maps_ok d P T \<longleftrightarrow>
     (\<forall>k. ck_NetNSInode k = d_netns d \<longrightarrow> P k \<noteq> None \<or> (\<exists>q. pk_Conn q = k \<and> T q \<noteq> None) \<longrightarrow>
        k = conn_of d (ck_Token k) \<and> owned d (ck_Token k))"

text \<open>The value of the policy map an assignment asks for.\<close>

definition assigned_policy :: "cp_assignment \<Rightarrow> map_policy" where
  "assigned_policy a =
     \<lparr>mp_Generation = cp_Generation a, mp_Enabled = (if cp_Enabled (cp_Policy a) then 1 else 0),
      mp_Mode = (if cp_Mode (cp_Policy a) = ''lowest-rtt'' then 2 else 1),
      mp_WeightA = cp_WeightA (cp_Policy a), mp_WeightB = cp_WeightB (cp_Policy a),
      mp_RTTDeltaUS = cp_RTTDeltaUS (cp_Policy a)\<rparr>"

definition policy_follows :: "map_policy \<Rightarrow> cp_assignment \<Rightarrow> bool" where
  "policy_follows mp a \<longleftrightarrow> mp_Generation mp < cp_Generation a \<or> mp = assigned_policy a"

definition generations_ok :: "daemon \<Rightarrow> (conn_key \<Rightarrow> map_policy option) \<Rightarrow> bool" where
  "generations_ok d P \<longleftrightarrow>
     (\<forall>token c dc mp. map_of (d_connections d) token = Some c \<longrightarrow> map_of (d_contexts d) (oc_owner c) = Some dc \<longrightarrow>
        P (conn_of d token) = Some mp \<longrightarrow> policy_follows mp (dc_assignment dc))"

definition daemon_inv :: "daemon \<Rightarrow> (conn_key \<Rightarrow> map_policy option) \<Rightarrow> (path_key \<Rightarrow> map_path option) \<Rightarrow> bool" where
  "daemon_inv d P T \<longleftrightarrow> state_ok d \<and> maps_ok d P T \<and> generations_ok d P"

section \<open>Contracts of the environment\<close>

text \<open>The address validator reads the system's interfaces and never touches the maps.\<close>

locale daemon_laws = map_store_laws s pol pth
  for s :: "('w, 'z) daemon_env_scheme"
    and pol :: "'w \<Rightarrow> conn_key \<Rightarrow> map_policy option"
    and pth :: "'w \<Rightarrow> path_key \<Rightarrow> map_path option" +
  assumes ValidateAddr_frame: "ValidateAddr s l w = (r, w') \<Longrightarrow> pol w' = pol w \<and> pth w' = pth w"

text \<open>What a step of one connection may change in the maps.\<close>

definition touches :: "conn_key \<Rightarrow> (conn_key \<Rightarrow> map_policy option) \<Rightarrow> (path_key \<Rightarrow> map_path option) \<Rightarrow>
    (conn_key \<Rightarrow> map_policy option) \<Rightarrow> (path_key \<Rightarrow> map_path option) \<Rightarrow> bool" where
  "touches key P T P' T' \<longleftrightarrow> (\<forall>k. k \<noteq> key \<longrightarrow> P' k = P k) \<and> (\<forall>q. pk_Conn q \<noteq> key \<longrightarrow> T' q = T q)"

lemma touches_refl [simp]: "touches key P T P T"
  by (simp add: touches_def)

lemma touches_trans: "touches key P T P1 T1 \<Longrightarrow> touches key P1 T1 P2 T2 \<Longrightarrow> touches key P T P2 T2"
  by (simp add: touches_def)

section \<open>One connection\<close>

lemma MapPolicy_plan: "MapPolicy \<lparr>plan_Policy = plan_policy a as bs, IfIndexA = ia, IfIndexB = ib\<rparr> = Ok (assigned_policy a)"
  by (simp add: MapPolicy_def plan_policy_def assigned_policy_def Let_def)

lemma Daemon_plan_MapPolicy:
  "Daemon_plan s c a w = (Inr p, w') \<Longrightarrow> MapPolicy p = Ok (assigned_policy a)"
  by (auto simp: Daemon_plan_def Let_def MapPolicy_plan split: prod.splits sum.splits)

text \<open>The paths through \<open>applyConnection\<close>.\<close>

definition no_endpoints :: "plan \<Rightarrow> bool" where
  "no_endpoints p \<longleftrightarrow> Endpoints (LegA (Legs (plan_Policy p))) = [] \<or> Endpoints (LegB (Legs (plan_Policy p))) = []"

lemma applyConnection_cases:
  assumes "applyConnection s key c a w = (r, w')"
  obtains (unplanned) e w1 cl where "Daemon_plan s c a w = (Inl e, w1)" "DeleteLive s key w1 = (cl, w')"
        "r = error_outcome (errors_Join [Some e, cl])"
    | (one_leg) p w1 e where "Daemon_plan s c a w = (Inr p, w1)" "no_endpoints p" "DeleteLive s key w1 = (e, w')"
        "r = error_outcome e"
    | (no_paths) p e where "Daemon_plan s c a w = (Inr p, w')" "\<not> no_endpoints p" "DesiredPaths (plan_Policy p) key = Inl e" "r = Err e"
    | (no_lookup) p w1 want e where "Daemon_plan s c a w = (Inr p, w1)" "\<not> no_endpoints p"
        "DesiredPaths (plan_Policy p) key = Inr want" "LookupPolicy s key w1 = (Inl e, w')" "\<not> errors_Is e ErrNotFound" "r = Err e"
    | (repaired) p w1 want w2 e where "Daemon_plan s c a w = (Inr p, w1)" "\<not> no_endpoints p"
        "DesiredPaths (plan_Policy p) key = Inr want" "LookupPolicy s key w1 = (Inr (assigned_policy a), w2)"
        "repair s key want w2 = (e, w')" "r = error_outcome e"
    | (applied) p w1 want old w2 where "Daemon_plan s c a w = (Inr p, w1)" "\<not> no_endpoints p"
        "DesiredPaths (plan_Policy p) key = Inr want" "LookupPolicy s key w1 = (old, w2)" "old \<noteq> Inr (assigned_policy a)"
        "ApplyLive s p key w2 = (r, w')"
proof -
  obtain x w1 where pl: "Daemon_plan s c a w = (x, w1)" by force
  show thesis
  proof (cases x)
    case (Inl e)
    obtain cl w2 where "DeleteLive s key w1 = (cl, w2)" by force
    then show thesis using assms pl Inl by (intro unplanned) (auto simp: applyConnection_def)
  next
    case (Inr p)
    note mp = Daemon_plan_MapPolicy [OF pl [unfolded Inr]]
    note run = assms [unfolded applyConnection_def pl Inr prod.case sum.case no_endpoints_def [symmetric]]
    consider "no_endpoints p" | e where "\<not> no_endpoints p" "DesiredPaths (plan_Policy p) key = Inl e"
      | want where "\<not> no_endpoints p" "DesiredPaths (plan_Policy p) key = Inr want"
      by (cases "DesiredPaths (plan_Policy p) key") blast+
    then show thesis
    proof cases
      case 1
      obtain e w2 where "DeleteLive s key w1 = (e, w2)" by force
      then show thesis using run 1 pl Inr by (intro one_leg) auto
    next
      case (2 e)
      then show thesis using run pl Inr by (intro no_paths) auto
    next
      case (3 want)
      obtain old w2 where lk: "LookupPolicy s key w1 = (old, w2)" by force
      obtain e w3 where rp: "repair s key want w2 = (e, w3)" by force
      consider "old = Inr (assigned_policy a)" | e where "old = Inl e" "\<not> errors_Is e ErrNotFound"
        | "old \<noteq> Inr (assigned_policy a)" "\<And>e. old = Inl e \<Longrightarrow> errors_Is e ErrNotFound" by blast
      then show thesis
      proof cases
        case 1
        then show thesis using run 3 pl Inr lk rp mp by (intro repaired) auto
      next
        case (2 e)
        then show thesis using run 3 pl Inr lk by (intro no_lookup) auto
      next
        case a: 3
        have "ApplyLive s p key w2 = (r, w')" using run 3 lk mp a by (cases old) auto
        then show thesis using 3 pl Inr lk a(1) by (intro applied) auto
      qed
    qed
  qed
qed

context daemon_laws
begin

lemma Daemon_plan_frame: "Daemon_plan s c a w = (r, w') \<Longrightarrow> pol w' = pol w \<and> pth w' = pth w"
  by (auto simp: Daemon_plan_def Let_def dest!: ValidateAddr_frame frames split: prod.splits sum.splits)

lemma DeleteLive_touches:
  assumes "DeleteLive s key w = (e, w')"
  shows "touches key (pol w) (pth w) (pol w') (pth w')" "pol w' key = pol w key \<or> pol w' key = None"
    "e = None \<Longrightarrow> pol w' key = None \<and> (\<forall>q. pk_Conn q = key \<longrightarrow> pth w' q = None)"
  using DeleteLive_spec [OF assms] by (auto simp: touches_def)

lemma repair_updates_effect:
  "repair_updates s before kvs w = (e, w') \<Longrightarrow> \<forall>q \<in> fst ` set kvs. pk_Conn q = key \<Longrightarrow>
    pol w' = pol w \<and> (\<forall>q. pk_Conn q \<noteq> key \<longrightarrow> pth w' q = pth w q)"
proof (induction kvs arbitrary: w)
  case Nil
  then show ?case by simp
next
  case (Cons kv kvs)
  obtain k v where kv: "kv = (k, v)" by force
  obtain u w1 where up: "UpdatePath s k v w = (u, w1)" by force
  have k: "pk_Conn k = key" and kvs: "\<forall>q \<in> fst ` set kvs. pk_Conn q = key" using Cons.prems(2) kv by simp_all
  have "pth w1 = pth w \<or> pth w1 = (pth w)(k \<mapsto> v)"
    using UpdatePath_ok [of k v w w1] UpdatePath_err [of k v w _ w1] up by (cases u) simp_all
  then have w1: "pol w1 = pol w \<and> (\<forall>q. pk_Conn q \<noteq> key \<longrightarrow> pth w1 q = pth w q)"
    using UpdatePath_frame [OF up] k by (metis fun_upd_other)
  have "w' = w1 \<or> (\<exists>w2 \<in> {w, w1}. repair_updates s before kvs w2 = (e, w'))"
    using Cons.prems(1) up by (auto simp: kv split: if_splits option.splits)
  then show ?case using w1 Cons.IH [OF _ kvs] by (metis empty_iff insert_iff)
qed

lemma repair_deletes_effect:
  "repair_deletes s want ks w = (e, w') \<Longrightarrow> \<forall>q \<in> set ks. pk_Conn q = key \<Longrightarrow>
    pol w' = pol w \<and> (\<forall>q. pk_Conn q \<noteq> key \<longrightarrow> pth w' q = pth w q)"
proof (induction ks arbitrary: w)
  case Nil
  then show ?case by simp
next
  case (Cons k ks)
  obtain u w1 where del: "DeletePath s k w = (u, w1)" by force
  have k: "pk_Conn k = key" and ks: "\<forall>q \<in> set ks. pk_Conn q = key" using Cons.prems(2) by simp_all
  have w1: "pol w1 = pol w \<and> (\<forall>q. pk_Conn q \<noteq> key \<longrightarrow> pth w1 q = pth w q)"
    using DeletePath_frame [OF del] DeletePath_cases [OF del] k by (metis fun_upd_other)
  have "w' = w1 \<or> (\<exists>w2 \<in> {w, w1}. repair_deletes s want ks w2 = (e, w'))"
    using Cons.prems(1) del by (auto split: if_splits option.splits)
  then show ?case using w1 Cons.IH [OF _ ks] by (metis empty_iff insert_iff)
qed

lemma repair_effect:
  assumes run: "repair s key want w = (e, w')" and want: "\<forall>q \<in> fst ` set want. pk_Conn q = key"
  shows "pol w' = pol w" "touches key (pol w) (pth w) (pol w') (pth w')"
proof -
  obtain before pe w1 where ps: "Paths s key w = ((before, pe), w1)" by (metis prod.exhaust)
  have f1: "pol w1 = pol w" "pth w1 = pth w" using Paths_frame [OF ps] by simp_all
  have "pol w' = pol w \<and> (\<forall>q. pk_Conn q \<noteq> key \<longrightarrow> pth w' q = pth w q)"
  proof (cases pe)
    case (Some x)
    then have "w' = w1" using run ps by (simp add: repair_def)
    then show ?thesis by (simp add: f1)
  next
    case None
    have "map_of before = paths_of (pth w) key" using Paths_ok [of key w before w1] ps None by simp
    then have "fst ` set before = dom (pth w) \<inter> {k. pk_Conn k = key}" by (metis dom_map_of_conv_image_fst dom_restrict)
    then have before: "\<forall>q \<in> fst ` set before. pk_Conn q = key" by blast
    obtain ns w2 where mo: "MapOrder s w1 = (ns, w2)" by force
    have f2: "pol w2 = pol w1" "pth w2 = pth w1" using MapOrder_frame [OF mo] by simp_all
    obtain ue w3 where up: "repair_updates s before (go_range ns want) w2 = (ue, w3)" by force
    have f3: "pol w3 = pol w2 \<and> (\<forall>q. pk_Conn q \<noteq> key \<longrightarrow> pth w3 q = pth w2 q)"
      by (rule repair_updates_effect [OF up]) (use want in simp)
    show ?thesis
    proof (cases ue)
      case (Some x)
      then have "w' = w3" using run ps None mo up by (simp add: repair_def)
      then show ?thesis using f3 by (simp add: f1 f2)
    next
      case ue: None
      obtain ns' w4 where mo': "MapOrder s w3 = (ns', w4)" by force
      have del: "repair_deletes s want (map fst (go_range ns' before)) w4 = (e, w')"
        using run ps None mo up ue mo' by (simp add: repair_def)
      have "pol w' = pol w4 \<and> (\<forall>q. pk_Conn q \<noteq> key \<longrightarrow> pth w' q = pth w4 q)"
        by (rule repair_deletes_effect [OF del]) (use before in simp)
      with MapOrder_frame [OF mo'] f1 f2 f3 show ?thesis by simp
    qed
  qed
  then show "pol w' = pol w" "touches key (pol w) (pth w) (pol w') (pth w')" by (simp_all add: touches_def)
qed

lemma ApplyLive_effect:
  assumes "ApplyLive s p key w = (res, w')" "MapPolicy p = Ok mp"
  shows "res \<noteq> Panic" "touches key (pol w) (pth w) (pol w') (pth w')" "pol w' key \<in> {pol w key, Some mp}"
proof -
  have "res \<noteq> Panic \<and> touches key (pol w) (pth w) (pol w') (pth w') \<and> pol w' key \<in> {pol w key, Some mp}"
    using assms(1)
  proof (cases rule: ApplyLive_phases)
    case (committed desired mp' fs)
    then show ?thesis
      using assms(2) by (auto simp: touches_def cleanup_error_def split: option.splits)
  qed (auto simp: touches_def)
  then show "res \<noteq> Panic" "touches key (pol w) (pth w) (pol w') (pth w')" "pol w' key \<in> {pol w key, Some mp}"
    by simp_all
qed

lemma applyConnection_effect:
  assumes "applyConnection s key c a w = (res, w')"
  shows "res \<noteq> Panic \<and> touches key (pol w) (pth w) (pol w') (pth w') \<and>
    pol w' key \<in> {pol w key, None, Some (assigned_policy a)}"
  using assms
proof (cases rule: applyConnection_cases)
  case (unplanned e w1 cl)
  with DeleteLive_touches(1,2) [OF unplanned(2)] Daemon_plan_frame [OF unplanned(1)] show ?thesis by auto
next
  case (one_leg p w1 e)
  with DeleteLive_touches(1,2) [OF one_leg(3)] Daemon_plan_frame [OF one_leg(1)] show ?thesis by auto
next
  case (no_paths p e)
  with Daemon_plan_frame [OF no_paths(1)] show ?thesis by simp
next
  case (no_lookup p w1 want e)
  with Daemon_plan_frame [OF no_lookup(1)] LookupPolicy_frame [OF no_lookup(4)] show ?thesis by simp
next
  case (repaired p w1 want w2 e)
  have conn: "\<forall>q \<in> fst ` set want. pk_Conn q = key" using DesiredPaths_conn [OF repaired(3)] by blast
  show ?thesis
    using repair_effect [OF repaired(5) conn] Daemon_plan_frame [OF repaired(1)] LookupPolicy_frame [OF repaired(4)] repaired(6)
    by simp
next
  case (applied p w1 want old w2)
  show ?thesis
    using ApplyLive_effect [OF applied(6) Daemon_plan_MapPolicy [OF applied(1)]] Daemon_plan_frame [OF applied(1)]
      LookupPolicy_frame [OF applied(4)] by auto
qed

end

section \<open>Updating one connection keeps the invariant\<close>

lemma canonical_ID [simp]: "cp_ID (cp_ContextSpec (canonical a)) = cp_ID (cp_ContextSpec a)"
  by (simp add: canonical_def canonical_spec_def)

lemma context_ok_id: "context_ok cid dc \<Longrightarrow> cid \<noteq> []"
  by (auto simp: context_ok_def Assignment_Validate_ok spec_ok_def ValidateName_ok)

lemma no_context_without_id: "contexts_ok m \<Longrightarrow> map_of m [] = None"
  unfolding contexts_ok_def using context_ok_id by (metis option.exhaust)

lemma conn_of_simps [simp]:
  "ck_NetNSInode (conn_of d t) = d_netns d" "ck_Token (conn_of d t) = t" "ck_Reserved (conn_of d t) = 0"
  "conn_of d t = conn_of d t' \<longleftrightarrow> t = t'"
  by (auto simp: conn_of_def)

lemma set_connection_simps [simp]:
  "d_netns (set_connection t c d) = d_netns d" "d_contexts (set_connection t c d) = d_contexts d"
  "d_fatal (set_connection t c d) = d_fatal d" "conn_of (set_connection t c d) = conn_of d"
  "map_of (d_connections (set_connection t c d)) = (map_of (d_connections d))(t \<mapsto> c)"
  by (simp_all add: set_connection_def conn_of_def fun_eq_iff)

lemma drop_connection_simps [simp]:
  "d_netns (drop_connection t d) = d_netns d" "d_contexts (drop_connection t d) = d_contexts d"
  "d_fatal (drop_connection t d) = d_fatal d" "conn_of (drop_connection t d) = conn_of d"
  "map_of (d_connections (drop_connection t d)) = (map_of (d_connections d))(t := None)"
  by (simp_all add: drop_connection_def conn_of_def fun_eq_iff)

lemma owned_set_connection [simp]: "owned (set_connection t c d) t' \<longleftrightarrow> (if t' = t then oc_owner c \<noteq> [] else owned d t')"
  by (auto simp: owned_def)

lemma owned_drop_connection [simp]: "owned (drop_connection t d) t' \<longleftrightarrow> t' \<noteq> t \<and> owned d t'"
  by (auto simp: owned_def)

text \<open>A key none of whose entries are in the maps.\<close>

definition unmapped :: "conn_key \<Rightarrow> (conn_key \<Rightarrow> map_policy option) \<Rightarrow> (path_key \<Rightarrow> map_path option) \<Rightarrow> bool" where
  "unmapped key P T \<longleftrightarrow> P key = None \<and> (\<forall>q. pk_Conn q = key \<longrightarrow> T q = None)"

lemma maps_ok_alt:
  "maps_ok d P T \<longleftrightarrow> (\<forall>k. ck_NetNSInode k = d_netns d \<longrightarrow> unmapped k P T \<or>
     k = conn_of d (ck_Token k) \<and> owned d (ck_Token k))"
  unfolding maps_ok_def unmapped_def by (intro iff_allI) auto

lemma unmapped_touches: "touches key P T P' T' \<Longrightarrow> k \<noteq> key \<Longrightarrow> unmapped k P' T' = unmapped k P T"
  by (auto simp: touches_def unmapped_def)

lemma unowned_unmapped:
  assumes "maps_ok d P T" "map_of (d_connections d) t = Some c" "oc_owner c = []"
  shows "unmapped (conn_of d t) P T"
proof -
  have "\<not> owned d t" using assms(2,3) by (simp add: owned_def)
  then show ?thesis using assms(1) [unfolded maps_ok_alt] by (metis conn_of_simps(1,2))
qed

lemma set_connection_length:
  assumes "wf_map (d_connections d)" "length (d_connections d) \<le> n" "map_of (d_connections d) t = None \<Longrightarrow> length (d_connections d) < n"
  shows "wf_map (d_connections (set_connection t c d))" "length (d_connections (set_connection t c d)) \<le> n"
  using assms by (auto simp: set_connection_def length_go_set)

lemma inv_set_connection:
  assumes inv: "daemon_inv d P T" and t: "touches (conn_of d t) P T P' T'"
    and room: "map_of (d_connections d) t = None \<Longrightarrow> length (d_connections d) < 4096"
    and c: "connection_ok (d_contexts d) c" "oc_owner c = [] \<Longrightarrow> unmapped (conn_of d t) P' T'"
    and follows: "\<And>dc mp. map_of (d_contexts d) (oc_owner c) = Some dc \<Longrightarrow> P' (conn_of d t) = Some mp \<Longrightarrow>
      policy_follows mp (dc_assignment dc)"
  shows "daemon_inv (set_connection t c d) P' T'"
proof -
  have st: "state_ok d" "maps_ok d P T" "generations_ok d P" using inv by (simp_all add: daemon_inv_def)
  have "state_ok (set_connection t c d)"
    using st(1) c(1) room set_connection_length [of d 4096 t c] by (auto simp: state_ok_def)
  moreover have "maps_ok (set_connection t c d) P' T'"
    unfolding maps_ok_alt
  proof (intro allI impI)
    fix k :: conn_key assume k: "ck_NetNSInode k = d_netns (set_connection t c d)"
    show "unmapped k P' T' \<or> k = conn_of (set_connection t c d) (ck_Token k) \<and> owned (set_connection t c d) (ck_Token k)"
    proof (cases "k = conn_of d t")
      case True
      then show ?thesis using c(2) by auto
    next
      case False
      then have "unmapped k P T \<or> k = conn_of d (ck_Token k) \<and> owned d (ck_Token k)"
        using st(2) k by (simp add: maps_ok_alt)
      then show ?thesis using unmapped_touches [OF t False] False by auto
    qed
  qed
  moreover have "generations_ok (set_connection t c d) P'"
    unfolding generations_ok_def
  proof (intro allI impI)
    fix t' c' dc mp
    assume a: "map_of (d_connections (set_connection t c d)) t' = Some c'"
      "map_of (d_contexts (set_connection t c d)) (oc_owner c') = Some dc" "P' (conn_of (set_connection t c d) t') = Some mp"
    show "policy_follows mp (dc_assignment dc)"
    proof (cases "t' = t")
      case True
      then show ?thesis using a follows by simp
    next
      case False
      then have "P' (conn_of d t') = P (conn_of d t')" using t by (simp add: touches_def)
      then show ?thesis using a False st(3) [unfolded generations_ok_def] by simp
    qed
  qed
  ultimately show ?thesis by (simp add: daemon_inv_def)
qed

lemma inv_drop_connection:
  assumes inv: "daemon_inv d P T" and t: "touches (conn_of d t) P T P' T'" "unmapped (conn_of d t) P' T'"
  shows "daemon_inv (drop_connection t d) P' T'"
proof -
  have st: "state_ok d" "maps_ok d P T" "generations_ok d P" using inv by (simp_all add: daemon_inv_def)
  have "length (d_connections (drop_connection t d)) \<le> length (d_connections d)"
    by (simp add: drop_connection_def length_go_delete_le)
  moreover have "wf_map (d_connections (drop_connection t d))"
    using st(1) by (simp add: drop_connection_def state_ok_def)
  ultimately have "state_ok (drop_connection t d)" using st(1) by (auto simp: state_ok_def split: if_splits)
  moreover have "maps_ok (drop_connection t d) P' T'"
    unfolding maps_ok_alt
  proof (intro allI impI)
    fix k :: conn_key assume k: "ck_NetNSInode k = d_netns (drop_connection t d)"
    show "unmapped k P' T' \<or> k = conn_of (drop_connection t d) (ck_Token k) \<and> owned (drop_connection t d) (ck_Token k)"
    proof (cases "k = conn_of d t")
      case True
      then show ?thesis using t(2) by simp
    next
      case False
      then have "unmapped k P T \<or> k = conn_of d (ck_Token k) \<and> owned d (ck_Token k)"
        using st(2) k by (simp add: maps_ok_alt)
      then show ?thesis using unmapped_touches [OF t(1) False] False by auto
    qed
  qed
  moreover have "generations_ok (drop_connection t d) P'"
    using st(3) t(1) by (auto simp: generations_ok_def touches_def split: if_splits)
  ultimately show ?thesis by (simp add: daemon_inv_def)
qed

section \<open>The body of the loop\<close>

definition conn_step :: "u32 \<Rightarrow> daemon \<Rightarrow> (conn_key \<Rightarrow> map_policy option) \<Rightarrow> (path_key \<Rightarrow> map_path option) \<Rightarrow>
    daemon \<Rightarrow> (conn_key \<Rightarrow> map_policy option) \<Rightarrow> (path_key \<Rightarrow> map_path option) \<Rightarrow> bool" where
  "conn_step t d P T d' P' T' \<longleftrightarrow>
     daemon_inv d' P' T' \<and> d_netns d' = d_netns d \<and> d_contexts d' = d_contexts d \<and> d_fatal d' = d_fatal d \<and>
     touches (conn_of d t) P T P' T' \<and> (\<forall>t'. t' \<noteq> t \<longrightarrow> map_of (d_connections d') t' = map_of (d_connections d) t') \<and>
     (map_of (d_connections d) t = None \<longrightarrow> map_of (d_connections d') t = None)"

lemma connection_ok_mono:
  "connection_ok m c \<Longrightarrow> oc_flows c' = oc_flows c \<Longrightarrow> (oc_owner c' = [] \<or> map_of m (oc_owner c') \<noteq> None) \<Longrightarrow>
    connection_ok m c'"
  by (auto simp: connection_ok_def)

lemma inv_connection: "daemon_inv d P T \<Longrightarrow> map_of (d_connections d) t = Some c \<Longrightarrow> connection_ok (d_contexts d) c"
  by (simp add: daemon_inv_def state_ok_def)

lemma inv_contexts: "daemon_inv d P T \<Longrightarrow> contexts_ok (d_contexts d)"
  by (simp add: daemon_inv_def state_ok_def)

lemma inv_follows:
  "daemon_inv d P T \<Longrightarrow> map_of (d_connections d) t = Some c \<Longrightarrow> map_of (d_contexts d) (oc_owner c) = Some dc \<Longrightarrow>
    P (conn_of d t) = Some mp \<Longrightarrow> policy_follows mp (dc_assignment dc)"
  unfolding daemon_inv_def generations_ok_def by blast

lemma inv_unowned:
  "daemon_inv d P T \<Longrightarrow> map_of (d_connections d) t = Some c \<Longrightarrow> oc_owner c = [] \<Longrightarrow> unmapped (conn_of d t) P T"
  using unowned_unmapped by (simp add: daemon_inv_def)

text \<open>Storing a connection whose owner is unchanged and whose entries have at most been removed.\<close>

lemma conn_step_set:
  assumes inv: "daemon_inv d P T" and c: "map_of (d_connections d) t = Some c"
    and t: "touches (conn_of d t) P T P' T'" and ok: "connection_ok (d_contexts d) c'"
      "oc_owner c' = [] \<Longrightarrow> unmapped (conn_of d t) P' T'"
    and follows: "\<And>dc mp. map_of (d_contexts d) (oc_owner c') = Some dc \<Longrightarrow> P' (conn_of d t) = Some mp \<Longrightarrow>
      policy_follows mp (dc_assignment dc)"
  shows "conn_step t d P T (set_connection t c' d) P' T'"
  using inv_set_connection [OF inv t _ ok follows] c t by (simp add: conn_step_def)

text \<open>The paths through the body of the loop.\<close>

definition stops :: "daemon \<Rightarrow> observed_connection \<Rightarrow> bool" where
  "stops d c \<longleftrightarrow> oc_closed c \<or> (case map_of (d_contexts d) (oc_owner c) of None \<Rightarrow> False | Some dc \<Rightarrow> dc_deleting dc)"

lemma reconcile_connection_cases:
  assumes "reconcile_connection s t d w = (r, d', w')"
  obtains (absent) "map_of (d_connections d) t = None" "r = Ok []" "d' = d" "w' = w"
    | (released) c fs where "map_of (d_connections d) t = Some c" "stops d c" "release s t c d w = (fs, d', w')" "r = Ok fs"
    | (idle) c c1 where "map_of (d_connections d) t = Some c" "\<not> stops d c" "assign_owner s d c w = (c1, None, w')"
        "r = Ok []" "d' = set_connection t c1 d"
    | (applied) c c1 dc w1 res where "map_of (d_connections d) t = Some c" "\<not> stops d c"
        "assign_owner s d c w = (c1, Some dc, w1)" "applyConnection s (conn_of d t) c1 (dc_assignment dc) w1 = (res, w')"
        "r = (case res of Ok _ \<Rightarrow> Ok [] | Err e \<Rightarrow> Ok [Errorf ''token'' [e]] | Panic \<Rightarrow> Panic)"
        "d' = set_connection t (case res of Ok _ \<Rightarrow> c1\<lparr>oc_lastError := None\<rparr> | Err e \<Rightarrow> c1\<lparr>oc_lastError := Some e\<rparr> | Panic \<Rightarrow> c1) d"
proof (cases "map_of (d_connections d) t")
  case None
  then show thesis using assms by (intro absent) (simp_all add: reconcile_connection_def)
next
  case c: (Some c)
  note run = assms [unfolded reconcile_connection_def c option.case stops_def [symmetric]]
  show thesis
  proof (cases "stops d c")
    case True
    obtain fs d1 w1 where "release s t c d w = (fs, d1, w1)" by (metis prod.exhaust)
    then show thesis using run c True by (intro released) auto
  next
    case False
    obtain c1 desired w1 where ao: "assign_owner s d c w = (c1, desired, w1)" by (metis prod.exhaust)
    show thesis
    proof (cases desired)
      case None
      then show thesis using run c False ao by (intro idle) auto
    next
      case (Some dc)
      obtain res w2 where "applyConnection s (conn_of d t) c1 (dc_assignment dc) w1 = (res, w2)" by force
      then show thesis using run c False ao Some by (cases res) (auto intro: applied)
    qed
  qed
qed

text \<open>No entry of another namespace changes.\<close>

definition outside_same :: "u64 \<Rightarrow> (conn_key \<Rightarrow> map_policy option) \<Rightarrow> (path_key \<Rightarrow> map_path option) \<Rightarrow>
    (conn_key \<Rightarrow> map_policy option) \<Rightarrow> (path_key \<Rightarrow> map_path option) \<Rightarrow> bool" where
  "outside_same n P T P' T' \<longleftrightarrow>
     (\<forall>k. ck_NetNSInode k \<noteq> n \<longrightarrow> P' k = P k) \<and> (\<forall>q. ck_NetNSInode (pk_Conn q) \<noteq> n \<longrightarrow> T' q = T q)"

lemma outside_same_refl [simp]: "outside_same n P T P T"
  by (simp add: outside_same_def)

lemma outside_same_trans: "outside_same n P T P1 T1 \<Longrightarrow> outside_same n P1 T1 P2 T2 \<Longrightarrow> outside_same n P T P2 T2"
  by (simp add: outside_same_def)

lemma touches_outside: "touches (conn_of d t) P T P' T' \<Longrightarrow> outside_same (d_netns d) P T P' T'"
  unfolding touches_def outside_same_def by (metis conn_of_simps(1))

context daemon_laws
begin

lemma release_touches:
  assumes inv: "daemon_inv d (pol w) (pth w)" and c: "map_of (d_connections d) t = Some c"
    and del: "(if oc_owner c \<noteq> [] then DeleteLive s (conn_of d t) w else (None, w)) = (e, w1)"
  shows "touches (conn_of d t) (pol w) (pth w) (pol w1) (pth w1)"
    "pol w1 (conn_of d t) = pol w (conn_of d t) \<or> pol w1 (conn_of d t) = None"
    "e = None \<Longrightarrow> unmapped (conn_of d t) (pol w1) (pth w1)" "oc_owner c = [] \<Longrightarrow> e = None"
proof -
  have "touches (conn_of d t) (pol w) (pth w) (pol w1) (pth w1) \<and>
    (pol w1 (conn_of d t) = pol w (conn_of d t) \<or> pol w1 (conn_of d t) = None) \<and>
    (e = None \<longrightarrow> unmapped (conn_of d t) (pol w1) (pth w1)) \<and> (oc_owner c = [] \<longrightarrow> e = None)"
  proof (cases "oc_owner c = []")
    case True
    then have "w1 = w" "e = None" using del by simp_all
    with True inv_unowned [OF inv c] show ?thesis by simp
  next
    case False
    then have "DeleteLive s (conn_of d t) w = (e, w1)" using del by simp
    from DeleteLive_touches [OF this] False show ?thesis by (simp add: unmapped_def)
  qed
  then show "touches (conn_of d t) (pol w) (pth w) (pol w1) (pth w1)"
    "pol w1 (conn_of d t) = pol w (conn_of d t) \<or> pol w1 (conn_of d t) = None"
    "e = None \<Longrightarrow> unmapped (conn_of d t) (pol w1) (pth w1)" "oc_owner c = [] \<Longrightarrow> e = None"
    by simp_all
qed

lemma release_step:
  assumes inv: "daemon_inv d (pol w) (pth w)" and c: "map_of (d_connections d) t = Some c"
    and run: "release s t c d w = (fs, d', w')"
  shows "conn_step t d (pol w) (pth w) d' (pol w') (pth w')"
proof -
  obtain e w1 where del: "(if oc_owner c \<noteq> [] then DeleteLive s (conn_of d t) w else (None, w)) = (e, w1)" by force
  note eff = release_touches [OF inv c del]
  have w1: "w' = w1" using run del by (simp add: release_def split: option.splits if_splits)
  show ?thesis
  proof (cases e)
    case (Some x)
    then have d': "d' = set_connection t (c\<lparr>oc_lastError := Some x\<rparr>) d" using run del by (simp add: release_def)
    show ?thesis unfolding d' w1
    proof (rule conn_step_set [OF inv c eff(1)])
      show "connection_ok (d_contexts d) (c\<lparr>oc_lastError := Some x\<rparr>)"
        using inv_connection [OF inv c] by (simp add: connection_ok_def)
      show "unmapped (conn_of d t) (pol w1) (pth w1)" if "oc_owner (c\<lparr>oc_lastError := Some x\<rparr>) = []"
        using eff(4) that Some by simp
      show "policy_follows mp (dc_assignment dc)"
        if "map_of (d_contexts d) (oc_owner (c\<lparr>oc_lastError := Some x\<rparr>)) = Some dc" "pol w1 (conn_of d t) = Some mp" for dc mp
        using inv_follows [OF inv c, of dc mp] that eff(2) by simp
    qed
  next
    case None
    note un = eff(3) [OF None]
    show ?thesis
    proof (cases "oc_closed c")
      case True
      then have d': "d' = drop_connection t d" using run del None by (simp add: release_def)
      show ?thesis unfolding d' w1
        using inv_drop_connection [OF inv eff(1) un] eff(1) by (simp add: conn_step_def)
    next
      case False
      then have d': "d' = set_connection t (c\<lparr>oc_owner := [], oc_lastError := None\<rparr>) d"
        using run del None by (simp add: release_def)
      show ?thesis unfolding d' w1
        by (rule conn_step_set [OF inv c eff(1)])
          (use inv_connection [OF inv c] un in \<open>simp_all add: connection_ok_def unmapped_def\<close>)
    qed
  qed
qed

lemma assign_owner_spec:
  assumes inv: "daemon_inv d P T" and run: "assign_owner s d c w = (c1, desired, w1)"
  shows "pol w1 = pol w" "pth w1 = pth w" "desired = map_of (d_contexts d) (oc_owner c1)"
    "c1 = c\<lparr>oc_owner := oc_owner c1\<rparr>" "oc_owner c \<noteq> [] \<Longrightarrow> c1 = c"
    "oc_owner c1 \<noteq> oc_owner c \<Longrightarrow> desired \<noteq> None"
proof -
  let ?r = "pol w1 = pol w \<and> pth w1 = pth w \<and> desired = map_of (d_contexts d) (oc_owner c1) \<and>
    c1 = c\<lparr>oc_owner := oc_owner c1\<rparr> \<and> (oc_owner c \<noteq> [] \<longrightarrow> c1 = c) \<and> (oc_owner c1 \<noteq> oc_owner c \<longrightarrow> desired \<noteq> None)"
  have ?r
  proof (cases "if oc_owner c = [] then oc_initial c else None")
    case None
    then show ?thesis using run by (auto simp: assign_owner_def)
  next
    case (Some e)
    then have ow: "oc_owner c = []" by (simp split: if_splits)
    obtain ns wm where mo: "MapOrder s w = (ns, wm)" by force
    note f = MapOrder_frame [OF mo]
    let ?f = "find (\<lambda>(cid, dc). context_matches e dc) (go_range ns (d_contexts d))"
    have fo: "find_owner s d e w = (?f, wm)" by (simp add: find_owner_def mo)
    show ?thesis
    proof (cases ?f)
      case None
      then show ?thesis using run Some fo f by (auto simp: assign_owner_def)
    next
      case found: (Some x)
      obtain cid dc where x: "x = (cid, dc)" by force
      have "x \<in> set (go_range ns (d_contexts d))" by (rule find_in_set [OF found])
      then have "map_of (d_contexts d) cid = Some dc"
        using inv_contexts [OF inv] by (simp add: x contexts_ok_def)
      moreover have "c1 = c\<lparr>oc_owner := cid\<rparr>" "desired = Some dc" "w1 = wm"
        using run Some fo found x by (simp_all add: assign_owner_def)
      ultimately show ?thesis using f ow by simp
    qed
  qed
  then show "pol w1 = pol w" "pth w1 = pth w" "desired = map_of (d_contexts d) (oc_owner c1)"
    "c1 = c\<lparr>oc_owner := oc_owner c1\<rparr>" "oc_owner c \<noteq> [] \<Longrightarrow> c1 = c"
    "oc_owner c1 \<noteq> oc_owner c \<Longrightarrow> desired \<noteq> None" by blast+
qed

lemma owner_held:
  assumes inv: "daemon_inv d (pol w) (pth w)" and c: "map_of (d_connections d) t = Some c"
    and run: "assign_owner s d c w = (c1, desired, w1)"
  shows "oc_flows c1 = oc_flows c" "oc_closed c1 = oc_closed c" "oc_initial c1 = oc_initial c" "connection_ok (d_contexts d) c1"
    "desired = None \<Longrightarrow> c1 = c \<and> oc_owner c = []" "desired = Some dc \<Longrightarrow> oc_owner c1 \<noteq> []"
proof -
  note a = assign_owner_spec [OF inv run]
  show same: "oc_flows c1 = oc_flows c" "oc_closed c1 = oc_closed c" "oc_initial c1 = oc_initial c" by (subst a(4), simp)+
  have held: "oc_owner c1 = [] \<or> map_of (d_contexts d) (oc_owner c1) \<noteq> None"
    using a(3,5,6) inv_connection [OF inv c] by (cases "oc_owner c1 = oc_owner c") (auto simp: connection_ok_def)
  then show "connection_ok (d_contexts d) c1" using connection_ok_mono [OF inv_connection [OF inv c] same(1)] by simp
  show "c1 = c \<and> oc_owner c = []" if "desired = None"
  proof -
    have "c1 = c" using a(4,6) that by (metis observed_connection.surjective observed_connection.update_convs(3))
    then show ?thesis using held a(3) that by simp
  qed
  show "oc_owner c1 \<noteq> []" if "desired = Some dc"
    using a(3) that no_context_without_id [OF inv_contexts [OF inv]] by auto
qed

text \<open>The committed policy of a connection follows the context it is assigned to.\<close>

lemma owner_follows:
  assumes inv: "daemon_inv d (pol w) (pth w)" and c: "map_of (d_connections d) t = Some c"
    and run: "assign_owner s d c w = (c1, Some dc, w1)" and mp: "pol w (conn_of d t) = Some mp"
  shows "policy_follows mp (dc_assignment dc)"
proof -
  note a = assign_owner_spec [OF inv run]
  have "oc_owner c \<noteq> []" using inv_unowned [OF inv c] mp by (auto simp: unmapped_def)
  then have "c1 = c" by (rule a(5))
  then show ?thesis using inv_follows [OF inv c _ mp] a(3) by simp
qed

lemma reconcile_connection_step:
  assumes inv: "daemon_inv d (pol w) (pth w)" and run: "reconcile_connection s t d w = (r, d', w')"
  shows "(\<exists>fs. r = Ok fs) \<and> conn_step t d (pol w) (pth w) d' (pol w') (pth w')"
  using run
proof (cases rule: reconcile_connection_cases)
  case absent
  then show ?thesis using inv by (auto simp: conn_step_def)
next
  case (released c fs)
  then show ?thesis using release_step [OF inv] by blast
next
  case (idle c c1)
  note a = assign_owner_spec [OF inv idle(3)] and o = owner_held [OF inv idle(1,3)]
  have "conn_step t d (pol w) (pth w) (set_connection t c1 d) (pol w') (pth w')"
    by (rule conn_step_set [OF inv idle(1)])
      (use a o inv_unowned [OF inv idle(1)] inv_follows [OF inv idle(1)] in auto)
  then show ?thesis using idle by simp
next
  case (applied c c1 dc w1 res)
  note a = assign_owner_spec [OF inv applied(3)] and o = owner_held [OF inv applied(1,3)]
  note eff = applyConnection_effect [OF applied(4), unfolded a(1,2)]
  obtain x where x: "d' = set_connection t (c1\<lparr>oc_lastError := x\<rparr>) d" using applied(6) eff by (cases res) auto
  have "conn_step t d (pol w) (pth w) d' (pol w') (pth w')" unfolding x
  proof (rule conn_step_set [OF inv applied(1)])
    show "touches (conn_of d t) (pol w) (pth w) (pol w') (pth w')" using eff by simp
    show "connection_ok (d_contexts d) (c1\<lparr>oc_lastError := x\<rparr>)" using o(4) by (simp add: connection_ok_def)
    show "unmapped (conn_of d t) (pol w') (pth w')" if "oc_owner (c1\<lparr>oc_lastError := x\<rparr>) = []"
      using o(6) that by simp
    show "policy_follows mp (dc_assignment dc')"
      if ctx: "map_of (d_contexts d) (oc_owner (c1\<lparr>oc_lastError := x\<rparr>)) = Some dc'" and mp: "pol w' (conn_of d t) = Some mp" for dc' mp
    proof -
      have "dc' = dc" using ctx a(3) by simp
      moreover have "pol w (conn_of d t) = Some mp \<or> mp = assigned_policy (dc_assignment dc)" using eff mp by auto
      ultimately show ?thesis using owner_follows [OF inv applied(1,3)] by (auto simp: policy_follows_def)
    qed
  qed
  moreover have "\<exists>fs. r = Ok fs" using applied(5) eff by (cases res) simp_all
  ultimately show ?thesis by simp
qed

lemma reconcile_connections_inv:
  assumes "daemon_inv d (pol w) (pth w)" "reconcile_connections s ts failures d w = (r, d', w')"
  shows "(\<exists>fs. r = Ok (failures @ fs)) \<and> daemon_inv d' (pol w') (pth w') \<and> d_netns d' = d_netns d \<and>
    d_contexts d' = d_contexts d \<and> d_fatal d' = d_fatal d \<and> outside_same (d_netns d) (pol w) (pth w) (pol w') (pth w') \<and>
    dom (map_of (d_connections d')) \<subseteq> dom (map_of (d_connections d))"
  using assms
proof (induction ts arbitrary: failures d w)
  case Nil
  then show ?case by auto
next
  case (Cons t ts)
  obtain x d1 w1 where rc: "reconcile_connection s t d w = (x, d1, w1)" by (metis prod.exhaust)
  from reconcile_connection_step [OF Cons.prems(1) rc] obtain fs where x: "x = Ok fs"
    and st: "conn_step t d (pol w) (pth w) d1 (pol w1) (pth w1)" by blast
  have rest: "reconcile_connections s ts (failures @ fs) d1 w1 = (r, d', w')" using Cons.prems(2) rc x by simp
  have inv1: "daemon_inv d1 (pol w1) (pth w1)" and same: "d_netns d1 = d_netns d" "d_contexts d1 = d_contexts d"
    "d_fatal d1 = d_fatal d" and out: "outside_same (d_netns d) (pol w) (pth w) (pol w1) (pth w1)"
    using st touches_outside by (auto simp: conn_step_def)
  have "dom (map_of (d_connections d1)) \<subseteq> dom (map_of (d_connections d))"
  proof
    fix t' assume "t' \<in> dom (map_of (d_connections d1))"
    then show "t' \<in> dom (map_of (d_connections d))" using st by (cases "t' = t") (auto simp: conn_step_def dom_def)
  qed
  moreover note ih = Cons.IH [OF inv1 rest]
  ultimately have "dom (map_of (d_connections d')) \<subseteq> dom (map_of (d_connections d))" by (meson order_trans)
  then show ?case using ih same outside_same_trans [OF out] by (simp add: ex_simps) blast
qed

end

section \<open>The exported operations keep the invariant\<close>

lemma sweep_simps [simp]:
  "d_netns (sweep_contexts d) = d_netns d" "d_connections (sweep_contexts d) = d_connections d"
  "d_fatal (sweep_contexts d) = d_fatal d" "conn_of (sweep_contexts d) = conn_of d"
  "owned (sweep_contexts d) = owned d"
  by (simp_all add: sweep_contexts_def conn_of_def owned_def fun_eq_iff)

lemma map_of_filter_wf: "wf_map m \<Longrightarrow> map_of (filter P m) k = (case map_of m k of None \<Rightarrow> None | Some v \<Rightarrow> if P (k, v) then Some v else None)"
  by (induction m) (auto split: option.splits simp: map_of_eq_None_iff image_iff)

lemma wf_map_filter: "wf_map m \<Longrightarrow> wf_map (filter P m)"
  by (induction m) auto

lemma sweep_lookup:
  "wf_map (d_contexts d) \<Longrightarrow> map_of (d_contexts (sweep_contexts d)) cid = Some dc \<longleftrightarrow>
    map_of (d_contexts d) cid = Some dc \<and> (dc_deleting dc \<longrightarrow> (\<exists>(t, c) \<in> set (d_connections d). oc_owner c = cid))"
  by (cases "map_of (d_contexts d) cid")
    (auto simp: sweep_contexts_def map_of_filter_wf list_ex_iff simp del: map_of_eq_Some_iff)

lemma sweep_inv: "daemon_inv d P T \<Longrightarrow> daemon_inv (sweep_contexts d) P T"
proof -
  assume inv: "daemon_inv d P T"
  then have ctx: "contexts_ok (d_contexts d)" and wf: "wf_map (d_contexts d)" "wf_map (d_connections d)"
    by (simp_all add: daemon_inv_def state_ok_def contexts_ok_def)
  have "contexts_ok (d_contexts (sweep_contexts d))"
    unfolding contexts_ok_def
  proof (intro conjI allI impI)
    show "wf_map (d_contexts (sweep_contexts d))" using wf by (simp add: sweep_contexts_def wf_map_filter)
    have "length (d_contexts (sweep_contexts d)) \<le> length (d_contexts d)" by (simp add: sweep_contexts_def)
    then show "length (d_contexts (sweep_contexts d)) \<le> 1024" using ctx by (simp add: contexts_ok_def)
  qed (use ctx wf in \<open>simp_all add: sweep_lookup contexts_ok_def\<close>, blast)
  moreover have "connection_ok (d_contexts (sweep_contexts d)) c" if c: "map_of (d_connections d) t = Some c" for t c
  proof -
    have "(t, c) \<in> set (d_connections d)" using c by (rule map_of_SomeD)
    then have "oc_owner c \<noteq> [] \<longrightarrow> map_of (d_contexts (sweep_contexts d)) (oc_owner c) \<noteq> None"
      using inv_connection [OF inv c] sweep_lookup [OF wf(1), of "oc_owner c"] by (auto simp: connection_ok_def)
    then show ?thesis using inv_connection [OF inv c] by (auto simp: connection_ok_def)
  qed
  ultimately have "state_ok (sweep_contexts d)" using inv by (simp add: daemon_inv_def state_ok_def)
  moreover have "maps_ok (sweep_contexts d) P T" using inv by (simp add: daemon_inv_def maps_ok_def)
  moreover have "generations_ok (sweep_contexts d) P"
    using inv wf by (auto simp: daemon_inv_def generations_ok_def sweep_lookup)
  ultimately show ?thesis by (simp add: daemon_inv_def)
qed

text \<open>What one operation guarantees: no panic, the invariant, its own namespace only.\<close>

definition op_ok :: "daemon \<Rightarrow> (conn_key \<Rightarrow> map_policy option) \<Rightarrow> (path_key \<Rightarrow> map_path option) \<Rightarrow>
    'r outcome \<Rightarrow> daemon \<Rightarrow> (conn_key \<Rightarrow> map_policy option) \<Rightarrow> (path_key \<Rightarrow> map_path option) \<Rightarrow> bool" where
  "op_ok d P T r d' P' T' \<longleftrightarrow>
     r \<noteq> Panic \<and> daemon_inv d' P' T' \<and> d_netns d' = d_netns d \<and> outside_same (d_netns d) P T P' T'"

lemma replace_context_inv:
  assumes inv: "daemon_inv d P T" and ok: "context_ok cid dc"
    and room: "map_of (d_contexts d) cid = None \<Longrightarrow> length (d_contexts d) < 1024"
    and flows: "\<And>cid' dc'. map_of (d_contexts d) cid' = Some dc' \<Longrightarrow>
      cp_Flow (cp_ContextSpec (dc_assignment dc)) = cp_Flow (cp_ContextSpec (dc_assignment dc')) \<Longrightarrow> cid' = cid"
    and gens: "\<And>old mp. map_of (d_contexts d) cid = Some old \<Longrightarrow> policy_follows mp (dc_assignment old) \<Longrightarrow>
      policy_follows mp (dc_assignment dc)"
  shows "daemon_inv (d\<lparr>d_contexts := go_set cid dc (d_contexts d)\<rparr>) P T"
proof -
  let ?d = "d\<lparr>d_contexts := go_set cid dc (d_contexts d)\<rparr>"
  have ctx: "contexts_ok (d_contexts d)" by (rule inv_contexts [OF inv])
  have new: "contexts_ok (d_contexts ?d)"
    unfolding contexts_ok_def
  proof (intro conjI allI impI)
    show "wf_map (d_contexts ?d)" using ctx by (simp add: contexts_ok_def)
    show "length (d_contexts ?d) \<le> 1024" using ctx room by (auto simp: contexts_ok_def length_go_set)
    show "context_ok cid' dc'" if "map_of (d_contexts ?d) cid' = Some dc'" for cid' dc'
      using that ctx ok by (auto simp: contexts_ok_def split: if_splits)
    show "cid1 = cid2"
      if "map_of (d_contexts ?d) cid1 = Some dc1" "map_of (d_contexts ?d) cid2 = Some dc2"
        "cp_Flow (cp_ContextSpec (dc_assignment dc1)) = cp_Flow (cp_ContextSpec (dc_assignment dc2))"
      for cid1 dc1 cid2 dc2
    proof (cases "cid1 = cid \<or> cid2 = cid")
      case True
      then show ?thesis using that flows by (auto split: if_splits)
    next
      case False
      then show ?thesis using that ctx by (simp add: contexts_ok_def)
    qed
  qed
  have conns: "connection_ok (d_contexts ?d) c" if "map_of (d_connections d) t = Some c" for t c
    using inv_connection [OF inv that] by (auto simp: connection_ok_def)
  have "state_ok ?d" using inv new conns by (simp add: daemon_inv_def state_ok_def)
  moreover have "maps_ok ?d P T" using inv by (simp add: daemon_inv_def maps_ok_def owned_def conn_of_def)
  moreover have "generations_ok ?d P"
    unfolding generations_ok_def
  proof (intro allI impI)
    fix t c dc' mp
    assume a: "map_of (d_connections ?d) t = Some c" "map_of (d_contexts ?d) (oc_owner c) = Some dc'"
      "P (conn_of ?d t) = Some mp"
    have c: "map_of (d_connections d) t = Some c" using a(1) by simp
    have mp: "P (conn_of d t) = Some mp" using a(3) by (simp add: conn_of_def)
    show "policy_follows mp (dc_assignment dc')"
    proof (cases "oc_owner c = cid")
      case True
      then have "dc' = dc" "oc_owner c \<noteq> []" using a(2) context_ok_id [OF ok] by simp_all
      then obtain old where old: "map_of (d_contexts d) cid = Some old"
        using inv_connection [OF inv c] True by (auto simp: connection_ok_def)
      have "policy_follows mp (dc_assignment old)" by (rule inv_follows [OF inv c _ mp]) (simp add: True old)
      then show ?thesis using gens [OF old] \<open>dc' = dc\<close> by simp
    next
      case False
      then show ?thesis using inv_follows [OF inv c _ mp] a(2) by simp
    qed
  qed
  ultimately show ?thesis by (simp add: daemon_inv_def)
qed

lemma admission_None:
  assumes "admission_error d a = None"
  shows "map_of (d_contexts d) (cp_ID (cp_ContextSpec a)) = None \<Longrightarrow> length (d_contexts d) < 1024 \<and>
      (\<forall>(cid, dc) \<in> set (d_contexts d). cp_Flow (cp_ContextSpec (dc_assignment dc)) \<noteq> cp_Flow (cp_ContextSpec a))"
    and "map_of (d_contexts d) (cp_ID (cp_ContextSpec a)) = Some old \<Longrightarrow>
      \<not> dc_deleting old \<and> cp_ContextSpec (dc_assignment old) = cp_ContextSpec a \<and>
      (cp_Generation (dc_assignment old) < cp_Generation a \<or> a = dc_assignment old)"
proof -
  show "length (d_contexts d) < 1024 \<and>
      (\<forall>(cid, dc) \<in> set (d_contexts d). cp_Flow (cp_ContextSpec (dc_assignment dc)) \<noteq> cp_Flow (cp_ContextSpec a))"
    if "map_of (d_contexts d) (cp_ID (cp_ContextSpec a)) = None"
    using assms that by (auto simp: admission_error_def list_ex_iff split: if_splits)
  show "\<not> dc_deleting old \<and> cp_ContextSpec (dc_assignment old) = cp_ContextSpec a \<and>
      (cp_Generation (dc_assignment old) < cp_Generation a \<or> a = dc_assignment old)"
    if "map_of (d_contexts d) (cp_ID (cp_ContextSpec a)) = Some old"
    using assms that by (auto simp: admission_error_def split: if_splits)
qed

lemma admitted_inv:
  assumes inv: "daemon_inv d P T" and valid: "Assignment_Validate a0 = None" and a: "a = canonical a0"
    and adm: "admission_error d a = None"
  shows "daemon_inv (d\<lparr>d_contexts := go_set (cp_ID (cp_ContextSpec a)) \<lparr>dc_assignment = a, dc_deleting = False\<rparr> (d_contexts d)\<rparr>) P T"
proof (rule replace_context_inv [OF inv])
  let ?id = "cp_ID (cp_ContextSpec a)"
  have ctx: "contexts_ok (d_contexts d)" by (rule inv_contexts [OF inv])
  show "context_ok ?id \<lparr>dc_assignment = a, dc_deleting = False\<rparr>"
    using valid a by (auto simp: context_ok_def)
  show "length (d_contexts d) < 1024" if "map_of (d_contexts d) ?id = None"
    using admission_None(1) [OF adm that] by simp
  show "cid' = ?id" if c: "map_of (d_contexts d) cid' = Some dc'"
    and f: "cp_Flow (cp_ContextSpec (dc_assignment \<lparr>dc_assignment = a, dc_deleting = False\<rparr>)) =
      cp_Flow (cp_ContextSpec (dc_assignment dc'))" for cid' dc'
  proof (cases "map_of (d_contexts d) ?id")
    case None
    then show ?thesis using admission_None(1) [OF adm None] map_of_SomeD [OF c] f by auto
  next
    case (Some old)
    have "cp_Flow (cp_ContextSpec (dc_assignment dc')) = cp_Flow (cp_ContextSpec (dc_assignment old))"
      using admission_None(2) [OF adm Some] f by simp
    then show ?thesis using ctx c Some unfolding contexts_ok_def by blast
  qed
  show "policy_follows mp (dc_assignment \<lparr>dc_assignment = a, dc_deleting = False\<rparr>)"
    if "map_of (d_contexts d) ?id = Some old" "policy_follows mp (dc_assignment old)" for old mp
    using admission_None(2) [OF adm that(1)] that(2)
    by (auto simp: policy_follows_def assigned_policy_def)
qed

lemma deleting_inv:
  assumes inv: "daemon_inv d P T" and c: "map_of (d_contexts d) cid = Some dc"
  shows "daemon_inv (d\<lparr>d_contexts := go_set cid (dc\<lparr>dc_deleting := True\<rparr>) (d_contexts d)\<rparr>) P T"
proof (rule replace_context_inv [OF inv])
  have ctx: "contexts_ok (d_contexts d)" by (rule inv_contexts [OF inv])
  show "context_ok cid (dc\<lparr>dc_deleting := True\<rparr>)" using ctx c by (simp add: contexts_ok_def context_ok_def)
  show "cid' = cid" if "map_of (d_contexts d) cid' = Some dc'"
    and "cp_Flow (cp_ContextSpec (dc_assignment (dc\<lparr>dc_deleting := True\<rparr>))) = cp_Flow (cp_ContextSpec (dc_assignment dc'))"
    for cid' dc'
    using ctx c that unfolding contexts_ok_def by (metis desired_context.select_convs(1) desired_context.surjective desired_context.update_convs(2))
qed (use c in simp_all)

lemma new_connection_ok [simp]: "connection_ok m new_connection" "oc_owner new_connection = []"
  by (simp_all add: connection_ok_def new_connection_def)

lemma record_initial_ok:
  "record_initial e c = Inr c1 \<Longrightarrow> connection_ok m c \<Longrightarrow> connection_ok m c1 \<and> oc_owner c1 = oc_owner c"
  by (auto simp: record_initial_def connection_ok_def split: if_splits)

lemma record_flow_ok:
  assumes run: "record_flow e c = Inr c1" and ok: "connection_ok m c"
  shows "connection_ok m c1 \<and> oc_owner c1 = oc_owner c"
proof (cases "ev_Type e = EventSubClosed")
  case True
  have "length (go_delete (eventFlow e) (oc_flows c)) \<le> length (oc_flows c)" by (rule length_go_delete_le)
  then show ?thesis using True run ok by (auto simp: record_flow_def connection_ok_def split: if_splits)
next
  case False
  then show ?thesis using run ok by (auto simp: record_flow_def connection_ok_def length_go_set split: if_splits)
qed

text \<open>Replacing the record of one connection, the maps untouched.\<close>

lemma replace_connection_inv:
  assumes inv: "daemon_inv d P T" and ok: "connection_ok (d_contexts d) c'"
    and old: "case map_of (d_connections d) t of
        None \<Rightarrow> oc_owner c' = [] \<and> length (d_connections d) < 4096 | Some c \<Rightarrow> oc_owner c' = oc_owner c"
  shows "daemon_inv (set_connection t c' d) P T"
proof (rule inv_set_connection [OF inv touches_refl _ ok])
  have m: "maps_ok d P T" using inv by (simp add: daemon_inv_def)
  show "unmapped (conn_of d t) P T" if "oc_owner c' = []"
  proof (cases "map_of (d_connections d) t")
    case None
    then have "\<not> owned d t" by (simp add: owned_def)
    then show ?thesis using m [unfolded maps_ok_alt] by (metis conn_of_simps(1,2))
  next
    case (Some c)
    then show ?thesis using inv_unowned [OF inv Some] old that by simp
  qed
  show "policy_follows mp (dc_assignment dc)"
    if ctx: "map_of (d_contexts d) (oc_owner c') = Some dc" and mp: "P (conn_of d t) = Some mp" for dc mp
  proof (cases "map_of (d_connections d) t")
    case None
    then show ?thesis using old ctx no_context_without_id [OF inv_contexts [OF inv]] by simp
  next
    case (Some c)
    then show ?thesis using inv_follows [OF inv Some _ mp] old ctx by simp
  qed
qed (use old in \<open>auto split: option.splits\<close>)

context daemon_laws
begin

lemma reconcileLocked_ok:
  assumes inv: "daemon_inv d (pol w) (pth w)" and run: "reconcileLocked s d w = (r, d', w')"
  shows "op_ok d (pol w) (pth w) r d' (pol w') (pth w') \<and> d_fatal d' = d_fatal d"
proof -
  obtain ns w1 where mo: "MapOrder s w = (ns, w1)" by force
  have f: "pol w1 = pol w" "pth w1 = pth w" using MapOrder_frame [OF mo] by simp_all
  obtain x d1 w2 where rc: "reconcile_connections s (map fst (go_range ns (d_connections d))) [] d w1 = (x, d1, w2)"
    by (metis prod.exhaust)
  note i = reconcile_connections_inv [OF _ rc, unfolded f, OF inv]
  then obtain fs where "x = Ok fs" by auto
  then have "r = error_outcome (errors_Join (map Some fs))" "d' = sweep_contexts d1" "w' = w2"
    using run mo rc by (simp_all add: reconcileLocked_def)
  then show ?thesis using i sweep_inv by (simp add: op_ok_def)
qed

lemma reconcile_ignored_ok:
  assumes inv: "daemon_inv d (pol w) (pth w)" and run: "reconcile_ignored s d w = (r, d', w')"
  shows "op_ok d (pol w) (pth w) r d' (pol w') (pth w')"
proof -
  obtain x d1 w1 where rl: "reconcileLocked s d w = (x, d1, w1)" by (metis prod.exhaust)
  note ok = reconcileLocked_ok [OF inv rl]
  then have "r = Ok ()" "d' = d1" "w' = w1" using run rl by (cases x; simp add: reconcile_ignored_def op_ok_def)+
  with ok show ?thesis by (simp add: op_ok_def)
qed

lemma validate_legs_frame:
  "validate_legs s ls w = (e, w') \<Longrightarrow> pol w' = pol w \<and> pth w' = pth w"
proof (induction ls arbitrary: w)
  case Nil
  then show ?case by simp
next
  case (Cons l ls)
  obtain r w1 where v: "ValidateAddr s l w = (r, w1)" by force
  note f = ValidateAddr_frame [OF v]
  show ?case
  proof (cases r)
    case (Inl x)
    then show ?thesis using Cons.prems v f by simp
  next
    case (Inr i)
    then have "validate_legs s ls w1 = (e, w')" using Cons.prems v by simp
    from Cons.IH [OF this] f show ?thesis by simp
  qed
qed

lemma op_ok_refl: "daemon_inv d (pol w) (pth w) \<Longrightarrow> pol w' = pol w \<Longrightarrow> pth w' = pth w \<Longrightarrow>
    op_ok d (pol w) (pth w) (Err e) d (pol w') (pth w')"
  by (simp add: op_ok_def)

lemma Daemon_Put_ok:
  assumes inv: "daemon_inv d (pol w) (pth w)" and run: "Daemon_Put s a0 d w = (r, d', w')"
  shows "op_ok d (pol w) (pth w) r d' (pol w') (pth w')"
proof -
  let ?a = "canonical a0"
  obtain e w1 where vl: "validate_legs s [cp_A (cp_Legs (cp_ContextSpec ?a)), cp_B (cp_Legs (cp_ContextSpec ?a))] w = (e, w1)"
    by force
  have f: "pol w1 = pol w" "pth w1 = pth w" using validate_legs_frame [OF vl] by simp_all
  consider (stop) x where "r = Err x" "d' = d" "w' = w" | (reject) x where "r = Err x" "d' = d" "w' = w1"
    | (go) "Assignment_Validate a0 = None" "admission_error d ?a = None"
        "reconcileLocked s (d\<lparr>d_contexts := go_set (cp_ID (cp_ContextSpec ?a))
           \<lparr>dc_assignment = ?a, dc_deleting = False\<rparr> (d_contexts d)\<rparr>) w1 = (r, d', w')"
    using run vl
    by (cases "Assignment_Validate a0"; cases "d_fatal d"; cases e; cases "admission_error d ?a") (auto simp: Daemon_Put_def Let_def)
  then show ?thesis
  proof cases
    case stop
    then show ?thesis using inv by (simp add: op_ok_def)
  next
    case reject
    then show ?thesis using inv f by (simp add: op_ok_def)
  next
    case go
    note inv' = admitted_inv [OF inv go(1) refl go(2)]
    from reconcileLocked_ok [OF _ go(3)] inv' f show ?thesis by (simp add: op_ok_def)
  qed
qed

lemma Daemon_Delete_ok:
  assumes inv: "daemon_inv d (pol w) (pth w)" and run: "Daemon_Delete s cid d w = (r, d', w')"
  shows "op_ok d (pol w) (pth w) r d' (pol w') (pth w')"
proof (cases "map_of (d_contexts d) cid")
  case None
  then show ?thesis using reconcileLocked_ok [OF inv, of r d' w'] run by (simp add: Daemon_Delete_def)
next
  case (Some c)
  note inv' = deleting_inv [OF inv Some]
  from run Some have "reconcileLocked s (d\<lparr>d_contexts := go_set cid (c\<lparr>dc_deleting := True\<rparr>) (d_contexts d)\<rparr>) w = (r, d', w')"
    by (simp add: Daemon_Delete_def)
  from reconcileLocked_ok [OF inv' this] show ?thesis by (simp add: op_ok_def)
qed

lemma observe_open_ok:
  assumes inv: "daemon_inv d (pol w) (pth w)" and ok: "connection_ok (d_contexts d) c"
    and old: "case map_of (d_connections d) (ev_Token e) of
        None \<Rightarrow> oc_owner c = [] \<and> length (d_connections d) < 4096 | Some c0 \<Rightarrow> oc_owner c = oc_owner c0"
    and run: "observe_open s e c d w = (r, d', w')"
  shows "op_ok d (pol w) (pth w) r d' (pol w') (pth w')"
proof -
  let ?t = "ev_Token e"
  have i0: "daemon_inv (set_connection ?t c d) (pol w) (pth w)" by (rule replace_connection_inv [OF inv ok old])
  have i1: "daemon_inv (set_connection ?t c' (set_connection ?t c d)) (pol w) (pth w)"
    if "connection_ok (d_contexts d) c'" "oc_owner c' = oc_owner c" for c'
    by (rule replace_connection_inv [OF i0]) (simp_all add: that)
  show ?thesis
  proof (cases "record_initial e c")
    case (Inl x)
    then have "r = Err x" "d' = set_connection ?t c d" "w' = w" using run by (simp_all add: observe_open_def)
    then show ?thesis using i0 by (simp add: op_ok_def)
  next
    case (Inr c1)
    note ok1 = record_initial_ok [OF Inr ok]
    show ?thesis
    proof (cases "record_flow e c1")
      case (Inl x)
      then have "r = Err x" "d' = set_connection ?t c1 (set_connection ?t c d)" "w' = w"
        using run Inr by (simp_all add: observe_open_def)
      then show ?thesis using i1 [of c1] ok1 by (simp add: op_ok_def)
    next
      case c2: (Inr c2)
      have ok2: "connection_ok (d_contexts d) c2 \<and> oc_owner c2 = oc_owner c"
        using record_flow_ok [OF c2, of "d_contexts d"] ok1 by simp
      have "reconcile_ignored s (set_connection ?t c2 (set_connection ?t c d)) w = (r, d', w')"
        using run Inr c2 by (simp add: observe_open_def)
      from reconcile_ignored_ok [OF i1 this] ok2 show ?thesis by (simp add: op_ok_def)
    qed
  qed
qed

lemma Daemon_Observe_ok:
  assumes inv: "daemon_inv d (pol w) (pth w)" and run: "Daemon_Observe s e d w = (r, d', w')"
  shows "op_ok d (pol w) (pth w) r d' (pol w') (pth w')"
proof -
  let ?found = "map_of (d_connections d) (ev_Token e)"
  consider (same) x where "r = x" "x \<noteq> Panic" "d' = d" "w' = w"
    | (closed) "reconcile_ignored s (case ?found of None \<Rightarrow> d
          | Some c \<Rightarrow> set_connection (ev_Token e) (c\<lparr>oc_closed := True\<rparr>) d) w = (r, d', w')"
    | (known) c where "?found = Some c" "observe_open s e c d w = (r, d', w')"
    | (fresh) "?found = None" "length (d_connections d) < 4096" "observe_open s e new_connection d w = (r, d', w')"
    using run by (auto simp: Daemon_Observe_def Let_def not_le split: if_splits option.splits)
  then show ?thesis
  proof cases
    case same
    then show ?thesis using inv by (simp add: op_ok_def)
  next
    case closed
    show ?thesis
    proof (cases ?found)
      case None
      then show ?thesis using reconcile_ignored_ok [OF inv] closed by simp
    next
      case (Some c)
      have "daemon_inv (set_connection (ev_Token e) (c\<lparr>oc_closed := True\<rparr>) d) (pol w) (pth w)"
        by (rule replace_connection_inv [OF inv])
          (use inv_connection [OF inv Some] Some in \<open>simp_all add: connection_ok_def\<close>)
      from reconcile_ignored_ok [OF this] closed Some show ?thesis by (simp add: op_ok_def)
    qed
  next
    case known
    show ?thesis by (rule observe_open_ok [OF inv inv_connection [OF inv known(1)] _ known(2)]) (simp add: known(1))
  next
    case fresh
    show ?thesis by (rule observe_open_ok [OF inv _ _ fresh(3)]) (simp_all add: fresh)
  qed
qed

end

end
