(* ===== verification/DaemonConverge.thy ===== *)
theory DaemonConverge
  imports DaemonInv
begin

text \<open>
  What a successful reconciliation leaves in the maps. \<open>settled\<close> is the specification of one
  connection: nothing while a leg has no observed flow, otherwise the assigned policy and exactly
  the paths of its observed flows. A reconciliation that returns no error has settled every
  connection, dropped the closed ones and removed the contexts marked for deletion. The same file
  treats \<open>Cleanup\<close>, which empties the namespace when it returns no error.
\<close>

section \<open>The specification of one connection\<close>

definition on_leg_a :: "cp_assignment \<Rightarrow> pm_event \<Rightarrow> bool" where
  "on_leg_a a e \<longleftrightarrow> ev_LocalAddress e = mustAddress (cp_LocalAddress (cp_A (cp_Legs (cp_ContextSpec a))))"

definition on_leg_b :: "cp_assignment \<Rightarrow> pm_event \<Rightarrow> bool" where
  "on_leg_b a e \<longleftrightarrow> \<not> on_leg_a a e \<and>
     ev_LocalAddress e = mustAddress (cp_LocalAddress (cp_B (cp_Legs (cp_ContextSpec a))))"

definition event_pair :: "pm_event \<Rightarrow> u32 \<times> u32" where
  "event_pair e = (ucast (ev_LocalID e), ucast (ev_RemoteID e))"

definition leg_pairs :: "(pm_event \<Rightarrow> bool) \<Rightarrow> observed_connection \<Rightarrow> (u32 \<times> u32) set" where
  "leg_pairs P c = set (map event_pair (filter P (map snd (oc_flows c))))"

definition topology :: "cp_assignment \<Rightarrow> observed_connection \<Rightarrow> path_key \<Rightarrow> map_path option" where
  "topology a c q =
     (if (pk_LocalID q, pk_RemoteID q) \<in> leg_pairs (on_leg_b a) c
      then Some \<lparr>path_Generation = cp_Generation a, path_Access = 1\<rparr>
      else if (pk_LocalID q, pk_RemoteID q) \<in> leg_pairs (on_leg_a a) c
      then Some \<lparr>path_Generation = cp_Generation a, path_Access = 0\<rparr>
      else None)"

definition settled :: "conn_key \<Rightarrow> cp_assignment \<Rightarrow> observed_connection \<Rightarrow>
    (conn_key \<Rightarrow> map_policy option) \<Rightarrow> (path_key \<Rightarrow> map_path option) \<Rightarrow> bool" where
  "settled key a c P T \<longleftrightarrow>
     (if leg_pairs (on_leg_a a) c = {} \<or> leg_pairs (on_leg_b a) c = {} then unmapped key P T
      else P key = Some (assigned_policy a) \<and> (\<forall>q. pk_Conn q = key \<longrightarrow> T q = topology a c q))"

section \<open>The planned endpoints\<close>

definition index_agrees :: "pm_event \<Rightarrow> int \<Rightarrow> bool" where
  "index_agrees e i \<longleftrightarrow> ev_IfIndex e = 0 \<or> sint (ev_IfIndex e) = i"

definition flow_endpoint :: "pm_event \<Rightarrow> endpoint" where
  "flow_endpoint e = \<lparr>LocalID = Some (fst (event_pair e)), RemoteID = Some (snd (event_pair e))\<rparr>"

lemma flow_endpoint_pair [simp]: "endpoint_pair (flow_endpoint e) = Some (event_pair e)"
  by (simp add: endpoint_pair_def flow_endpoint_def)

text \<open>One flow: on neither leg, on leg A, on leg B.\<close>

lemma plan_flows_skip:
  "\<not> on_leg_a a e \<Longrightarrow> \<not> on_leg_b a e \<Longrightarrow>
    plan_flows (cp_Legs (cp_ContextSpec a)) ia ib (e # es) seen as bs = plan_flows (cp_Legs (cp_ContextSpec a)) ia ib es seen as bs"
  by (simp add: on_leg_a_def on_leg_b_def)

lemma plan_flows_a:
  assumes "on_leg_a a e"
  shows "plan_flows (cp_Legs (cp_ContextSpec a)) ia ib (e # es) seen as bs = Inr r \<longleftrightarrow> index_agrees e ia \<and>
    (case map_of seen (event_pair e) of
       None \<Rightarrow> plan_flows (cp_Legs (cp_ContextSpec a)) ia ib es (go_set (event_pair e) 0 seen) (as @ [flow_endpoint e]) bs = Inr r
     | Some v \<Rightarrow> v = 0 \<and> plan_flows (cp_Legs (cp_ContextSpec a)) ia ib es seen as bs = Inr r)"
  using assms
  by (cases "map_of seen (event_pair e)")
    (auto simp: on_leg_a_def event_pair_def flow_endpoint_def index_agrees_def Let_def split: if_splits)

lemma plan_flows_b:
  assumes "on_leg_b a e"
  shows "plan_flows (cp_Legs (cp_ContextSpec a)) ia ib (e # es) seen as bs = Inr r \<longleftrightarrow> index_agrees e ib \<and>
    (case map_of seen (event_pair e) of
       None \<Rightarrow> plan_flows (cp_Legs (cp_ContextSpec a)) ia ib es (go_set (event_pair e) 1 seen) as (bs @ [flow_endpoint e]) = Inr r
     | Some v \<Rightarrow> v = 1 \<and> plan_flows (cp_Legs (cp_ContextSpec a)) ia ib es seen as bs = Inr r)"
  using assms
  by (cases "map_of seen (event_pair e)")
    (auto simp: on_leg_a_def on_leg_b_def event_pair_def flow_endpoint_def index_agrees_def Let_def split: if_splits)

lemma leg_cases:
  obtains (skip) "\<not> on_leg_a a e" "\<not> on_leg_b a e" | (a) "on_leg_a a e" "\<not> on_leg_b a e" | (b) "on_leg_b a e" "\<not> on_leg_a a e"
  by (auto simp: on_leg_b_def)

lemma plan_flows_pairs:
  assumes "plan_flows (cp_Legs (cp_ContextSpec a)) ia ib es seen as bs = Inr (as', bs')"
    and "\<forall>p. map_of seen p = Some 0 \<longleftrightarrow> Some p \<in> endpoint_pair ` set as"
    and "\<forall>p. map_of seen p = Some 1 \<longleftrightarrow> Some p \<in> endpoint_pair ` set bs"
  shows "endpoint_pair ` set as' = endpoint_pair ` set as \<union> Some ` event_pair ` set (filter (on_leg_a a) es) \<and>
    endpoint_pair ` set bs' = endpoint_pair ` set bs \<union> Some ` event_pair ` set (filter (on_leg_b a) es)"
  using assms
proof (induction es arbitrary: seen as bs)
  case Nil
  then show ?case by simp
next
  case (Cons e es)
  note ih = Cons.IH [OF _ Cons.prems(2,3)]
  show ?case
  proof (cases rule: leg_cases [of a e])
    case skip
    then show ?thesis using ih [OF Cons.prems(1) [unfolded plan_flows_skip [OF skip]]] by simp
  next
    case a
    note run = Cons.prems(1) [unfolded plan_flows_a [OF a(1)]]
    show ?thesis
    proof (cases "map_of seen (event_pair e)")
      case None
      then have "Some (event_pair e) \<notin> endpoint_pair ` set bs" using Cons.prems(3) by (metis option.distinct(1))
      then show ?thesis
        using Cons.IH [of "go_set (event_pair e) 0 seen" "as @ [flow_endpoint e]" bs] run None Cons.prems(2,3) a by auto
    next
      case (Some v)
      then have "v = 0" using run by simp
      then have "Some (event_pair e) \<in> endpoint_pair ` set as" using Some Cons.prems(2) by blast
      then show ?thesis using ih run Some a by auto
    qed
  next
    case b
    note run = Cons.prems(1) [unfolded plan_flows_b [OF b(1)]]
    show ?thesis
    proof (cases "map_of seen (event_pair e)")
      case None
      then have "Some (event_pair e) \<notin> endpoint_pair ` set as" using Cons.prems(2) by (metis option.distinct(1))
      then show ?thesis
        using Cons.IH [of "go_set (event_pair e) 1 seen" as "bs @ [flow_endpoint e]"] run None Cons.prems(2,3) b by auto
    next
      case (Some v)
      then have "v = 1" using run by simp
      then have "Some (event_pair e) \<in> endpoint_pair ` set bs" using Some Cons.prems(3) by blast
      then show ?thesis using ih run Some b by auto
    qed
  qed
qed

lemma Daemon_plan_pairs:
  assumes run: "Daemon_plan s c a w = (Inr p, w')" and wf: "wf_map (oc_flows c)"
  obtains as bs where "plan_Policy p = plan_policy a as bs"
    "endpoint_pair ` set as = Some ` leg_pairs (on_leg_a a) c" "endpoint_pair ` set bs = Some ` leg_pairs (on_leg_b a) c"
proof -
  from run obtain ns ia ib as bs where
    pf: "plan_flows (cp_Legs (cp_ContextSpec a)) ia ib (map snd (go_range ns (oc_flows c))) [] [] [] = Inr (as, bs)"
    and p: "plan_Policy p = plan_policy a as bs"
    by (auto simp: Daemon_plan_def Let_def split: prod.splits sum.splits)
  have "set (filter P (map snd (go_range ns (oc_flows c)))) = set (filter P (map snd (oc_flows c)))" for P
    by simp
  with plan_flows_pairs [OF pf] p that show thesis by (simp add: leg_pairs_def)
qed

lemma plan_policy_paths:
  assumes "endpoint_pair ` set as = Some ` leg_pairs (on_leg_a a) c" "endpoint_pair ` set bs = Some ` leg_pairs (on_leg_b a) c"
    and "pk_Conn q = key"
  shows "desired_path (plan_policy a as bs) key q = topology a c q"
proof -
  have "Endpoints (LegA (Legs (plan_policy a as bs))) = as" "Endpoints (LegB (Legs (plan_policy a as bs))) = bs"
    "Generation (plan_policy a as bs) = cp_Generation a"
    by (simp_all add: plan_policy_def Let_def)
  then show ?thesis using assms by (auto simp: desired_path_def topology_def Let_def)
qed

section \<open>Repairing the paths\<close>

context map_store_laws
begin

lemma repair_updates_ok:
  assumes "repair_updates s before kvs w = (None, w')" "distinct (map fst kvs)"
    and "\<forall>v \<in> snd ` set kvs. v \<noteq> zero_path" "\<forall>k \<in> fst ` set kvs. map_of before k = pth w k"
  shows "pth w' = pth w ++ map_of kvs"
  using assms
proof (induction kvs arbitrary: w)
  case Nil
  then show ?case by simp
next
  case (Cons kv kvs)
  obtain k v where kv: "kv = (k, v)" by force
  have fresh: "k \<notin> dom (map_of kvs)" using Cons.prems(2) kv by (simp add: dom_map_of_conv_image_fst)
  have before: "map_of before k = pth w k" and v: "v \<noteq> zero_path" using Cons.prems(3,4) kv by simp_all
  obtain u w1 where up: "UpdatePath s k v w = (u, w1)" by force
  show ?case
  proof (cases "(case map_of before k of None \<Rightarrow> zero_path | Some x \<Rightarrow> x) = v")
    case True
    then have "pth w k = Some v" using v before by (simp split: option.splits)
    then have "pth w = (pth w)(k \<mapsto> v)" by (simp add: fun_upd_idem)
    moreover have "pth w' = pth w ++ map_of kvs"
      using Cons.prems True kv by (intro Cons.IH) auto
    ultimately show ?thesis using fresh kv by (metis map_add_upd_left map_of.simps(2) fst_conv snd_conv map_add_upd)
  next
    case False
    then have "u = None" and rest: "repair_updates s before kvs w1 = (None, w')"
      using Cons.prems(1) kv up by (auto split: option.splits)
    then have w1: "pth w1 = (pth w)(k \<mapsto> v)" using UpdatePath_ok up by simp
    have keep: "\<forall>k' \<in> fst ` set kvs. map_of before k' = pth w1 k'"
      using Cons.prems(4) fresh kv by (auto simp: w1 dom_map_of_conv_image_fst)
    have "pth w' = pth w1 ++ map_of kvs" using Cons.prems(2,3) kv by (intro Cons.IH [OF rest _ _ keep]) auto
    then show ?thesis using fresh kv w1 by (metis map_add_upd_left map_of.simps(2) fst_conv snd_conv map_add_upd)
  qed
qed

lemma repair_deletes_ok:
  assumes "repair_deletes s want ks w = (None, w')"
  shows "pth w' q = (if q \<in> set ks \<and> map_of want q = None then None else pth w q)"
  using assms
proof (induction ks arbitrary: w)
  case Nil
  then show ?case by simp
next
  case (Cons k ks)
  obtain u w1 where del: "DeletePath s k w = (u, w1)" by force
  show ?case
  proof (cases "map_of want k = None")
    case True
    then have rest: "repair_deletes s want ks w1 = (None, w')" and u: "\<And>e. u = Some e \<Longrightarrow> errors_Is e ErrNotFound"
      using Cons.prems del by (auto split: option.splits if_splits)
    have "pth w1 = (pth w)(k := None)" by (rule DeletePath_done [OF del u])
    with Cons.IH [OF rest] True show ?thesis by simp
  next
    case False
    then show ?thesis using Cons.IH [of w] Cons.prems by auto
  qed
qed

lemma repair_ok:
  assumes run: "repair s key want w = (None, w')" and want: "wf_map want" "\<forall>v \<in> snd ` set want. v \<noteq> zero_path"
    "\<forall>q \<in> fst ` set want. pk_Conn q = key" and q: "pk_Conn q = key"
  shows "pth w' q = map_of want q"
proof -
  obtain before pe w1 where ps: "Paths s key w = ((before, pe), w1)" by (metis prod.exhaust)
  have pe: "pe = None" using run ps by (cases pe) (auto simp: repair_def)
  have before: "map_of before = paths_of (pth w) key" using Paths_ok [of key w before w1] ps pe by simp
  have f1: "pth w1 = pth w" using Paths_frame [OF ps] by simp
  obtain ns w2 where mo: "MapOrder s w1 = (ns, w2)" by force
  have f2: "pth w2 = pth w" using MapOrder_frame [OF mo] f1 by simp
  obtain ue w3 where up: "repair_updates s before (go_range ns want) w2 = (ue, w3)" by force
  obtain ns' w4 where mo': "MapOrder s w3 = (ns', w4)" by force
  have ue: "ue = None" using run ps pe mo up by (cases ue) (simp_all add: repair_def)
  have del: "repair_deletes s want (map fst (go_range ns' before)) w4 = (None, w')"
    using run ps pe mo up ue mo' by (simp add: repair_def)
  have "pth w3 = pth w2 ++ map_of (go_range ns want)"
  proof (rule repair_updates_ok [OF up [unfolded ue]])
    show "\<forall>k \<in> fst ` set (go_range ns want). map_of before k = pth w2 k" using want(3) f2 by (simp add: before)
  qed (use want in simp_all)
  then have w3: "pth w4 = pth w ++ map_of want" using f2 want(1) MapOrder_frame [OF mo'] by simp
  have "q \<in> set (map fst (go_range ns' before)) \<longleftrightarrow> pth w q \<noteq> None"
  proof -
    have "q \<in> fst ` set before \<longleftrightarrow> map_of before q \<noteq> None" by (simp add: map_of_eq_None_iff)
    then show ?thesis using q by (simp add: before)
  qed
  then show ?thesis using repair_deletes_ok [OF del, of q] w3 by (auto simp: map_add_def split: option.splits if_splits)
qed

end

section \<open>A successful step settles its connection\<close>

lemma DesiredPaths_nonzero:
  assumes "DesiredPaths p key = Inr m" "Generation p \<noteq> 0"
  shows "\<forall>v \<in> snd ` set m. v \<noteq> zero_path"
proof
  fix v assume "v \<in> snd ` set m"
  then obtain q where "(q, v) \<in> set m" by auto
  then have "desired_path p key q = Some v"
    using DesiredPaths_spec [OF assms(1)] by (metis map_of_is_SomeI)
  then show "v \<noteq> zero_path" using assms(2) by (auto simp: desired_path_def Let_def zero_path_def split: if_splits)
qed

lemma empty_endpoints: "endpoint_pair ` set as = Some ` X \<Longrightarrow> as = [] \<longleftrightarrow> X = {}"
  by auto

text \<open>What a connection looks like after a step that reported no failure.\<close>

definition conn_done :: "daemon \<Rightarrow> (conn_key \<Rightarrow> map_policy option) \<Rightarrow> (path_key \<Rightarrow> map_path option) \<Rightarrow> u32 \<Rightarrow> bool" where
  "conn_done d P T t \<longleftrightarrow>
     (\<forall>c. map_of (d_connections d) t = Some c \<longrightarrow> \<not> oc_closed c \<and>
        (oc_owner c = [] \<longrightarrow> unmapped (conn_of d t) P T) \<and>
        (\<forall>dc. map_of (d_contexts d) (oc_owner c) = Some dc \<longrightarrow>
           \<not> dc_deleting dc \<and> settled (conn_of d t) (dc_assignment dc) c P T))"

lemma context_generation: "contexts_ok m \<Longrightarrow> map_of m cid = Some dc \<Longrightarrow> cp_Generation (dc_assignment dc) \<noteq> 0"
proof -
  assume "contexts_ok m" "map_of m cid = Some dc"
  then have "context_ok cid dc" by (simp add: contexts_ok_def)
  then show ?thesis by (auto simp: context_ok_def Assignment_Validate_ok canonical_def)
qed

context daemon_laws
begin

text \<open>The plan of a connection, read as a topology.\<close>

lemma planned_topology:
  assumes pl: "Daemon_plan s c a w = (Inr p, w1)" and wf: "wf_map (oc_flows c)"
  shows "no_endpoints p \<longleftrightarrow> leg_pairs (on_leg_a a) c = {} \<or> leg_pairs (on_leg_b a) c = {}"
    "pk_Conn q = key \<Longrightarrow> desired_path (plan_Policy p) key q = topology a c q" "Generation (plan_Policy p) = cp_Generation a"
proof -
  from Daemon_plan_pairs [OF pl wf] obtain as bs where p: "plan_Policy p = plan_policy a as bs"
    and as: "endpoint_pair ` set as = Some ` leg_pairs (on_leg_a a) c"
    and bs: "endpoint_pair ` set bs = Some ` leg_pairs (on_leg_b a) c" by blast
  have "Endpoints (LegA (Legs (plan_Policy p))) = as" "Endpoints (LegB (Legs (plan_Policy p))) = bs"
    by (simp_all add: p plan_policy_def Let_def)
  then show "no_endpoints p \<longleftrightarrow> leg_pairs (on_leg_a a) c = {} \<or> leg_pairs (on_leg_b a) c = {}"
    using empty_endpoints [OF as] empty_endpoints [OF bs] by (simp add: no_endpoints_def)
  show "pk_Conn q = key \<Longrightarrow> desired_path (plan_Policy p) key q = topology a c q"
    unfolding p by (rule plan_policy_paths [OF as bs])
  show "Generation (plan_Policy p) = cp_Generation a" by (simp add: p plan_policy_def Let_def)
qed

lemma applyConnection_settles:
  assumes run: "applyConnection s key c a w = (Ok u, w')" and wf: "wf_map (oc_flows c)" and gen: "cp_Generation a \<noteq> 0"
  shows "settled key a c (pol w') (pth w')"
  using run
proof (cases rule: applyConnection_cases)
  case (one_leg p w1 e)
  then have "e = None" by (cases e) simp_all
  then show ?thesis
    using DeleteLive_touches(3) [OF one_leg(3)] one_leg(2) planned_topology(1) [OF one_leg(1) wf]
    by (simp add: settled_def unmapped_def)
next
  case (repaired p w1 want w2 e)
  have e: "e = None" using repaired(6) by (cases e) simp_all
  note t = planned_topology [OF repaired(1) wf]
  note d = DesiredPaths_spec [OF repaired(3)] DesiredPaths_nonzero [OF repaired(3)]
  have conn: "\<forall>q \<in> fst ` set want. pk_Conn q = key" using DesiredPaths_conn [OF repaired(3)] by blast
  have "pol w2 key = Some (assigned_policy a)"
    using LookupPolicy_found [OF repaired(4)] LookupPolicy_frame [OF repaired(4)] by simp
  moreover have "pth w' q = topology a c q" if "pk_Conn q = key" for q
    using repair_ok [OF repaired(5) [unfolded e] d(1) _ conn that] d(2,3) t(2) [OF that] t(3) gen by simp
  ultimately show ?thesis
    using repaired(2) t(1) repair_effect(1) [OF repaired(5) conn] by (simp add: settled_def)
next
  case (applied p w1 want old w2)
  note t = planned_topology [OF applied(1) wf] and mp = Daemon_plan_MapPolicy [OF applied(1)]
  have "pol w' key = Some (assigned_policy a) \<and> (\<forall>q. pk_Conn q = key \<longrightarrow> pth w' q = topology a c q)"
    using applied(6)
  proof (cases rule: ApplyLive_phases)
    case (committed desired mp' fs)
    have "fs = []" using committed(6) by (auto simp: cleanup_error_def errors_Join_map_Some split: option.splits if_splits)
    then show ?thesis using committed(5,7,12) mp DesiredPaths_spec(2) [OF committed(4)] t(2) by simp
  qed simp_all
  then show ?thesis using applied(2) t(1) by (simp add: settled_def)
next
  case (unplanned e w1 cl)
  from unplanned(3) [symmetric] have False by simp
  then show ?thesis ..
qed simp_all

lemma release_done:
  assumes inv: "daemon_inv d (pol w) (pth w)" and c: "map_of (d_connections d) t = Some c"
    and run: "release s t c d w = ([], d', w')"
  shows "conn_done d' (pol w') (pth w') t"
proof -
  obtain e w1 where del: "(if oc_owner c \<noteq> [] then DeleteLive s (conn_of d t) w else (None, w)) = (e, w1)" by force
  have e: "e = None" using run del by (cases e) (auto simp: release_def)
  have un: "unmapped (conn_of d t) (pol w1) (pth w1)"
  proof (cases "oc_owner c = []")
    case True
    then show ?thesis using del inv_unowned [OF inv c] by simp
  next
    case False
    then have "DeleteLive s (conn_of d t) w = (None, w1)" using del e by simp
    from DeleteLive_touches(3) [OF this] show ?thesis by (simp add: unmapped_def)
  qed
  have w': "w' = w1" using run del e by (simp add: release_def split: if_splits)
  note nc = no_context_without_id [OF inv_contexts [OF inv]]
  show ?thesis
  proof (cases "oc_closed c")
    case True
    then have "d' = drop_connection t d" using run del e by (simp add: release_def)
    then show ?thesis by (simp add: conn_done_def)
  next
    case False
    then have "d' = set_connection t (c\<lparr>oc_owner := [], oc_lastError := None\<rparr>) d" using run del e by (simp add: release_def)
    then show ?thesis using False un w' nc by (simp add: conn_done_def)
  qed
qed

lemma assigned_stays:
  assumes inv: "daemon_inv d (pol w) (pth w)" and go: "\<not> stops d c" and run: "assign_owner s d c w = (c1, Some dc, w1)"
  shows "\<not> dc_deleting dc"
proof (cases "oc_owner c = []")
  case True
  then show ?thesis using run no_context_without_id [OF inv_contexts [OF inv]]
    by (auto simp: assign_owner_def find_owner_def Let_def context_matches_def
        dest!: find_holds split: option.splits prod.splits if_splits)
next
  case False
  note a = assign_owner_spec [OF inv run]
  have "map_of (d_contexts d) (oc_owner c) = Some dc" using a(3,5) False by simp
  then show ?thesis using go by (simp add: stops_def)
qed

lemma reconcile_connection_done:
  assumes inv: "daemon_inv d (pol w) (pth w)" and run: "reconcile_connection s t d w = (Ok [], d', w')"
  shows "conn_done d' (pol w') (pth w') t"
  using run
proof (cases rule: reconcile_connection_cases)
  case absent
  then show ?thesis by (simp add: conn_done_def)
next
  case (released c fs)
  then show ?thesis using release_done [OF inv released(1)] by simp
next
  case (idle c c1)
  have "c1 = c \<and> oc_owner c = []" using owner_held(5) [OF inv idle(1,3)] by simp
  then show ?thesis
    using idle assign_owner_spec(1-3) [OF inv idle(3)] inv_unowned [OF inv idle(1)] by (simp add: conn_done_def stops_def)
next
  case (applied c c1 dc w1 res)
  note a = assign_owner_spec [OF inv applied(3)] and o = owner_held [OF inv applied(1,3)]
  have ok: "res = Ok ()" using applied(5) by (cases res) simp_all
  have "settled (conn_of d t) (dc_assignment dc) c1 (pol w') (pth w')"
    using applyConnection_settles [OF applied(4) [unfolded ok] _ context_generation [OF inv_contexts [OF inv] a(3) [symmetric]]] o(4)
    by (simp add: connection_ok_def)
  then have "settled (conn_of d t) (dc_assignment dc) (c1\<lparr>oc_lastError := None\<rparr>) (pol w') (pth w')"
    by (simp add: settled_def leg_pairs_def topology_def)
  then show ?thesis
    using applied(2,6) ok o(2) o(6) [OF refl] a(3) [symmetric] assigned_stays [OF inv applied(2,3)] by (simp add: conn_done_def stops_def)
qed

end

section \<open>A successful reconciliation\<close>

lemma conn_done_cong:
  assumes "map_of (d_connections d') t = map_of (d_connections d) t" "d_contexts d' = d_contexts d" "d_netns d' = d_netns d"
    and "P' (conn_of d t) = P (conn_of d t)" "\<And>q. pk_Conn q = conn_of d t \<Longrightarrow> T' q = T q"
  shows "conn_done d' P' T' t = conn_done d P T t"
proof -
  have key: "conn_of d' t = conn_of d t" using assms(3) by (simp add: conn_of_def)
  have "unmapped (conn_of d t) P' T' = unmapped (conn_of d t) P T" using assms(4,5) by (auto simp: unmapped_def)
  then have "settled (conn_of d t) a c P' T' = settled (conn_of d t) a c P T" for a c
    using assms(4,5) by (auto simp: settled_def)
  with \<open>unmapped (conn_of d t) P' T' = unmapped (conn_of d t) P T\<close> assms(1,2) key show ?thesis
    by (simp add: conn_done_def)
qed

context daemon_laws
begin

lemma reconcile_connections_untouched:
  assumes "daemon_inv d (pol w) (pth w)" "reconcile_connections s ts failures d w = (r, d', w')" "t \<notin> set ts"
  shows "map_of (d_connections d') t = map_of (d_connections d) t \<and> pol w' (conn_of d t) = pol w (conn_of d t) \<and>
    (\<forall>q. pk_Conn q = conn_of d t \<longrightarrow> pth w' q = pth w q)"
  using assms
proof (induction ts arbitrary: failures d w)
  case Nil
  then show ?case by simp
next
  case (Cons t1 ts)
  obtain x d1 w1 where rc: "reconcile_connection s t1 d w = (x, d1, w1)" by (metis prod.exhaust)
  from reconcile_connection_step [OF Cons.prems(1) rc] obtain fs where x: "x = Ok fs"
    and st: "conn_step t1 d (pol w) (pth w) d1 (pol w1) (pth w1)" by blast
  have rest: "reconcile_connections s ts (failures @ fs) d1 w1 = (r, d', w')" using Cons.prems(2) rc x by simp
  have key: "conn_of d1 t = conn_of d t" using st by (simp add: conn_step_def conn_of_def)
  have ne: "t \<noteq> t1" "t \<notin> set ts" using Cons.prems(3) by simp_all
  have inv1: "daemon_inv d1 (pol w1) (pth w1)" using st by (simp add: conn_step_def)
  have "map_of (d_connections d1) t = map_of (d_connections d) t" "pol w1 (conn_of d t) = pol w (conn_of d t)"
    "\<And>q. pk_Conn q = conn_of d t \<Longrightarrow> pth w1 q = pth w q"
    using st ne by (simp_all add: conn_step_def touches_def)
  with Cons.IH [OF inv1 rest ne(2)] key show ?case by simp
qed

lemma reconcile_connections_done:
  assumes "daemon_inv d (pol w) (pth w)" "reconcile_connections s ts [] d w = (Ok [], d', w')" "t \<in> set ts"
  shows "conn_done d' (pol w') (pth w') t"
  using assms
proof (induction ts arbitrary: d w)
  case Nil
  then show ?case by simp
next
  case (Cons t1 ts)
  obtain x d1 w1 where rc: "reconcile_connection s t1 d w = (x, d1, w1)" by (metis prod.exhaust)
  from reconcile_connection_step [OF Cons.prems(1) rc] obtain fs where x: "x = Ok fs"
    and st: "conn_step t1 d (pol w) (pth w) d1 (pol w1) (pth w1)" by blast
  have rest': "reconcile_connections s ts fs d1 w1 = (Ok [], d', w')" using Cons.prems(2) rc x by simp
  have inv1: "daemon_inv d1 (pol w1) (pth w1)" using st by (simp add: conn_step_def)
  note ih = reconcile_connections_inv [OF inv1 rest']
  then have fs: "fs = []" by auto
  note rest = rest' [unfolded fs]
  show ?case
  proof (cases "t \<in> set ts")
    case True
    then show ?thesis by (rule Cons.IH [OF inv1 rest])
  next
    case False
    then have "t = t1" using Cons.prems(3) by simp
    then have "conn_done d1 (pol w1) (pth w1) t" using reconcile_connection_done [OF Cons.prems(1)] rc x fs by simp
    moreover have "conn_done d' (pol w') (pth w') t = conn_done d1 (pol w1) (pth w1) t"
      using reconcile_connections_untouched [OF inv1 rest False] ih by (intro conn_done_cong) simp_all
    ultimately show ?thesis by simp
  qed
qed

lemma reconcileLocked_done:
  assumes inv: "daemon_inv d (pol w) (pth w)" and run: "reconcileLocked s d w = (Ok u, d', w')"
  shows "conn_done d' (pol w') (pth w') t \<and> (\<forall>cid dc. map_of (d_contexts d') cid = Some dc \<longrightarrow> \<not> dc_deleting dc)"
proof -
  obtain ns w1 where mo: "MapOrder s w = (ns, w1)" by force
  have f: "pol w1 = pol w" "pth w1 = pth w" using MapOrder_frame [OF mo] by simp_all
  let ?ts = "map fst (go_range ns (d_connections d))"
  obtain x d1 w2 where rc: "reconcile_connections s ?ts [] d w1 = (x, d1, w2)" by (metis prod.exhaust)
  have inv1: "daemon_inv d (pol w1) (pth w1)" using inv f by simp
  note i = reconcile_connections_inv [OF inv1 rc]
  then obtain fs where x: "x = Ok fs" by auto
  then have "error_outcome (errors_Join (map Some fs)) = Ok u" "d' = sweep_contexts d1" "w' = w2"
    using run mo rc by (simp_all add: reconcileLocked_def)
  then have fs: "fs = []" by (auto simp: errors_Join_map_Some split: if_splits)
  have each: "conn_done d1 (pol w2) (pth w2) t'" for t'
  proof (cases "t' \<in> set ?ts")
    case True
    then show ?thesis using reconcile_connections_done [OF inv1] rc x fs by blast
  next
    case False
    then have "map_of (d_connections d) t' = None" by (simp add: map_of_eq_None_iff)
    then have "map_of (d_connections d1) t' = None" using i by (meson domIff in_mono)
    then show ?thesis by (simp add: conn_done_def)
  qed
  have "daemon_inv d1 (pol w2) (pth w2)" using i by blast
  then have wf: "wf_map (d_contexts d1)" "wf_map (d_connections d1)"
    by (simp_all add: daemon_inv_def state_ok_def contexts_ok_def)
  have lookup: "map_of (d_contexts d') cid = Some dc \<longleftrightarrow> map_of (d_contexts d1) cid = Some dc \<and>
      (dc_deleting dc \<longrightarrow> (\<exists>(t, c) \<in> set (d_connections d1). oc_owner c = cid))" for cid dc
    using sweep_lookup [OF wf(1)] \<open>d' = sweep_contexts d1\<close> by simp
  have "\<not> dc_deleting dc" if "map_of (d_contexts d') cid = Some dc" for cid dc
  proof
    assume del: "dc_deleting dc"
    with that lookup obtain t' c where c: "(t', c) \<in> set (d_connections d1)" "oc_owner c = cid"
      "map_of (d_contexts d1) cid = Some dc" by blast
    have "map_of (d_connections d1) t' = Some c" using c(1) wf(2) by simp
    then show False using each [of t'] c(2,3) del by (simp add: conn_done_def)
  qed
  moreover have "conn_done d' (pol w') (pth w') t"
    using each [of t] lookup \<open>w' = w2\<close> \<open>d' = sweep_contexts d1\<close> by (simp add: conn_done_def del: map_of_eq_Some_iff)
  ultimately show ?thesis by blast
qed

section \<open>Cleanup\<close>

lemma cleanup_connections_effect:
  assumes "cleanup_connections s d cs w = (fs, w')"
  shows "(\<forall>k. pol w' k = pol w k \<or> pol w' k = None) \<and> (\<forall>q. pth w' q = pth w q \<or> pth w' q = None) \<and>
    outside_same (d_netns d) (pol w) (pth w) (pol w') (pth w') \<and>
    (fs = [] \<longrightarrow> (\<forall>(t, c) \<in> set cs. oc_owner c \<noteq> [] \<longrightarrow> unmapped (conn_of d t) (pol w') (pth w')))"
  using assms
proof (induction cs arbitrary: w fs)
  case Nil
  then show ?case by simp
next
  case (Cons tc cs)
  obtain t c where tc: "tc = (t, c)" by force
  show ?case
  proof (cases "oc_owner c = []")
    case True
    then show ?thesis using Cons by (simp add: tc)
  next
    case False
    obtain e w1 where dl: "DeleteLive s (conn_of d t) w = (e, w1)" by force
    obtain fs1 where rest: "cleanup_connections s d cs w1 = (fs1, w')" and fs: "fs = (case e of None \<Rightarrow> fs1 | Some x \<Rightarrow> x # fs1)"
      using Cons.prems False dl by (auto simp: tc split: prod.splits)
    note d = DeleteLive_spec [OF dl] and t = DeleteLive_touches [OF dl]
    note ih = Cons.IH [OF rest]
    have 1: "pol w' k = pol w k \<or> pol w' k = None" for k
      using ih t(1,2) unfolding touches_def by metis
    have 2: "pth w' q = pth w q \<or> pth w' q = None" for q
    proof -
      have "pth w1 q = pth w q \<or> pth w1 q = None" using d by simp
      moreover have "pth w' q = pth w1 q \<or> pth w' q = None" using ih by simp
      ultimately show ?thesis by auto
    qed
    have 3: "outside_same (d_netns d) (pol w) (pth w) (pol w') (pth w')"
      using ih outside_same_trans [OF touches_outside [OF t(1)]] by simp
    have 4: "unmapped (conn_of d t) (pol w') (pth w')" if "fs = []"
    proof -
      have "e = None" using that fs by (cases e) simp_all
      then have "unmapped (conn_of d t) (pol w1) (pth w1)" using t(3) by (simp add: unmapped_def)
      then show ?thesis using ih unfolding unmapped_def by metis
    qed
    have 5: "fs1 = []" if "fs = []" using that fs by (cases e) simp_all
    show ?thesis using 1 2 3 4 5 ih by (simp add: tc)
  qed
qed

lemma Daemon_Cleanup_effect:
  assumes inv: "daemon_inv d (pol w) (pth w)" and run: "Daemon_Cleanup s d w = (e, w')"
  shows "outside_same (d_netns d) (pol w) (pth w) (pol w') (pth w') \<and>
    (e = None \<longrightarrow> (\<forall>k. ck_NetNSInode k = d_netns d \<longrightarrow> unmapped k (pol w') (pth w')))"
proof -
  obtain ns w1 where mo: "MapOrder s w = (ns, w1)" by force
  have f: "pol w1 = pol w" "pth w1 = pth w" using MapOrder_frame [OF mo] by simp_all
  obtain fs w2 where cc: "cleanup_connections s d (go_range ns (d_connections d)) w1 = (fs, w2)" by force
  have e: "e = errors_Join (map Some fs)" "w2 = w'" using run mo cc by (simp_all add: Daemon_Cleanup_def)
  note c = cleanup_connections_effect [OF cc, unfolded f e(2)]
  have "unmapped k (pol w') (pth w')" if "e = None" "ck_NetNSInode k = d_netns d" for k
  proof -
    have fs: "fs = []" using that(1) e(1) by (simp add: errors_Join_map_Some split: if_splits)
    have m: "unmapped k (pol w) (pth w) \<or> k = conn_of d (ck_Token k) \<and> owned d (ck_Token k)"
      using inv that(2) by (simp add: daemon_inv_def maps_ok_alt)
    then show ?thesis
    proof
      assume "unmapped k (pol w) (pth w)"
      then show ?thesis using c unfolding unmapped_def by metis
    next
      assume o: "k = conn_of d (ck_Token k) \<and> owned d (ck_Token k)"
      then obtain oc where "map_of (d_connections d) (ck_Token k) = Some oc" "oc_owner oc \<noteq> []" by (auto simp: owned_def)
      then have "(ck_Token k, oc) \<in> set (d_connections d)" "oc_owner oc \<noteq> []" by (simp_all add: map_of_SomeD)
      then have "unmapped (conn_of d (ck_Token k)) (pol w') (pth w')" using c fs by auto
      then show ?thesis using o by simp
    qed
  qed
  then show ?thesis using c by blast
qed

end

end
