(* ===== verification/KernelMaps.thy ===== *)
theory KernelMaps
  imports Live
begin

text \<open>
  \<open>dualsteer-agent/kernel_linux.go\<close>: the store over two pinned BPF hash maps. The methods of
  \<open>*ebpf.Map\<close> belong to the module \<open>github.com/cilium/ebpf\<close> and are a record of functions; its
  documented behaviour is the locale \<open>ebpf_hash\<close>, and the locale \<open>kernel_maps\<close> joins the two maps.
  The \<open>sublocale\<close> shows that \<open>KernelMaps\<close> meets the contract \<open>map_store_laws\<close>. The theory
  \<open>BpfWorld\<close> interprets the locales on a concrete pair of maps with injected failures.
\<close>

section \<open>The methods of an eBPF map\<close>

record ('k, 'v, 'w) ebpf_map =
  Map_Lookup :: "'k \<Rightarrow> 'w \<Rightarrow> (go_error + 'v) \<times> 'w"
  Map_Update :: "'k \<Rightarrow> 'v \<Rightarrow> 'w \<Rightarrow> go_error option \<times> 'w"
  Map_Delete :: "'k \<Rightarrow> 'w \<Rightarrow> go_error option \<times> 'w"
  Map_Iterate :: "'w \<Rightarrow> (('k \<times> 'v) list \<times> go_error option) \<times> 'w"

text \<open>
  \<open>Map_Iterate\<close> is a complete iteration: the entries \<open>Next\<close> delivers and the final \<open>Err\<close>. The
  flag \<open>UpdateAny\<close> is the only one the code uses.
\<close>

record 'w kernel_handles =
  km_policy :: "(conn_key, map_policy, 'w) ebpf_map"
  km_path :: "(path_key, map_path, 'w) ebpf_map"

section \<open>The store\<close>

text \<open>\<open>mapError\<close>; \<open>kne\<close> is the library's sentinel \<open>ebpf.ErrKeyNotExist\<close>.\<close>

definition mapError :: "go_error \<Rightarrow> go_error option \<Rightarrow> go_error option" where
  "mapError kne err =
     (case err of None \<Rightarrow> None | Some e \<Rightarrow> if errors_Is e kne then Some ErrNotFound else Some e)"

definition km_LookupPolicy :: "go_error \<Rightarrow> 'w kernel_handles \<Rightarrow> conn_key \<Rightarrow> 'w \<Rightarrow> (go_error + map_policy) \<times> 'w" where
  "km_LookupPolicy kne m k w =
     (case Map_Lookup (km_policy m) k w of
        (Inl e, w') \<Rightarrow> (Inl (the (mapError kne (Some e))), w')
      | (Inr p, w') \<Rightarrow> (Inr p, w'))"

definition km_UpdatePolicy :: "go_error \<Rightarrow> 'w kernel_handles \<Rightarrow> conn_key \<Rightarrow> map_policy \<Rightarrow> 'w \<Rightarrow> go_error option \<times> 'w" where
  "km_UpdatePolicy kne m k p w = (let (e, w') = Map_Update (km_policy m) k p w in (mapError kne e, w'))"

definition km_DeletePolicy :: "go_error \<Rightarrow> 'w kernel_handles \<Rightarrow> conn_key \<Rightarrow> 'w \<Rightarrow> go_error option \<times> 'w" where
  "km_DeletePolicy kne m k w = (let (e, w') = Map_Delete (km_policy m) k w in (mapError kne e, w'))"

definition km_UpdatePath :: "go_error \<Rightarrow> 'w kernel_handles \<Rightarrow> path_key \<Rightarrow> map_path \<Rightarrow> 'w \<Rightarrow> go_error option \<times> 'w" where
  "km_UpdatePath kne m k p w = (let (e, w') = Map_Update (km_path m) k p w in (mapError kne e, w'))"

definition km_DeletePath :: "go_error \<Rightarrow> 'w kernel_handles \<Rightarrow> path_key \<Rightarrow> 'w \<Rightarrow> go_error option \<times> 'w" where
  "km_DeletePath kne m k w = (let (e, w') = Map_Delete (km_path m) k w in (mapError kne e, w'))"

text \<open>The loop of \<open>Paths\<close>: entries of other connections are skipped.\<close>

fun collect_paths :: "conn_key \<Rightarrow> (path_key \<times> map_path) list \<Rightarrow> (path_key, map_path) gomap \<Rightarrow>
    (path_key, map_path) gomap" where
  "collect_paths conn [] result = result"
| "collect_paths conn ((k, p) # es) result =
     collect_paths conn es (if pk_Conn k = conn then go_set k p result else result)"

definition km_Paths :: "'w kernel_handles \<Rightarrow> conn_key \<Rightarrow> 'w \<Rightarrow>
    ((path_key, map_path) gomap \<times> go_error option) \<times> 'w" where
  "km_Paths m conn w =
     (let ((es, err), w') = Map_Iterate (km_path m) w in ((collect_paths conn es [], err), w'))"

definition kernel_store :: "go_error \<Rightarrow> 'w kernel_handles \<Rightarrow> ('w \<Rightarrow> nat list \<times> 'w) \<Rightarrow> 'w runtime" where
  "kernel_store kne m order =
     \<lparr>LookupPolicy = km_LookupPolicy kne m, UpdatePolicy = km_UpdatePolicy kne m,
      DeletePolicy = km_DeletePolicy kne m, Paths = km_Paths m,
      UpdatePath = km_UpdatePath kne m, DeletePath = km_DeletePath kne m, MapOrder = order\<rparr>"

text \<open>
  The two loops of \<open>RequireEmptyNamespace\<close> stop at the first entry of the namespace.
\<close>

definition RequireEmptyNamespace :: "'w kernel_handles \<Rightarrow> u64 \<Rightarrow> 'w \<Rightarrow> go_error option \<times> 'w" where
  "RequireEmptyNamespace m inode w =
     (let ((ps, perr), w1) = Map_Iterate (km_policy m) w in
      case find (\<lambda>(conn, _). ck_NetNSInode conn = inode) ps of
        Some _ \<Rightarrow> (Some (errors_New ''selected maps contain existing policy''), w1)
      | None \<Rightarrow> (case perr of Some e \<Rightarrow> (Some e, w1) | None \<Rightarrow>
         (let ((qs, qerr), w2) = Map_Iterate (km_path m) w1 in
          case find (\<lambda>(key, _). ck_NetNSInode (pk_Conn key) = inode) qs of
            Some _ \<Rightarrow> (Some (errors_New ''selected maps contain existing paths''), w2)
          | None \<Rightarrow> (qerr, w2))))"

section \<open>The documented behaviour of a hash map\<close>

text \<open>
  \<open>cont\<close> reads the entries of the map off the world and \<open>rest\<close> the part the map does not touch.
  A lookup or deletion of an absent key reports \<open>ErrKeyNotExist\<close>; an update with \<open>UpdateAny\<close> never
  does; no error of the library is the agent's own \<open>ErrNotFound\<close>; an iteration delivers entries of
  the map, and all of them when \<open>Err\<close> is nil.
\<close>

locale ebpf_hash =
  fixes m :: "('k, 'v, 'w) ebpf_map"
    and cont :: "'w \<Rightarrow> 'k \<Rightarrow> 'v option"
    and rest :: "'w \<Rightarrow> 'r"
    and kne :: go_error
  assumes Lookup_frame: "Map_Lookup m k w = (r, w') \<Longrightarrow> cont w' = cont w \<and> rest w' = rest w"
    and Lookup_found: "Map_Lookup m k w = (Inr v, w') \<Longrightarrow> cont w k = Some v"
    and Lookup_error: "Map_Lookup m k w = (Inl e, w') \<Longrightarrow>
      \<not> errors_Is e ErrNotFound \<and> (errors_Is e kne \<longrightarrow> cont w k = None)"
    and Update_frame: "Map_Update m k v w = (u, w') \<Longrightarrow> rest w' = rest w"
    and Update_ok: "Map_Update m k v w = (None, w') \<Longrightarrow> cont w' = (cont w)(k \<mapsto> v)"
    and Update_error: "Map_Update m k v w = (Some e, w') \<Longrightarrow>
      cont w' = cont w \<and> \<not> errors_Is e ErrNotFound \<and> \<not> errors_Is e kne"
    and Delete_frame: "Map_Delete m k w = (u, w') \<Longrightarrow> rest w' = rest w"
    and Delete_ok: "Map_Delete m k w = (None, w') \<Longrightarrow> cont w' = (cont w)(k := None)"
    and Delete_error: "Map_Delete m k w = (Some e, w') \<Longrightarrow>
      cont w' = cont w \<and> \<not> errors_Is e ErrNotFound \<and> (errors_Is e kne \<longrightarrow> cont w k = None)"
    and Iterate_frame: "Map_Iterate m w = (it, w') \<Longrightarrow> cont w' = cont w \<and> rest w' = rest w"
    and Iterate_sound: "Map_Iterate m w = ((es, err), w') \<Longrightarrow> (k, v) \<in> set es \<Longrightarrow> cont w k = Some v"
    and Iterate_complete: "Map_Iterate m w = ((es, None), w') \<Longrightarrow> cont w k \<noteq> None \<Longrightarrow> k \<in> fst ` set es"
begin

text \<open>What \<open>mapError\<close> makes of the library's errors: only an absent entry becomes \<open>ErrNotFound\<close>.\<close>

lemma mapError_None [simp]: "mapError kne err = None \<longleftrightarrow> err = None"
  by (simp add: mapError_def split: option.split)

lemma mapError_NotFound:
  "mapError kne (Some e) = Some e' \<Longrightarrow> \<not> errors_Is e ErrNotFound \<Longrightarrow> errors_Is e' ErrNotFound \<longleftrightarrow> errors_Is e kne"
  by (auto simp: mapError_def split: if_splits)

lemma mapError_Some: "mapError kne err = Some e' \<Longrightarrow> \<exists>e. err = Some e"
  by (cases err) (simp_all add: mapError_def)

lemma Update_mapped:
  assumes "Map_Update m k v w = (u, w')" "mapError kne u = u'"
  shows "rest w' = rest w" "u' = None \<Longrightarrow> cont w' = (cont w)(k \<mapsto> v)"
    "u' = Some e \<Longrightarrow> cont w' = cont w \<and> \<not> errors_Is e ErrNotFound"
proof -
  show "rest w' = rest w" by (rule Update_frame [OF assms(1)])
  show "cont w' = (cont w)(k \<mapsto> v)" if "u' = None" using assms that Update_ok [of k v w w'] by simp
  assume "u' = Some e"
  then obtain x where x: "u = Some x" "mapError kne (Some x) = Some e" using assms(2) mapError_Some by auto
  from Update_error [of k v w x w'] assms(1) x(1)
  have f: "cont w' = cont w" "\<not> errors_Is x ErrNotFound" "\<not> errors_Is x kne" by simp_all
  show "cont w' = cont w \<and> \<not> errors_Is e ErrNotFound" using f mapError_NotFound [OF x(2) f(2)] by simp
qed

lemma Delete_mapped:
  assumes "Map_Delete m k w = (u, w')" "mapError kne u = u'"
  shows "rest w' = rest w" "u' = None \<Longrightarrow> cont w' = (cont w)(k := None)"
    "u' = Some e \<Longrightarrow> cont w' = cont w" "u' = Some e \<Longrightarrow> errors_Is e ErrNotFound \<Longrightarrow> cont w k = None"
proof -
  show "rest w' = rest w" by (rule Delete_frame [OF assms(1)])
  show "cont w' = (cont w)(k := None)" if "u' = None" using assms that Delete_ok [of k w w'] by simp
  assume "u' = Some e"
  then obtain x where x: "u = Some x" "mapError kne (Some x) = Some e" using assms(2) mapError_Some by auto
  from Delete_error [of k w x w'] assms(1) x(1)
  have f: "cont w' = cont w" "\<not> errors_Is x ErrNotFound" "errors_Is x kne \<longrightarrow> cont w k = None" by simp_all
  show "cont w' = cont w" by (rule f(1))
  show "cont w k = None" if "errors_Is e ErrNotFound" using f that mapError_NotFound [OF x(2) f(2)] by simp
qed

lemma Iterate_find:
  assumes "Map_Iterate m w = ((es, err), w')"
  shows "find (\<lambda>(k, _). P k) es \<noteq> None \<Longrightarrow> \<exists>k. P k \<and> cont w k \<noteq> None"
    and "find (\<lambda>(k, _). P k) es = None \<Longrightarrow> err = None \<Longrightarrow> P k \<Longrightarrow> cont w k = None"
proof -
  show "\<exists>k. P k \<and> cont w k \<noteq> None" if f: "find (\<lambda>(k, _). P k) es \<noteq> None"
  proof -
    from f obtain k v where "(k, v) \<in> set es" "P k" by (auto simp: find_None_iff)
    then show ?thesis using Iterate_sound [OF assms] by blast
  qed
  show "cont w k = None" if f: "find (\<lambda>(k, _). P k) es = None" "err = None" "P k"
  proof -
    have "k \<notin> fst ` set es" using f(1,3) by (auto simp: find_None_iff)
    then show ?thesis using Iterate_complete [of w es w' k] assms f(2) by blast
  qed
qed

end

section \<open>KernelMaps meets the contract of MapStore\<close>

locale kernel_maps =
  policy_map: ebpf_hash "km_policy h" pol pth kne + path_map: ebpf_hash "km_path h" pth pol kne
  for h :: "'w kernel_handles"
    and pol :: "'w \<Rightarrow> conn_key \<Rightarrow> map_policy option"
    and pth :: "'w \<Rightarrow> path_key \<Rightarrow> map_path option"
    and kne :: go_error +
  fixes order :: "'w \<Rightarrow> nat list \<times> 'w"
  assumes order_frame: "order w = (ns, w') \<Longrightarrow> pol w' = pol w \<and> pth w' = pth w"

lemma collect_paths_wf: "wf_map r \<Longrightarrow> wf_map (collect_paths conn es r)"
  by (induction es arbitrary: r) auto

lemma collect_paths_sound:
  assumes "\<And>k v. (k, v) \<in> set es \<Longrightarrow> P k = Some v"
  shows "map_of r \<subseteq>\<^sub>m paths_of P conn \<Longrightarrow> map_of (collect_paths conn es r) \<subseteq>\<^sub>m paths_of P conn"
  using assms
proof (induction es arbitrary: r)
  case Nil
  then show ?case by simp
next
  case (Cons kv es)
  obtain k v where kv: "kv = (k, v)" by force
  have "P k = Some v" using Cons.prems(2) kv by simp
  then have "map_of (if pk_Conn k = conn then go_set k v r else r) \<subseteq>\<^sub>m paths_of P conn"
    using Cons.prems(1) by (auto simp: map_le_def restrict_map_def split: if_splits)
  from Cons.IH [OF this] Cons.prems(2) show ?case by (simp add: kv)
qed

lemma dom_collect_paths:
  "dom (map_of (collect_paths conn es r)) = dom (map_of r) \<union> {k \<in> fst ` set es. pk_Conn k = conn}"
proof (induction es arbitrary: r)
  case Nil
  then show ?case by simp
next
  case (Cons kv es)
  obtain k v where kv: "kv = (k, v)" by force
  show ?case unfolding kv collect_paths.simps Cons.IH by auto
qed

lemma map_le_dom_eq:
  assumes "f \<subseteq>\<^sub>m g" "dom g \<subseteq> dom f"
  shows "f = g"
proof
  fix x
  show "f x = g x"
  proof (cases "g x")
    case None
    then show ?thesis using assms(1) by (cases "f x") (auto simp: map_le_def dom_def)
  next
    case (Some y)
    then show ?thesis using assms by (auto simp: map_le_def dom_def)
  qed
qed

context kernel_maps
begin

lemma km_LookupPolicy_result:
  assumes "km_LookupPolicy kne h k w = (r, w')"
  shows "pol w' = pol w \<and> pth w' = pth w" "r = Inr p \<Longrightarrow> pol w k = Some p"
    "r = Inl e \<Longrightarrow> errors_Is e ErrNotFound \<Longrightarrow> pol w k = None"
proof -
  obtain x w1 where l: "Map_Lookup (km_policy h) k w = (x, w1)" by force
  have w1: "w1 = w'" using assms l by (auto simp: km_LookupPolicy_def split: sum.splits)
  show "pol w' = pol w \<and> pth w' = pth w" using policy_map.Lookup_frame [OF l] w1 by simp
  show "pol w k = Some p" if "r = Inr p"
    using assms l that policy_map.Lookup_found [of k w p w'] by (auto simp: km_LookupPolicy_def split: sum.splits)
  show "pol w k = None" if "r = Inl e" "errors_Is e ErrNotFound"
    using assms l that policy_map.Lookup_error [of k w _ w'] policy_map.mapError_NotFound
    by (auto simp: km_LookupPolicy_def mapError_def split: sum.splits if_splits)
qed

lemma km_Paths_result:
  assumes "km_Paths h conn w = ((mp, err), w')"
  shows "pol w' = pol w \<and> pth w' = pth w" "wf_map mp" "map_of mp \<subseteq>\<^sub>m paths_of (pth w) conn"
    "err = None \<Longrightarrow> map_of mp = paths_of (pth w) conn"
proof -
  obtain es where it: "Map_Iterate (km_path h) w = ((es, err), w')" and mp: "mp = collect_paths conn es []"
    using assms by (auto simp: km_Paths_def Let_def split: prod.splits)
  show "pol w' = pol w \<and> pth w' = pth w" using path_map.Iterate_frame [OF it] by simp
  show "wf_map mp" by (simp add: mp collect_paths_wf)
  show le: "map_of mp \<subseteq>\<^sub>m paths_of (pth w) conn"
    using collect_paths_sound [of es "pth w" "[]"] path_map.Iterate_sound [OF it] by (simp add: mp)
  show "map_of mp = paths_of (pth w) conn" if "err = None"
  proof (rule map_le_dom_eq [OF le])
    show "dom (paths_of (pth w) conn) \<subseteq> dom (map_of mp)"
      using path_map.Iterate_complete [of w es w'] it that by (auto simp: mp dom_collect_paths)
  qed
qed

end

lemma kernel_store_simps [simp]:
  "LookupPolicy (kernel_store kne m order) = km_LookupPolicy kne m"
  "UpdatePolicy (kernel_store kne m order) = km_UpdatePolicy kne m"
  "DeletePolicy (kernel_store kne m order) = km_DeletePolicy kne m"
  "Paths (kernel_store kne m order) = km_Paths m"
  "UpdatePath (kernel_store kne m order) = km_UpdatePath kne m"
  "DeletePath (kernel_store kne m order) = km_DeletePath kne m"
  "MapOrder (kernel_store kne m order) = order"
  by (simp_all add: kernel_store_def)

lemma km_write_unfold:
  "km_UpdatePolicy kne m k p w = (u, w') \<longleftrightarrow> (\<exists>x. Map_Update (km_policy m) k p w = (x, w') \<and> mapError kne x = u)"
  "km_DeletePolicy kne m k w = (u, w') \<longleftrightarrow> (\<exists>x. Map_Delete (km_policy m) k w = (x, w') \<and> mapError kne x = u)"
  "km_UpdatePath kne m q v w = (u, w') \<longleftrightarrow> (\<exists>x. Map_Update (km_path m) q v w = (x, w') \<and> mapError kne x = u)"
  "km_DeletePath kne m q w = (u, w') \<longleftrightarrow> (\<exists>x. Map_Delete (km_path m) q w = (x, w') \<and> mapError kne x = u)"
  by (auto simp: km_UpdatePolicy_def km_DeletePolicy_def km_UpdatePath_def km_DeletePath_def split: prod.splits)

sublocale kernel_maps \<subseteq> store: map_store_laws "kernel_store kne h order" pol pth
proof (unfold_locales, unfold kernel_store_simps km_write_unfold, goal_cases)
  case (11 k w me w')
  then show ?case using km_Paths_result(1) by (cases me) auto
qed ((elim exE conjE)?;
    blast dest: km_LookupPolicy_result km_Paths_result order_frame
      policy_map.Update_mapped policy_map.Delete_mapped path_map.Update_mapped path_map.Delete_mapped)+

end
