(* ===== verification/BpfWorld.thy ===== *)
theory BpfWorld
  imports KernelMaps
begin

text \<open>
  A concrete pair of BPF hash maps with the capacities of \<open>include/dualsteer_policy.h\<close>, a schedule
  of injected system errors, a schedule of iteration orders and a log of the writes that took
  effect. The locales of \<open>KernelMaps\<close> and \<open>MapStore\<close> are interpreted on it, so every fact proved
  from the contracts holds of the store the agent opens over these maps. The log makes the order
  of writes a statement about values.
\<close>

section \<open>The maps\<close>

record bpf_world =
  bw_policies :: "(conn_key, map_policy) gomap"
  bw_paths :: "(path_key, map_path) gomap"
  bw_faults :: "nat option list"
  bw_orders :: "nat list list"
  bw_log :: "map_write list"

definition DS_MAX_CONNECTIONS :: nat where "DS_MAX_CONNECTIONS = 4096"
definition DS_MAX_PATHS :: nat where "DS_MAX_PATHS = 32768"

definition ErrKeyNotExist :: go_error where
  "ErrKeyNotExist = Sentinel ''key does not exist''"

definition E2BIG :: nat where "E2BIG = 7"

text \<open>Each call consumes one entry of the schedule; an empty schedule means no failure.\<close>

definition next_fault :: "bpf_world \<Rightarrow> nat option \<times> bpf_world" where
  "next_fault w = (case bw_faults w of [] \<Rightarrow> (None, w) | f # fs \<Rightarrow> (f, w\<lparr>bw_faults := fs\<rparr>))"

definition next_order :: "bpf_world \<Rightarrow> nat list \<times> bpf_world" where
  "next_order w = (case bw_orders w of [] \<Rightarrow> ([], w) | ns # os \<Rightarrow> (ns, w\<lparr>bw_orders := os\<rparr>))"

definition hash_map :: "nat \<Rightarrow> (bpf_world \<Rightarrow> ('k, 'v) gomap) \<Rightarrow> (('k, 'v) gomap \<Rightarrow> bpf_world \<Rightarrow> bpf_world) \<Rightarrow>
    ('k \<Rightarrow> 'v \<Rightarrow> map_write) \<Rightarrow> ('k \<Rightarrow> map_write) \<Rightarrow> ('k, 'v, bpf_world) ebpf_map" where
  "hash_map cap get put written erased =
     \<lparr>Map_Lookup = (\<lambda>k w. case next_fault w of
          (Some n, w') \<Rightarrow> (Inl (Errno n), w')
        | (None, w') \<Rightarrow> (case map_of (get w') k of None \<Rightarrow> (Inl ErrKeyNotExist, w') | Some v \<Rightarrow> (Inr v, w'))),
      Map_Update = (\<lambda>k v w. case next_fault w of
          (Some n, w') \<Rightarrow> (Some (Errno n), w')
        | (None, w') \<Rightarrow>
            if map_of (get w') k = None \<and> cap \<le> length (get w') then (Some (Errno E2BIG), w')
            else (None, put (go_set k v (get w')) (w'\<lparr>bw_log := bw_log w' @ [written k v]\<rparr>))),
      Map_Delete = (\<lambda>k w. case next_fault w of
          (Some n, w') \<Rightarrow> (Some (Errno n), w')
        | (None, w') \<Rightarrow>
            if map_of (get w') k = None then (Some ErrKeyNotExist, w')
            else (None, put (go_delete k (get w')) (w'\<lparr>bw_log := bw_log w' @ [erased k]\<rparr>))),
      Map_Iterate = (\<lambda>w. case next_fault w of
          (Some n, w') \<Rightarrow> ((take n (AList.clearjunk (get w')), Some (Errno n)), w')
        | (None, w') \<Rightarrow> ((AList.clearjunk (get w'), None), w'))\<rparr>"

definition bpf_handles :: "bpf_world kernel_handles" where
  "bpf_handles =
     \<lparr>km_policy = hash_map DS_MAX_CONNECTIONS bw_policies (\<lambda>m. bw_policies_update (\<lambda>_. m)) WritePolicy ErasePolicy,
      km_path = hash_map DS_MAX_PATHS bw_paths (\<lambda>m. bw_paths_update (\<lambda>_. m)) WritePath ErasePath\<rparr>"

text \<open>
  The maps' entries as functions. The iteration drops the entries \<open>map_of\<close> does not see, so a
  list with repeated keys also stands for a hash map.
\<close>

definition policies :: "bpf_world \<Rightarrow> conn_key \<Rightarrow> map_policy option" where
  "policies w = map_of (bw_policies w)"

definition paths :: "bpf_world \<Rightarrow> path_key \<Rightarrow> map_path option" where
  "paths w = map_of (bw_paths w)"

definition bpf_store :: "bpf_world runtime" where
  "bpf_store = kernel_store ErrKeyNotExist bpf_handles next_order"

section \<open>The world meets the documented behaviour\<close>

lemma next_fault_frame [frame]:
  "next_fault w = (f, w') \<Longrightarrow> bw_policies w' = bw_policies w \<and> bw_paths w' = bw_paths w \<and>
    bw_orders w' = bw_orders w \<and> bw_log w' = bw_log w"
  by (auto simp: next_fault_def split: list.splits)

lemma next_order_frame [frame]:
  "next_order w = (ns, w') \<Longrightarrow> bw_policies w' = bw_policies w \<and> bw_paths w' = bw_paths w \<and>
    bw_faults w' = bw_faults w \<and> bw_log w' = bw_log w"
  by (auto simp: next_order_def split: list.splits)

lemma hash_map_simps [simp]:
  "Map_Lookup (hash_map cap get put wr er) = (\<lambda>k w. case next_fault w of
       (Some n, w') \<Rightarrow> (Inl (Errno n), w')
     | (None, w') \<Rightarrow> (case map_of (get w') k of None \<Rightarrow> (Inl ErrKeyNotExist, w') | Some v \<Rightarrow> (Inr v, w')))"
  "Map_Update (hash_map cap get put wr er) = (\<lambda>k v w. case next_fault w of
       (Some n, w') \<Rightarrow> (Some (Errno n), w')
     | (None, w') \<Rightarrow>
         if map_of (get w') k = None \<and> cap \<le> length (get w') then (Some (Errno E2BIG), w')
         else (None, put (go_set k v (get w')) (w'\<lparr>bw_log := bw_log w' @ [wr k v]\<rparr>)))"
  "Map_Delete (hash_map cap get put wr er) = (\<lambda>k w. case next_fault w of
       (Some n, w') \<Rightarrow> (Some (Errno n), w')
     | (None, w') \<Rightarrow>
         if map_of (get w') k = None then (Some ErrKeyNotExist, w')
         else (None, put (go_delete k (get w')) (w'\<lparr>bw_log := bw_log w' @ [er k]\<rparr>)))"
  "Map_Iterate (hash_map cap get put wr er) = (\<lambda>w. case next_fault w of
       (Some n, w') \<Rightarrow> ((take n (AList.clearjunk (get w')), Some (Errno n)), w')
     | (None, w') \<Rightarrow> ((AList.clearjunk (get w'), None), w'))"
  by (simp_all add: hash_map_def)

lemma clearjunk_entry: "(k, v) \<in> set (AList.clearjunk m) \<Longrightarrow> map_of m k = Some v"
  using AList.distinct_clearjunk [of m] by (metis AList.map_of_clearjunk map_of_is_SomeI)

lemma clearjunk_key: "map_of m k \<noteq> None \<Longrightarrow> k \<in> fst ` set (AList.clearjunk m)"
  by (metis AList.map_of_clearjunk map_of_eq_None_iff)

lemma sentinels_differ [simp]:
  "ErrKeyNotExist \<noteq> ErrNotFound" "ErrNotFound \<noteq> ErrKeyNotExist"
  "Errno n \<noteq> ErrNotFound" "Errno n \<noteq> ErrKeyNotExist"
  "errors_Is (Errno n) ErrNotFound = False" "errors_Is (Errno n) ErrKeyNotExist = False"
  "errors_Is ErrKeyNotExist ErrNotFound = False"
  by (simp_all add: ErrKeyNotExist_def ErrNotFound_def)

text \<open>The laws hold of any hash map whose \<open>put\<close> writes what \<open>get\<close> reads and nothing else.\<close>

lemma hash_map_laws:
  assumes get_put: "\<And>m w. get (put m w) = m" "\<And>m w. rest (put m w) = rest w"
    and frame: "\<And>f w. get (w\<lparr>bw_faults := f\<rparr>) = get w" "\<And>f w. rest (w\<lparr>bw_faults := f\<rparr>) = rest w"
      "\<And>f w. get (w\<lparr>bw_log := f\<rparr>) = get w" "\<And>f w. rest (w\<lparr>bw_log := f\<rparr>) = rest w"
  shows "ebpf_hash (hash_map cap get put wr er) (\<lambda>w. map_of (get w)) rest ErrKeyNotExist"
proof -
  have nf: "get w' = get w \<and> rest w' = rest w" if "next_fault w = (f, w')" for f w w'
    using that frame by (auto simp: next_fault_def split: list.splits)
  have entry: "map_of (get w) k = Some v"
    if "next_fault w = (f, w')" "(k, v) \<in> set (AList.clearjunk (get w'))" for f w w' k v
    using clearjunk_entry [OF that(2)] nf [OF that(1)] by simp
  have key: "k \<in> fst ` set (AList.clearjunk (get w'))"
    if "next_fault w = (f, w')" "map_of (get w) k = Some v" for f w w' k v
    using clearjunk_key [of "get w'" k] nf [OF that(1)] that(2) by simp
  show ?thesis
    by (unfold_locales; unfold hash_map_simps;
        auto simp: get_put frame dest: nf entry in_set_takeD intro: key
          split: prod.splits option.splits if_splits)
qed

lemma bpf_maps_laws:
  "ebpf_hash (km_policy bpf_handles) policies paths ErrKeyNotExist"
  "ebpf_hash (km_path bpf_handles) paths policies ErrKeyNotExist"
  unfolding bpf_handles_def policies_def [abs_def] paths_def [abs_def] kernel_handles.simps
  by (rule hash_map_laws; simp)+

interpretation bpf: kernel_maps bpf_handles policies paths ErrKeyNotExist next_order
proof (intro kernel_maps.intro bpf_maps_laws kernel_maps_axioms.intro)
  show "policies w' = policies w \<and> paths w' = paths w" if "next_order w = (ns, w')" for w ns w'
    using that by (auto simp: policies_def paths_def dest: frame)
qed

section \<open>A world without failures\<close>

text \<open>
  \<open>bpf_reliable n\<close>: no error is scheduled and both maps have room for \<open>n\<close> more entries. Such a
  world is a \<open>reliable_store\<close>.
\<close>

definition bpf_reliable :: "nat \<Rightarrow> bpf_world \<Rightarrow> bool" where
  "bpf_reliable n w \<longleftrightarrow> list_all (\<lambda>f. f = None) (bw_faults w) \<and>
     length (bw_policies w) + n \<le> DS_MAX_CONNECTIONS \<and> length (bw_paths w) + n \<le> DS_MAX_PATHS"

lemma reliable_next_fault:
  assumes "bpf_reliable n w"
  shows "\<exists>w'. next_fault w = (None, w') \<and> bpf_reliable n w' \<and> bw_policies w' = bw_policies w \<and> bw_paths w' = bw_paths w"
  using assms by (auto simp: bpf_reliable_def next_fault_def split: list.splits)

lemma bpf_handles_simps [simp]:
  "km_policy bpf_handles = hash_map DS_MAX_CONNECTIONS bw_policies (\<lambda>m. bw_policies_update (\<lambda>_. m)) WritePolicy ErasePolicy"
  "km_path bpf_handles = hash_map DS_MAX_PATHS bw_paths (\<lambda>m. bw_paths_update (\<lambda>_. m)) WritePath ErasePath"
  by (simp_all add: bpf_handles_def)

lemma reliable_mono: "bpf_reliable (Suc n) w \<Longrightarrow> bpf_reliable n w"
  by (simp add: bpf_reliable_def)

lemma reliable_updates:
  assumes "bpf_reliable (Suc n) w"
  shows "bpf_reliable n (w\<lparr>bw_log := l, bw_policies := go_set k p (bw_policies w)\<rparr>)"
    "bpf_reliable n (w\<lparr>bw_log := l, bw_paths := go_set q v (bw_paths w)\<rparr>)"
    "\<not> DS_MAX_CONNECTIONS \<le> length (bw_policies w)" "\<not> DS_MAX_PATHS \<le> length (bw_paths w)"
  using assms by (auto simp: bpf_reliable_def length_go_set)

lemma reliable_deletes:
  assumes "bpf_reliable n w"
  shows "bpf_reliable n (w\<lparr>bw_log := l, bw_policies := go_delete k (bw_policies w)\<rparr>)"
    "bpf_reliable n (w\<lparr>bw_log := l, bw_paths := go_delete q (bw_paths w)\<rparr>)"
  using assms length_go_delete_le [of k "bw_policies w"] length_go_delete_le [of q "bw_paths w"]
  by (auto simp: bpf_reliable_def)

lemma bpf_order_reliable: "bpf_reliable n w \<Longrightarrow> next_order w = (ns, w') \<Longrightarrow> bpf_reliable n w'"
  by (auto simp: next_order_def bpf_reliable_def split: list.splits)

interpretation bpf_reliably: reliable_store "kernel_store ErrKeyNotExist bpf_handles next_order" policies paths bpf_reliable
proof (unfold_locales, unfold kernel_store_simps)
  fix n w
  assume ok: "bpf_reliable n w"
  from reliable_next_fault [OF this] obtain w1 where w1: "next_fault w = (None, w1)" "bpf_reliable n w1"
    "bw_policies w1 = bw_policies w" "bw_paths w1 = bw_paths w" by blast
  show "bpf_reliable n w' \<and> (case policies w k of None \<Rightarrow> \<exists>e. r = Inl e \<and> errors_Is e ErrNotFound | Some p \<Rightarrow> r = Inr p)"
    if "km_LookupPolicy ErrKeyNotExist bpf_handles k w = (r, w')" for k r w'
    using that w1 by (auto simp: km_LookupPolicy_def policies_def mapError_def split: option.splits)
  show "bpf_reliable n w' \<and> (u = None \<or> (\<exists>e. u = Some e \<and> errors_Is e ErrNotFound))"
    if "km_DeletePolicy ErrKeyNotExist bpf_handles k w = (u, w')" for k u w'
    using that w1(1,2) reliable_deletes(1) [OF w1(2)]
    by (cases "map_of (bw_policies w1) k") (auto simp: km_DeletePolicy_def mapError_def)
  show "bpf_reliable n w' \<and> (u = None \<or> (\<exists>e. u = Some e \<and> errors_Is e ErrNotFound))"
    if "km_DeletePath ErrKeyNotExist bpf_handles q w = (u, w')" for q u w'
    using that w1(1,2) reliable_deletes(2) [OF w1(2)]
    by (cases "map_of (bw_paths w1) q") (auto simp: km_DeletePath_def mapError_def)
  show "u = None \<and> bpf_reliable n w'" if "km_Paths bpf_handles k w = ((m, u), w')" for k m u w'
  proof -
    have "km_Paths bpf_handles k w = ((collect_paths k (AList.clearjunk (bw_paths w1)) [], None), w1)"
      by (simp add: km_Paths_def w1(1))
    with that w1(2) show ?thesis by auto
  qed
  show "bpf_reliable n w'" if "next_order w = (ns, w')" for ns w'
    using ok that by (rule bpf_order_reliable)
next
  fix n w
  assume ok: "bpf_reliable (Suc n) w"
  from reliable_next_fault [OF this] obtain w1 where w1: "next_fault w = (None, w1)" "bpf_reliable (Suc n) w1"
    "bw_policies w1 = bw_policies w" "bw_paths w1 = bw_paths w" by blast
  show "u = None \<and> bpf_reliable n w'"
    if "km_UpdatePolicy ErrKeyNotExist bpf_handles k p w = (u, w')" for k p u w'
    using that w1(1) reliable_updates(1,3) [OF w1(2)] by (auto simp: km_UpdatePolicy_def mapError_def)
  show "u = None \<and> bpf_reliable n w'"
    if "km_UpdatePath ErrKeyNotExist bpf_handles q v w = (u, w')" for q v u w'
    using that w1(1) reliable_updates(2,4) [OF w1(2)] by (auto simp: km_UpdatePath_def mapError_def)
  show "bpf_reliable n w" using ok by (rule reliable_mono)
qed

text \<open>The log of the world is a log of the writes of the store.\<close>

interpretation bpf_logged: logged_store "kernel_store ErrKeyNotExist bpf_handles next_order" policies paths bw_log
proof (unfold_locales, unfold kernel_store_simps, goal_cases)
  case (1 k w r w')
  then show ?case
    by (auto simp: km_LookupPolicy_def dest: frame split: prod.splits option.splits sum.splits)
next
  case (4 k w me w')
  then show ?case
    by (auto simp: km_Paths_def Let_def dest: frame split: prod.splits option.splits)
next
  case (7 w ns w')
  then show ?case by (auto dest: frame)
qed (auto simp: km_write_unfold mapError_def dest: frame split: prod.splits option.splits if_splits)

lemma bpf_store_laws: "map_store_laws bpf_store policies paths"
  unfolding bpf_store_def by (rule bpf.store.map_store_laws_axioms)

end
