(* ===== verification/LiveProgress.thy ===== *)
theory LiveProgress
  imports BpfWorld
begin

text \<open>
  Two further views of the live transaction. In a \<open>reliable_store\<close> with room for the new entries
  \<open>ApplyLive\<close> and \<open>DeleteLive\<close> succeed; in a \<open>logged_store\<close> the order of their writes is fixed:
  the paths of the new generation, then the policy, then the removal of stale paths. The section
  at the end states the properties of the transaction over any store that keeps the contract.
\<close>

section \<open>Progress\<close>

context reliable_store
begin

lemma ok_le: "n \<le> m \<Longrightarrow> ok m w \<Longrightarrow> ok n w"
  by (induction m) (auto simp: le_Suc_eq dest: ok_mono)

lemma stage_paths_reliable:
  "ok (length kvs + n) w \<Longrightarrow> \<exists>st w'. stage_paths s kvs staged w = (None, st, w') \<and> ok n w'"
proof (induction kvs arbitrary: staged w)
  case Nil
  then show ?case by simp
next
  case (Cons kv kvs)
  obtain k v where kv: "kv = (k, v)" by force
  obtain u w1 where up: "UpdatePath s k v w = (u, w1)" by force
  from UpdatePath_reliable [OF _ up, of "length kvs + n"] Cons.prems
  have "u = None" "ok (length kvs + n) w1" by simp_all
  with Cons.IH up show ?case by (simp add: kv)
qed

lemma delete_paths_reliable:
  "ok n w \<Longrightarrow> \<exists>w'. delete_paths s ks w = ([], w') \<and> ok n w'"
proof (induction ks arbitrary: w)
  case Nil
  then show ?case by simp
next
  case (Cons k ks)
  obtain u w1 where del: "DeletePath s k w = (u, w1)" by force
  from DeletePath_reliable [OF Cons.prems del] have u: "ok n w1" "u = None \<or> (\<exists>e. u = Some e \<and> errors_Is e ErrNotFound)"
    by simp_all
  from Cons.IH [OF u(1)] obtain w' where "delete_paths s ks w1 = ([], w')" "ok n w'" by blast
  with del u(2) show ?case by auto
qed

lemma DeleteLive_reliable:
  assumes "ok n w"
  shows "\<exists>w'. DeleteLive s key w = (None, w') \<and> ok n w'"
proof -
  obtain u w1 where dp: "DeletePolicy s key w = (u, w1)" by force
  from DeletePolicy_reliable [OF assms dp] have u: "ok n w1" "u = None \<or> (\<exists>e. u = Some e \<and> errors_Is e ErrNotFound)"
    by simp_all
  obtain m pe w2 where ps: "Paths s key w1 = ((m, pe), w2)" by (metis prod.exhaust)
  from Paths_reliable [OF u(1) ps] have pe: "pe = None" "ok n w2" by simp_all
  obtain ns w3 where mo: "MapOrder s w2 = (ns, w3)" by force
  from delete_paths_reliable [OF MapOrder_reliable [OF pe(2) mo]]
  obtain w4 where "delete_paths s (map fst (go_range ns m)) w3 = ([], w4)" "ok n w4" by blast
  with dp u ps pe mo show ?thesis by (auto simp: DeleteLive_def errors_Join_map_Some)
qed

lemma ApplyLive_reliable:
  assumes valid: "Config_Validate \<lparr>DualSteer = plan_Policy p\<rparr> = Ok ()" "ck_NetNSInode key \<noteq> 0" "ck_Reserved key = 0"
    and des: "DesiredPaths (plan_Policy p) key = Inr desired"
    and gen: "\<And>old. pol w key = Some old \<Longrightarrow> mp_Generation old < Generation (plan_Policy p)"
    and ok: "ok (length desired + Suc n) w"
  shows "\<exists>w'. ApplyLive s p key w = (Ok (), w') \<and> ok n w'"
proof -
  obtain old w1 where lk: "LookupPolicy s key w = (old, w1)" by force
  note l = LookupPolicy_reliable [OF ok lk]
  have ge: "generation_error (Generation (plan_Policy p)) old = None"
    using l gen by (auto simp: generation_error_def not_le split: option.splits)
  obtain before pe w2 where ps: "Paths s key w1 = ((before, pe), w2)" by (metis prod.exhaust)
  from Paths_reliable [OF _ ps] l have pe: "pe = None" "ok (length desired + Suc n) w2" by auto
  obtain ns w3 where mo: "MapOrder s w2 = (ns, w3)" by force
  have "ok (length (go_range ns desired) + Suc n) w3" using MapOrder_reliable [OF pe(2) mo] by simp
  from stage_paths_reliable [OF this] obtain st w4 where st: "stage_paths s (go_range ns desired) [] w3 = (None, st, w4)"
    "ok (Suc n) w4" by blast
  obtain mp where mp: "MapPolicy p = Ok mp" using MapPolicy_valid valid(1) by blast
  obtain ue w5 where up: "UpdatePolicy s key mp w4 = (ue, w5)" by force
  from UpdatePolicy_reliable [OF st(2) up] have ue: "ue = None" "ok n w5" by simp_all
  obtain ns' w6 where mo': "MapOrder s w5 = (ns', w6)" by force
  from delete_paths_reliable [OF MapOrder_reliable [OF ue(2) mo']] obtain w7 where
    "delete_paths s (filter (\<lambda>k. map_of desired k = None) (map fst (go_range ns' before))) w6 = ([], w7)" "ok n w7"
    by blast
  with lk ge ps pe mo st mp up ue mo' show ?thesis
    by (simp add: ApplyLive_def stage_and_commit_def valid des cleanup_error_def errors_Join_map_Some)
qed

end

section \<open>The order of the writes\<close>

text \<open>
  The writes of one call of \<open>ApplyLive\<close>: some paths, and then either no write of a policy at all or
  the policy followed by erasures of paths only, when every desired path has been written.
\<close>

definition undo_write :: "map_write \<Rightarrow> bool" where
  "undo_write x = (case x of WritePath _ _ \<Rightarrow> True | ErasePath _ \<Rightarrow> True | _ \<Rightarrow> False)"

context logged_store
begin

lemma stage_paths_log:
  "stage_paths s kvs st w = (r, st', w') \<Longrightarrow>
    \<exists>n. log w' = log w @ map (case_prod WritePath) (take n kvs) \<and> (r = None \<longrightarrow> n = length kvs)"
proof (induction kvs arbitrary: st w)
  case Nil
  then show ?case by auto
next
  case (Cons kv kvs)
  obtain k v where kv: "kv = (k, v)" by force
  obtain u w1 where up: "UpdatePath s k v w = (u, w1)" by force
  note lg = UpdatePath_log [OF up]
  show ?case
  proof (cases u)
    case (Some e)
    with Cons.prems up lg show ?thesis by (auto simp: kv intro!: exI [of _ "0::nat"])
  next
    case None
    with Cons.prems up have rest: "stage_paths s kvs (st @ [k]) w1 = (r, st', w')" by (simp add: kv)
    from Cons.IH [OF rest] obtain n where n: "log w' = log w1 @ map (case_prod WritePath) (take n kvs)"
      "r = None \<longrightarrow> n = length kvs" by blast
    have "log w' = log w @ map (case_prod WritePath) (take (Suc n) (kv # kvs))" using n(1) lg None by (simp add: kv)
    moreover have "r = None \<longrightarrow> Suc n = length (kv # kvs)" using n(2) by simp
    ultimately show ?thesis by blast
  qed
qed

lemma rollback_paths_log:
  "rollback_paths s before ks w = (fs, w') \<Longrightarrow> \<exists>us. log w' = log w @ us \<and> list_all undo_write us"
proof (induction ks arbitrary: w fs)
  case Nil
  then show ?case by simp
next
  case (Cons k ks)
  obtain u w1 where op: "(case map_of before k of Some v \<Rightarrow> UpdatePath s k v w | None \<Rightarrow> DeletePath s k w) = (u, w1)"
    by force
  obtain fs' where rest: "rollback_paths s before ks w1 = (fs', w')"
    using Cons.prems op by (auto simp: Let_def split: prod.splits option.splits if_splits)
  from Cons.IH [OF rest] obtain us where us: "log w' = log w1 @ us" "list_all undo_write us" by blast
  have "\<exists>vs. log w1 = log w @ vs \<and> list_all undo_write vs"
    using op UpdatePath_log DeletePath_log by (fastforce simp: undo_write_def split: option.splits if_splits)
  then obtain vs where "log w1 = log w @ vs" "list_all undo_write vs" by blast
  with us show ?case by (intro exI [of _ "vs @ us"]) simp
qed

lemma delete_paths_log:
  "delete_paths s ks w = (fs, w') \<Longrightarrow> \<exists>es. log w' = log w @ map ErasePath es \<and> set es \<subseteq> set ks"
proof (induction ks arbitrary: w fs)
  case Nil
  then show ?case by simp
next
  case (Cons k ks)
  obtain u w1 where op: "DeletePath s k w = (u, w1)" by force
  obtain fs' where rest: "delete_paths s ks w1 = (fs', w')"
    using Cons.prems op by (auto simp: Let_def split: prod.splits option.splits if_splits)
  from Cons.IH [OF rest] obtain es where es: "log w' = log w1 @ map ErasePath es" "set es \<subseteq> set ks" by blast
  have "log w1 = log w @ map ErasePath (if u = None then [k] else [])" using DeletePath_log [OF op] by simp
  with es show ?case by (intro exI [of _ "(if u = None then [k] else []) @ es"]) auto
qed

lemma rollback_log:
  "rollback s before staged c w = (res, w') \<Longrightarrow> \<exists>us. log w' = log w @ us \<and> list_all undo_write us"
  using rollback_paths_log by (fastforce simp: rollback_def split: prod.splits)

lemma stage_and_commit_log:
  assumes run: "stage_and_commit s p key desired before w = (res, w')" and mp: "MapPolicy p = Ok mp"
  shows "\<exists>kvs us. log w' = log w @ map (case_prod WritePath) kvs @ us \<and>
    (list_all undo_write us \<or>
     mset kvs = mset desired \<and> (\<exists>es. us = WritePolicy key mp # map ErasePath es \<and>
       (\<forall>q \<in> set es. map_of desired q = None)))"
proof -
  obtain ns w1 where mo: "MapOrder s w = (ns, w1)" by force
  obtain se staged w2 where st: "stage_paths s (go_range ns desired) [] w1 = (se, staged, w2)" by (metis prod.exhaust)
  from stage_paths_log [OF st] obtain n where n: "log w2 = log w @ map (case_prod WritePath) (take n (go_range ns desired))"
    "se = None \<longrightarrow> n = length (go_range ns desired)" using MapOrder_log [OF mo] by auto
  note run' = run [unfolded stage_and_commit_def] mo st
  have undone: ?thesis if "log w3 = log w2" "rollback s before staged c w3 = (res, w')" for w3 c
    using rollback_log [OF that(2)] that(1) n(1) by auto
  show ?thesis
  proof (cases se)
    case (Some e)
    then show ?thesis using run' undone [OF refl] by simp
  next
    case None
    obtain ue w3 where up: "UpdatePolicy s key mp w2 = (ue, w3)" by force
    show ?thesis
    proof (cases ue)
      case (Some e)
      then show ?thesis using run' None mp up undone [of w3] UpdatePolicy_log [OF up] by simp
    next
      case ue: None
      obtain ns' w4 where mo': "MapOrder s w3 = (ns', w4)" by force
      let ?stale = "filter (\<lambda>k. map_of desired k = None) (map fst (go_range ns' before))"
      obtain fs w5 where dp: "delete_paths s ?stale w4 = (fs, w5)" by force
      have "w5 = w'" using run' None mp up ue mo' dp by simp
      from delete_paths_log [OF dp] obtain es where es: "log w5 = log w4 @ map ErasePath es" "set es \<subseteq> set ?stale"
        by blast
      have "log w' = log w @ map (case_prod WritePath) (go_range ns desired) @ WritePolicy key mp # map ErasePath es"
        using es(1) n None UpdatePolicy_log [OF up] ue MapOrder_log [OF mo'] \<open>w5 = w'\<close> by simp
      moreover have "\<forall>q \<in> set es. map_of desired q = None" using es(2) by auto
      ultimately show ?thesis using mset_go_range by blast
    qed
  qed
qed

lemma ApplyLive_log:
  assumes "ApplyLive s p key w = (res, w')"
  shows "log w' = log w \<or> (\<exists>desired before mp w2. DesiredPaths (plan_Policy p) key = Inr desired \<and>
    MapPolicy p = Ok mp \<and> log w2 = log w \<and> stage_and_commit s p key desired before w2 = (res, w'))"
proof -
  obtain old w1 where lk: "LookupPolicy s key w = (old, w1)" by force
  obtain before pe w2 where ps: "Paths s key w1 = ((before, pe), w2)" by (metis prod.exhaust)
  obtain cv where cv: "Config_Validate \<lparr>DualSteer = plan_Policy p\<rparr> = cv" by blast
  have lg: "log w1 = log w" "log w2 = log w" using LookupPolicy_log [OF lk] Paths_log [OF ps] by simp_all
  have "w' \<in> {w, w1, w2} \<or> cv = Ok () \<and> (\<exists>desired. DesiredPaths (plan_Policy p) key = Inr desired \<and>
      stage_and_commit s p key desired before w2 = (res, w'))"
    using assms [unfolded ApplyLive_def cv]
    by (cases cv; auto simp: lk ps split: if_splits sum.splits option.splits)
  then show ?thesis using lg cv MapPolicy_valid by blast
qed

end

section \<open>An example\<close>

text \<open>
  The connection and the policy the witnesses below use: two legs with one endpoint pair each, an
  older policy and two older paths in the maps, one of them no longer wanted.
\<close>

definition ex_key :: conn_key where
  "ex_key = \<lparr>ck_NetNSInode = 4026531840, ck_Token = 7, ck_Reserved = 0\<rparr>"

definition ex_leg :: "string \<Rightarrow> u32 \<Rightarrow> u32 \<Rightarrow> leg" where
  "ex_leg name w l = \<lparr>IfName = name, Weight = Some w, Endpoints = [\<lparr>LocalID = Some l, RemoteID = Some 0\<rparr>]\<rparr>"

definition ex_plan :: "u32 \<Rightarrow> plan" where
  "ex_plan gen = \<lparr>plan_Policy = \<lparr>Enabled = Some True, Generation = gen, Mode = ''load-balance'', RTTDeltaUS = 0,
     Legs = \<lparr>LegA = ex_leg ''wlan0'' 70 0, LegB = ex_leg ''wwan0'' 30 1\<rparr>, Connection = None\<rparr>,
     IfIndexA = 2, IfIndexB = 3\<rparr>"

definition ex_path :: "u32 \<Rightarrow> path_key" where
  "ex_path l = \<lparr>pk_Conn = ex_key, pk_LocalID = l, pk_RemoteID = 0\<rparr>"

definition ex_world :: "nat option list \<Rightarrow> bpf_world" where
  "ex_world faults =
     \<lparr>bw_policies = [(ex_key, \<lparr>mp_Generation = 1, mp_Enabled = 1, mp_Mode = 2, mp_WeightA = 50, mp_WeightB = 50, mp_RTTDeltaUS = 0\<rparr>)],
      bw_paths = [(ex_path 0, \<lparr>path_Generation = 1, path_Access = 0\<rparr>), (ex_path 9, \<lparr>path_Generation = 1, path_Access = 1\<rparr>)],
      bw_faults = faults, bw_orders = [[1]], bw_log = []\<rparr>"

definition ex_committed :: bpf_world where
  "ex_committed = snd (ApplyLive bpf_store (ex_plan 2) ex_key (ex_world []))"

lemma ex_apply_ok: "ApplyLive bpf_store (ex_plan 2) ex_key (ex_world []) = (Ok (), ex_committed)"
  by code_simp

section \<open>Properties\<close>

lemma MapPolicy_Generation: "MapPolicy p = Ok mp \<Longrightarrow> mp_Generation mp = Generation (plan_Policy p)"
  by (auto simp: MapPolicy_def Let_def split: option.splits)

lemma cleanup_error_Ok: "cleanup_error fs = Ok u \<longleftrightarrow> fs = []"
  by (auto simp: cleanup_error_def errors_Join_map_Some)

lemma cleanup_error_not_Joined: "cleanup_error fs \<noteq> Err (Joined es)"
  by (auto simp: cleanup_error_def errors_Join_map_Some)

text \<open>C7: a successful apply commits exactly the new generation.\<close>

theorem apply_live_commits:
  assumes laws: "map_store_laws s pol pth" and run: "ApplyLive s p key w = (Ok (), w')"
  shows "\<exists>mp. MapPolicy p = Ok mp \<and> pol w' = (pol w)(key \<mapsto> mp) \<and>
    (\<forall>q. pth w' q = (if pk_Conn q = key then desired_path (plan_Policy p) key q else pth w q)) \<and>
    (\<forall>old. pol w key = Some old \<longrightarrow> mp_Generation old < mp_Generation mp)"
  using run
proof (cases rule: map_store_laws.ApplyLive_phases [OF laws, consumes 1])
  case (3 desired mp fs)
  have "fs = []" using 3(6) cleanup_error_Ok by metis
  with 3 DesiredPaths_spec(2) [OF 3(4)] MapPolicy_Generation [OF 3(5)] show ?thesis by auto
qed simp_all

lemma apply_live_commits_witness:
  "\<exists>mp. MapPolicy (ex_plan 2) = Ok mp \<and> policies ex_committed = (policies (ex_world []))(ex_key \<mapsto> mp) \<and>
    (\<forall>q. paths ex_committed q = (if pk_Conn q = ex_key then desired_path (plan_Policy (ex_plan 2)) ex_key q
      else paths (ex_world []) q)) \<and>
    (\<forall>old. policies (ex_world []) ex_key = Some old \<longrightarrow> mp_Generation old < mp_Generation mp)"
  by (rule apply_live_commits [OF bpf_store_laws ex_apply_ok])

text \<open>
  C6: no call of \<open>ApplyLive\<close>, however it fails, loses or spoils the paths of the policy it leaves in
  the map. Without a commit the policy is the old one and every path is as before or, when a
  compensating write failed and the error says so, still the staged one: no path it had is gone.
  With the commit every path of the new policy is in place, and every other is as before or erased.
\<close>

theorem apply_live_never_partial:
  assumes laws: "map_store_laws s pol pth" and run: "ApplyLive s p key w = (res, w')"
  shows "res \<noteq> Panic \<and> (\<forall>k. k \<noteq> key \<longrightarrow> pol w' k = pol w k) \<and> (\<forall>q. pk_Conn q \<noteq> key \<longrightarrow> pth w' q = pth w q) \<and>
    ((\<exists>e. res = Err e) \<and> pol w' key = pol w key \<and>
      (\<forall>q. pth w' q = pth w q \<or> pth w' q \<noteq> None \<and> pth w' q = desired_path (plan_Policy p) key q) \<and>
      (pth w' = pth w \<or> (\<exists>c f fs. res = Err (Joined (c # f # fs)))) \<or>
     (\<exists>mp. MapPolicy p = Ok mp \<and> pol w' key = Some mp \<and>
       (\<forall>q v. desired_path (plan_Policy p) key q = Some v \<longrightarrow> pth w' q = Some v) \<and>
       (\<forall>q. desired_path (plan_Policy p) key q = None \<longrightarrow> pth w' q = pth w q \<or> pth w' q = None)))"
  using run
proof (cases rule: map_store_laws.ApplyLive_phases [OF laws, consumes 1])
  case (1 e)
  then show ?thesis by simp
next
  case (2 c fs)
  have "pth w' = pth w \<or> (\<exists>c f fs. res = Err (Joined (c # f # fs)))" using 2(1,4) by (cases fs) auto
  with 2 show ?thesis by simp
next
  case (3 desired mp fs)
  have "res \<noteq> Panic" using 3(6) by (simp add: cleanup_error_def split: option.splits)
  moreover have "(\<forall>v. desired_path (plan_Policy p) key q = Some v \<longrightarrow> pth w' q = Some v) \<and>
      (desired_path (plan_Policy p) key q = None \<longrightarrow> pth w' q = pth w q \<or> pth w' q = None)" for q
    using 3(10,11) [of q] DesiredPaths_spec(2) [OF 3(4)] by simp
  ultimately show ?thesis using 3(5,7,9) by simp
qed

text \<open>
  The commit fails, and so does the restoring of the old path of leg A: the old policy keeps both of
  its paths, one of them with the new generation.
\<close>

lemma apply_live_never_partial_witness:
  "\<exists>res w'. ApplyLive bpf_store (ex_plan 2) ex_key (ex_world [None, None, None, None, Some 12, Some 5, Some 5]) = (res, w') \<and>
    policies w' ex_key = policies (ex_world []) ex_key \<and>
    (\<forall>q. paths (ex_world []) q \<noteq> None \<longrightarrow> paths w' q \<noteq> None) \<and> paths w' (ex_path 0) \<noteq> paths (ex_world []) (ex_path 0)"
proof -
  let ?w = "ex_world [None, None, None, None, Some 12, Some 5, Some 5]"
  obtain res w' where run: "ApplyLive bpf_store (ex_plan 2) ex_key ?w = (res, w')" by force
  have "policies (snd (ApplyLive bpf_store (ex_plan 2) ex_key ?w)) ex_key = policies (ex_world []) ex_key"
    "paths (snd (ApplyLive bpf_store (ex_plan 2) ex_key ?w)) (ex_path 0) = Some \<lparr>path_Generation = 2, path_Access = 0\<rparr>"
    "MapPolicy (ex_plan 2) \<noteq> Ok (the (policies (ex_world []) ex_key))"
    "paths (ex_world []) (ex_path 0) = Some \<lparr>path_Generation = 1, path_Access = 0\<rparr>"
    "policies (ex_world []) ex_key \<noteq> None" by code_simp+
  moreover have "paths ?w = paths (ex_world [])" by (simp add: paths_def ex_world_def fun_eq_iff)
  moreover have "paths w' q \<noteq> None" if "paths (ex_world []) q \<noteq> None" for q
    using apply_live_never_partial [OF bpf_store_laws run] calculation run that by auto metis
  ultimately show ?thesis using run by (intro exI [of _ res] exI [of _ w']) auto
qed

text \<open>C8: when the transaction fails before the commit and every compensating write succeeds, both maps are restored.\<close>

theorem apply_live_rollback:
  assumes laws: "map_store_laws s pol pth" and run: "ApplyLive s p key w = (Err (Joined [cause]), w')"
  shows "pol w' = pol w \<and> pth w' = pth w"
  using run
proof (cases rule: map_store_laws.ApplyLive_phases [OF laws, consumes 1])
  case (3 desired mp fs)
  then show ?thesis using cleanup_error_not_Joined [of fs "[cause]"] by metis
qed simp_all

lemma apply_live_rollback_witness:
  "\<exists>cause w'. ApplyLive bpf_store (ex_plan 2) ex_key (ex_world [None, None, None, Some 12]) = (Err (Joined [cause]), w') \<and>
    paths w' = paths (ex_world [])"
proof -
  let ?w = "ex_world [None, None, None, Some 12]"
  let ?c = "Errorf ''stage path'' [Errno 12]"
  obtain w' where run: "ApplyLive bpf_store (ex_plan 2) ex_key ?w = (Err (Joined [?c]), w')"
  proof -
    have "fst (ApplyLive bpf_store (ex_plan 2) ex_key ?w) = Err (Joined [?c])" by code_simp
    then show ?thesis by (intro that [of "snd (ApplyLive bpf_store (ex_plan 2) ex_key ?w)"]) (simp add: prod_eq_iff)
  qed
  have "paths ?w = paths (ex_world [])" by (simp add: paths_def ex_world_def fun_eq_iff)
  with run apply_live_rollback [OF bpf_store_laws run] show ?thesis by auto
qed

text \<open>C10: a plan whose generation does not exceed the committed one is rejected without any write.\<close>

theorem apply_live_stale:
  assumes laws: "map_store_laws s pol pth" and old: "pol w key = Some old" "Generation (plan_Policy p) \<le> mp_Generation old"
    and run: "ApplyLive s p key w = (res, w')"
  shows "\<exists>e. res = Err e \<and> pol w' = pol w \<and> pth w' = pth w"
  using run
proof (cases rule: map_store_laws.ApplyLive_cases [OF laws, consumes 1])
  case (1 e)
  then show ?thesis by simp
next
  case 2
  from 2(6) [OF old(1)] old(2) show ?thesis by simp
qed

lemma apply_live_stale_witness:
  "\<exists>e w'. ApplyLive bpf_store (ex_plan 1) ex_key (ex_world []) = (Err e, w') \<and> paths w' = paths (ex_world [])"
proof -
  obtain res w' where run: "ApplyLive bpf_store (ex_plan 1) ex_key (ex_world []) = (res, w')" by force
  have "policies (ex_world []) ex_key =
      Some \<lparr>mp_Generation = 1, mp_Enabled = 1, mp_Mode = 2, mp_WeightA = 50, mp_WeightB = 50, mp_RTTDeltaUS = 0\<rparr>"
    by code_simp
  from apply_live_stale [OF bpf_store_laws this _ run] run show ?thesis by (auto simp: ex_plan_def)
qed

text \<open>C11: with room for the desired paths and no failing call, a valid newer plan is committed.\<close>

theorem apply_live_progress:
  assumes "reliable_store s pol pth ok" "Config_Validate \<lparr>DualSteer = plan_Policy p\<rparr> = Ok ()"
    "ck_NetNSInode key \<noteq> 0" "ck_Reserved key = 0" "DesiredPaths (plan_Policy p) key = Inr desired"
    "\<forall>old. pol w key = Some old \<longrightarrow> mp_Generation old < Generation (plan_Policy p)"
    "ok (length desired + Suc n) w"
  shows "\<exists>w'. ApplyLive s p key w = (Ok (), w') \<and> ok n w'"
  using reliable_store.ApplyLive_reliable [OF assms(1-5) _ assms(7)] assms(6) by blast

lemma apply_live_progress_witness:
  "\<exists>w'. ApplyLive bpf_store (ex_plan 2) ex_key (ex_world [None]) = (Ok (), w') \<and> bpf_reliable 5 w'"
proof (rule apply_live_progress [where desired = "[(ex_path 0, \<lparr>path_Generation = 2, path_Access = 0\<rparr>),
    (ex_path 1, \<lparr>path_Generation = 2, path_Access = 1\<rparr>)]"])
  show "reliable_store bpf_store policies paths bpf_reliable"
    unfolding bpf_store_def by (rule bpf_reliably.reliable_store_axioms)
  show "Config_Validate \<lparr>DualSteer = plan_Policy (ex_plan 2)\<rparr> = Ok ()" by code_simp
  show "ck_NetNSInode ex_key \<noteq> 0" "ck_Reserved ex_key = 0" by code_simp+
  show "DesiredPaths (plan_Policy (ex_plan 2)) ex_key = Inr [(ex_path 0, \<lparr>path_Generation = 2, path_Access = 0\<rparr>),
    (ex_path 1, \<lparr>path_Generation = 2, path_Access = 1\<rparr>)]" by code_simp
  show "\<forall>old. policies (ex_world [None]) ex_key = Some old \<longrightarrow> mp_Generation old < Generation (plan_Policy (ex_plan 2))"
    by (simp add: policies_def ex_world_def ex_plan_def)
  show "bpf_reliable (length [(ex_path 0, \<lparr>path_Generation = 2, path_Access = 0\<rparr>),
    (ex_path 1, \<lparr>path_Generation = 2, path_Access = 1\<rparr>)] + Suc 5) (ex_world [None])"
    by (simp add: bpf_reliable_def ex_world_def DS_MAX_CONNECTIONS_def DS_MAX_PATHS_def)
qed

text \<open>C9: the order of the writes the scheduler sees.\<close>

theorem apply_live_write_order:
  assumes laws: "logged_store s pol pth log" and run: "ApplyLive s p key w = (res, w')"
  shows "\<exists>kvs us. log w' = log w @ map (case_prod WritePath) kvs @ us \<and>
    (list_all undo_write us \<or>
     (\<exists>desired mp es. DesiredPaths (plan_Policy p) key = Inr desired \<and> mset kvs = mset desired \<and>
       MapPolicy p = Ok mp \<and> us = WritePolicy key mp # map ErasePath es \<and> (\<forall>q \<in> set es. map_of desired q = None)))"
proof -
  from logged_store.ApplyLive_log [OF laws run] show ?thesis
  proof
    assume "log w' = log w"
    then show ?thesis by (intro exI [of _ "[]"]) simp
  next
    assume "\<exists>desired before mp w2. DesiredPaths (plan_Policy p) key = Inr desired \<and> MapPolicy p = Ok mp \<and>
      log w2 = log w \<and> stage_and_commit s p key desired before w2 = (res, w')"
    then obtain desired before mp w2 where d: "DesiredPaths (plan_Policy p) key = Inr desired" "MapPolicy p = Ok mp"
      "log w2 = log w" "stage_and_commit s p key desired before w2 = (res, w')" by blast
    from logged_store.stage_and_commit_log [OF laws d(4,2)] d(1-3) show ?thesis by metis
  qed
qed

lemma bpf_store_logged: "logged_store bpf_store policies paths bw_log"
  unfolding bpf_store_def by (rule bpf_logged.logged_store_axioms)

lemma apply_live_write_order_witness:
  "bw_log ex_committed = [WritePath (ex_path 1) \<lparr>path_Generation = 2, path_Access = 1\<rparr>,
     WritePath (ex_path 0) \<lparr>path_Generation = 2, path_Access = 0\<rparr>,
     WritePolicy ex_key \<lparr>mp_Generation = 2, mp_Enabled = 1, mp_Mode = 1, mp_WeightA = 70, mp_WeightB = 30, mp_RTTDeltaUS = 0\<rparr>,
     ErasePath (ex_path 9)] \<and>
   (\<exists>kvs us. bw_log ex_committed = bw_log (ex_world []) @ map (case_prod WritePath) kvs @ us)"
proof
  show "\<exists>kvs us. bw_log ex_committed = bw_log (ex_world []) @ map (case_prod WritePath) kvs @ us"
    using apply_live_write_order [OF bpf_store_logged ex_apply_ok] by blast
qed code_simp

text \<open>C12: deletion removes the policy before any path, touches one connection, and is complete when it succeeds.\<close>

theorem delete_live_complete:
  assumes laws: "map_store_laws s pol pth" and run: "DeleteLive s key w = (e, w')"
  shows "(\<forall>k. k \<noteq> key \<longrightarrow> pol w' k = pol w k) \<and> (\<forall>q. pk_Conn q \<noteq> key \<longrightarrow> pth w' q = pth w q) \<and>
    (\<forall>q. pth w' q = pth w q \<or> pth w' q = None) \<and> (pol w' key \<noteq> None \<longrightarrow> pth w' = pth w) \<and>
    (e = None \<longrightarrow> pol w' key = None \<and> (\<forall>q. pk_Conn q = key \<longrightarrow> pth w' q = None))"
  using map_store_laws.DeleteLive_spec [OF laws run] by (elim conjE) (intro conjI; assumption)

lemma delete_live_complete_witness:
  "policies (snd (DeleteLive bpf_store ex_key (ex_world []))) ex_key = None"
proof -
  obtain e w' where run: "DeleteLive bpf_store ex_key (ex_world []) = (e, w')" by force
  have "fst (DeleteLive bpf_store ex_key (ex_world [])) = None" by code_simp
  with run delete_live_complete [OF bpf_store_laws run] show ?thesis by simp
qed

end
