(* ===== verification/DaemonRuns.thy ===== *)
theory DaemonRuns
  imports DaemonConverge LiveProgress
begin

text \<open>
  Runs of the daemon: sequences of the exported operations from a fresh daemon over an empty
  namespace, interleaved with changes other writers make in other namespaces. The invariant of
  \<open>DaemonInv\<close> holds in every state a run reaches. The locale \<open>daemon_laws\<close> is interpreted on the BPF
  world with the address validator of the code, and the properties are checked there on a
  concrete run: an assignment, two subflows, a later generation and a deletion.
\<close>

section \<open>Runs\<close>

datatype daemon_command =
    CPut cp_assignment
  | CDelete string
  | CObserve pm_event
  | CRetry
  | CFail go_error

fun run_command :: "('w, 'z) daemon_env_scheme \<Rightarrow> daemon_command \<Rightarrow> daemon \<Rightarrow> 'w \<Rightarrow> unit outcome \<times> daemon \<times> 'w" where
  "run_command s (CPut a) d w = Daemon_Put s a d w"
| "run_command s (CDelete cid) d w = Daemon_Delete s cid d w"
| "run_command s (CObserve e) d w = Daemon_Observe s e d w"
| "run_command s CRetry d w = Daemon_Retry s d w"
| "run_command s (CFail e) d w = (Ok (), Daemon_Fail (Some e) d, w)"

definition empty_namespace :: "u64 \<Rightarrow> (conn_key \<Rightarrow> map_policy option) \<Rightarrow> (path_key \<Rightarrow> map_path option) \<Rightarrow> bool" where
  "empty_namespace n P T \<longleftrightarrow> (\<forall>k. ck_NetNSInode k = n \<longrightarrow> unmapped k P T)"

text \<open>What other writers may do between two operations: anything outside the namespace.\<close>

definition namespace_same :: "u64 \<Rightarrow> (conn_key \<Rightarrow> map_policy option) \<Rightarrow> (path_key \<Rightarrow> map_path option) \<Rightarrow>
    (conn_key \<Rightarrow> map_policy option) \<Rightarrow> (path_key \<Rightarrow> map_path option) \<Rightarrow> bool" where
  "namespace_same n P T P' T' \<longleftrightarrow>
     (\<forall>k. ck_NetNSInode k = n \<longrightarrow> P' k = P k) \<and> (\<forall>q. ck_NetNSInode (pk_Conn q) = n \<longrightarrow> T' q = T q)"

inductive daemon_reach :: "('w, 'z) daemon_env_scheme \<Rightarrow> ('w \<Rightarrow> conn_key \<Rightarrow> map_policy option) \<Rightarrow>
    ('w \<Rightarrow> path_key \<Rightarrow> map_path option) \<Rightarrow> u64 \<Rightarrow> daemon \<Rightarrow> 'w \<Rightarrow> bool"
  for s pol pth n where
  start: "empty_namespace n (pol w) (pth w) \<Longrightarrow> daemon_reach s pol pth n (NewDaemon n) w"
| command: "daemon_reach s pol pth n d w \<Longrightarrow> run_command s cmd d w = (r, d', w') \<Longrightarrow> daemon_reach s pol pth n d' w'"
| other_writers: "daemon_reach s pol pth n d w \<Longrightarrow> namespace_same n (pol w) (pth w) (pol w') (pth w') \<Longrightarrow>
    daemon_reach s pol pth n d w'"

lemma NewDaemon_inv: "empty_namespace n P T \<Longrightarrow> daemon_inv (NewDaemon n) P T"
  by (simp add: daemon_inv_def state_ok_def contexts_ok_def maps_ok_alt generations_ok_def NewDaemon_def empty_namespace_def)

lemma namespace_same_unmapped:
  "namespace_same n P T P' T' \<Longrightarrow> ck_NetNSInode k = n \<Longrightarrow> unmapped k P' T' = unmapped k P T"
  unfolding namespace_same_def unmapped_def by metis

lemma namespace_same_inv:
  assumes inv: "daemon_inv d P T" and same: "namespace_same (d_netns d) P T P' T'"
  shows "daemon_inv d P' T'"
proof -
  have "maps_ok d P' T'"
    using inv namespace_same_unmapped [OF same] by (simp add: daemon_inv_def maps_ok_alt)
  moreover have "P' (conn_of d t) = P (conn_of d t)" for t using same by (simp add: namespace_same_def)
  then have "generations_ok d P'" using inv by (simp add: daemon_inv_def generations_ok_def)
  ultimately show ?thesis using inv by (simp add: daemon_inv_def)
qed

lemma Fail_simps [simp]:
  "d_netns (Daemon_Fail e d) = d_netns d" "d_connections (Daemon_Fail e d) = d_connections d"
  "d_contexts (Daemon_Fail e d) = d_contexts d" "conn_of (Daemon_Fail e d) = conn_of d"
  "owned (Daemon_Fail e d) = owned d"
  by (simp_all add: Daemon_Fail_def conn_of_def owned_def fun_eq_iff)

lemma Fail_inv: "daemon_inv d P T \<Longrightarrow> daemon_inv (Daemon_Fail e d) P T"
  by (simp add: daemon_inv_def state_ok_def maps_ok_def generations_ok_def)

context daemon_laws
begin

lemma run_command_ok:
  assumes inv: "daemon_inv d (pol w) (pth w)" and run: "run_command s cmd d w = (r, d', w')"
  shows "op_ok d (pol w) (pth w) r d' (pol w') (pth w')"
proof (cases cmd)
  case (CPut a)
  then show ?thesis using Daemon_Put_ok [OF inv] run by simp
next
  case (CDelete cid)
  then show ?thesis using Daemon_Delete_ok [OF inv] run by simp
next
  case (CObserve e)
  then show ?thesis using Daemon_Observe_ok [OF inv] run by simp
next
  case CRetry
  then show ?thesis using reconcileLocked_ok [OF inv] run by (simp add: Daemon_Retry_def)
next
  case (CFail e)
  then have "r = Ok ()" "d' = Daemon_Fail (Some e) d" "w' = w" using run by simp_all
  then show ?thesis using Fail_inv [OF inv] by (simp add: op_ok_def)
qed

lemma reach_inv:
  "daemon_reach s pol pth n d w \<Longrightarrow> daemon_inv d (pol w) (pth w) \<and> d_netns d = n"
proof (induction rule: daemon_reach.induct)
  case (start w)
  then show ?case using NewDaemon_inv by (simp add: NewDaemon_def)
next
  case (command d w cmd r d' w')
  then show ?case using run_command_ok [of d w cmd r d' w'] by (simp add: op_ok_def)
next
  case (other_writers d w w')
  then show ?case using namespace_same_inv by blast
qed

end

section \<open>The BPF world\<close>

lemma with_validator_simps [simp]:
  "LookupPolicy (with_validator r v) = LookupPolicy r" "UpdatePolicy (with_validator r v) = UpdatePolicy r"
  "DeletePolicy (with_validator r v) = DeletePolicy r" "Paths (with_validator r v) = Paths r"
  "UpdatePath (with_validator r v) = UpdatePath r" "DeletePath (with_validator r v) = DeletePath r"
  "MapOrder (with_validator r v) = MapOrder r" "ValidateAddr (with_validator r v) = v"
  by (simp_all add: with_validator_def)

lemma with_validator_laws: "map_store_laws r pol pth \<Longrightarrow> map_store_laws (with_validator r v) pol pth"
  by (simp add: map_store_laws_def)

definition bpf_env :: "iface list \<Rightarrow> bpf_world daemon_env" where
  "bpf_env ifs = with_validator bpf_store (\<lambda>leg w. (ValidateLegAddress ifs leg, w))"

interpretation bpf_daemon: daemon_laws "bpf_env ifs" policies paths for ifs
  unfolding bpf_env_def
  by (intro daemon_laws.intro with_validator_laws bpf_store_laws daemon_laws_axioms.intro) simp

section \<open>A run\<close>

fun run_commands :: "('w, 'z) daemon_env_scheme \<Rightarrow> daemon_command list \<Rightarrow> daemon \<Rightarrow> 'w \<Rightarrow> daemon \<times> 'w" where
  "run_commands s [] d w = (d, w)"
| "run_commands s (c # cs) d w = (case run_command s c d w of (r, d1, w1) \<Rightarrow> run_commands s cs d1 w1)"

lemma run_commands_reach:
  "daemon_reach s pol pth n d w \<Longrightarrow> run_commands s cs d w = (d', w') \<Longrightarrow> daemon_reach s pol pth n d' w'"
proof (induction cs arbitrary: d w)
  case Nil
  then show ?case by simp
next
  case (Cons c cs)
  obtain r d1 w1 where rc: "run_command s c d w = (r, d1, w1)" by (metis prod.exhaust)
  with Cons.prems(2) have "run_commands s cs d1 w1 = (d', w')" by simp
  with Cons.IH daemon_reach.command [OF Cons.prems(1) rc] show ?case by blast
qed

definition ex_ifs :: "iface list" where
  "ex_ifs = [\<lparr>if_Name = ''wlan0'', if_Index = 2, if_Addrs = Inr [''192.0.2.10/24'']\<rparr>,
             \<lparr>if_Name = ''wwan0'', if_Index = 3, if_Addrs = Inr [''2001:db8::2/64'', ''198.51.100.10/24'']\<rparr>]"

definition ex_assignment :: "string \<Rightarrow> u16 \<Rightarrow> u32 \<Rightarrow> cp_assignment" where
  "ex_assignment cid port gen =
     \<lparr>cp_ContextSpec = \<lparr>cp_ID = cid, cp_DNN = ''internet'',
        cp_Legs = \<lparr>cp_A = \<lparr>cp_IfName = ''wlan0'', cp_LocalAddress = ''192.0.2.10''\<rparr>,
                   cp_B = \<lparr>cp_IfName = ''wwan0'', cp_LocalAddress = ''198.51.100.10''\<rparr>\<rparr>,
        cp_Flow = \<lparr>cp_DestinationAddress = ''203.0.113.5'', cp_DestinationPort = port\<rparr>\<rparr>,
      cp_Policy = \<lparr>cp_Enabled = True, cp_Mode = ''load-balance'', cp_WeightA = 70, cp_WeightB = 30, cp_RTTDeltaUS = 0\<rparr>,
      cp_Generation = gen\<rparr>"

definition ex_event :: "u8 \<Rightarrow> u32 \<Rightarrow> u8 \<Rightarrow> pm_event" where
  "ex_event ty token lid =
     \<lparr>ev_Type = ty, ev_Token = token, ev_LocalID = lid, ev_RemoteID = 0,
      ev_LocalAddress = (if lid = 0 then IPv4 0xC000020A else IPv4 0xC633640A),
      ev_DestinationAddress = IPv4 0xCB007105, ev_LocalPort = 50000, ev_DestinationPort = 443,
      ev_IfIndex = (if lid = 0 then 2 else 3)\<rparr>"

definition ex_netns :: u64 where
  "ex_netns = 4026531840"

definition ex_empty :: "nat option list \<Rightarrow> bpf_world" where
  "ex_empty faults = \<lparr>bw_policies = [], bw_paths = [], bw_faults = faults, bw_orders = [[1], [2, 1]], bw_log = []\<rparr>"

definition ex_commands :: "daemon_command list" where
  "ex_commands = [CPut (ex_assignment ''ctx1'' 443 1), CObserve (ex_event 2 7 0), CObserve (ex_event 10 7 1)]"

definition ex_run :: "daemon_command list \<Rightarrow> daemon \<times> bpf_world" where
  "ex_run cs = run_commands (bpf_env ex_ifs) cs (NewDaemon ex_netns) (ex_empty [])"

lemma ex_run_reach: "daemon_reach (bpf_env ex_ifs) policies paths ex_netns (fst (ex_run cs)) (snd (ex_run cs))"
proof -
  have "empty_namespace ex_netns (policies (ex_empty [])) (paths (ex_empty []))"
    by (simp add: empty_namespace_def unmapped_def policies_def paths_def ex_empty_def)
  then have "daemon_reach (bpf_env ex_ifs) policies paths ex_netns (NewDaemon ex_netns) (ex_empty [])"
    by (rule daemon_reach.start)
  from run_commands_reach [OF this] show ?thesis by (simp add: ex_run_def)
qed

lemma bpf_env_laws: "daemon_laws (bpf_env ifs) policies paths"
  by (rule bpf_daemon.daemon_laws_axioms)

definition ex_conn :: conn_key where
  "ex_conn = \<lparr>ck_NetNSInode = ex_netns, ck_Token = 7, ck_Reserved = 0\<rparr>"

definition ex_path_of :: "u32 \<Rightarrow> path_key" where
  "ex_path_of l = \<lparr>pk_Conn = ex_conn, pk_LocalID = l, pk_RemoteID = 0\<rparr>"

text \<open>The daemon and the maps after the three commands.\<close>

definition ex_daemon :: daemon where
  "ex_daemon = \<lparr>d_netns = ex_netns,
     d_contexts = [(''ctx1'', \<lparr>dc_assignment = ex_assignment ''ctx1'' 443 1, dc_deleting = False\<rparr>)],
     d_connections = [(7, \<lparr>oc_initial = Some (ex_event 2 7 0),
       oc_flows = [(eventFlow (ex_event 2 7 0), ex_event 2 7 0), (eventFlow (ex_event 10 7 1), ex_event 10 7 1)],
       oc_owner = ''ctx1'', oc_closed = False, oc_lastError = None\<rparr>)],
     d_fatal = None\<rparr>"

definition ex_bound :: bpf_world where
  "ex_bound = \<lparr>bw_policies = [(ex_conn, assigned_policy (ex_assignment ''ctx1'' 443 1))],
     bw_paths = [(ex_path_of 0, \<lparr>path_Generation = 1, path_Access = 0\<rparr>), (ex_path_of 1, \<lparr>path_Generation = 1, path_Access = 1\<rparr>)],
     bw_faults = [], bw_orders = [],
     bw_log = [WritePath (ex_path_of 0) \<lparr>path_Generation = 1, path_Access = 0\<rparr>,
       WritePath (ex_path_of 1) \<lparr>path_Generation = 1, path_Access = 1\<rparr>,
       WritePolicy ex_conn (assigned_policy (ex_assignment ''ctx1'' 443 1))]\<rparr>"

lemma ex_run_bound: "ex_run ex_commands = (ex_daemon, ex_bound)"
  by code_simp

lemma ex_bound_reach: "daemon_reach (bpf_env ex_ifs) policies paths ex_netns ex_daemon ex_bound"
  using ex_run_reach [of ex_commands] by (simp add: ex_run_bound)

end
