(* ===== verification/DaemonProperties.thy ===== *)
theory DaemonProperties
  imports DaemonRuns
begin

text \<open>
  The properties of the daemon over all its runs: what it leaves in the maps, what it refuses, and
  what a successful reconciliation and the cleanup achieve. Each is followed by an instance on the
  run of \<open>DaemonRuns\<close>.
\<close>

section \<open>The maps and the connections\<close>

text \<open>C3: every map entry in the daemon's namespace belongs to a connection it observes and has assigned to a context it holds.\<close>

theorem daemon_no_orphans:
  assumes "daemon_laws s pol pth" "daemon_reach s pol pth n d w" "ck_NetNSInode k = n"
    and "pol w k \<noteq> None \<or> (\<exists>q. pk_Conn q = k \<and> pth w q \<noteq> None)"
  shows "ck_Reserved k = 0 \<and> (\<exists>c dc. map_of (d_connections d) (ck_Token k) = Some c \<and>
    map_of (d_contexts d) (oc_owner c) = Some dc \<and>
    (\<forall>mp. pol w k = Some mp \<longrightarrow> mp_Generation mp < cp_Generation (dc_assignment dc) \<or>
       mp = assigned_policy (dc_assignment dc)))"
proof -
  have inv: "daemon_inv d (pol w) (pth w)" and n: "d_netns d = n"
    using daemon_laws.reach_inv [OF assms(1,2)] by simp_all
  have m: "k = conn_of d (ck_Token k) \<and> owned d (ck_Token k)"
  proof -
    have "maps_ok d (pol w) (pth w)" using inv by (simp add: daemon_inv_def)
    moreover have "\<not> unmapped k (pol w) (pth w)" using assms(4) by (auto simp: unmapped_def)
    ultimately show ?thesis using assms(3) n unfolding maps_ok_alt by metis
  qed
  then obtain c where c: "map_of (d_connections d) (ck_Token k) = Some c" "oc_owner c \<noteq> []"
    by (auto simp: owned_def)
  then obtain dc where dc: "map_of (d_contexts d) (oc_owner c) = Some dc"
    using inv_connection [OF inv c(1)] by (auto simp: connection_ok_def)
  have "policy_follows mp (dc_assignment dc)" if "pol w k = Some mp" for mp
    using inv_follows [OF inv c(1) dc, of mp] that m by simp
  moreover have "ck_Reserved k = 0" using m by (metis conn_of_simps(3))
  ultimately show ?thesis using c dc by (auto simp: policy_follows_def)
qed

lemma daemon_no_orphans_witness:
  "policies ex_bound ex_conn = Some (assigned_policy (ex_assignment ''ctx1'' 443 1)) \<and>
    (\<exists>c dc. map_of (d_connections ex_daemon) 7 = Some c \<and> map_of (d_contexts ex_daemon) (oc_owner c) = Some dc)"
proof -
  have p: "policies ex_bound ex_conn = Some (assigned_policy (ex_assignment ''ctx1'' 443 1))"
    by (simp add: policies_def ex_bound_def)
  have k: "ck_NetNSInode ex_conn = ex_netns" "ck_Token ex_conn = 7" by (simp_all add: ex_conn_def)
  from daemon_no_orphans [OF bpf_env_laws ex_bound_reach k(1)] p k(2) show ?thesis by auto
qed

text \<open>C4: no operation of a run panics, changes an entry of another namespace, or leaves the capacities of its tables.\<close>

theorem daemon_isolated:
  assumes "daemon_laws s pol pth" "daemon_reach s pol pth n d w" "run_command s cmd d w = (r, d', w')"
  shows "r \<noteq> Panic \<and> (\<forall>k. ck_NetNSInode k \<noteq> n \<longrightarrow> pol w' k = pol w k) \<and>
    (\<forall>q. ck_NetNSInode (pk_Conn q) \<noteq> n \<longrightarrow> pth w' q = pth w q) \<and>
    length (d_contexts d') \<le> 1024 \<and> length (d_connections d') \<le> 4096 \<and>
    (\<forall>t c. map_of (d_connections d') t = Some c \<longrightarrow> length (oc_flows c) \<le> 256)"
proof -
  have inv: "daemon_inv d (pol w) (pth w)" and n: "d_netns d = n"
    using daemon_laws.reach_inv [OF assms(1,2)] by simp_all
  have ok: "op_ok d (pol w) (pth w) r d' (pol w') (pth w')" by (rule daemon_laws.run_command_ok [OF assms(1) inv assms(3)])
  then have "daemon_inv d' (pol w') (pth w')" by (simp add: op_ok_def)
  then have st: "contexts_ok (d_contexts d')" "length (d_connections d') \<le> 4096"
    "\<And>t c. map_of (d_connections d') t = Some c \<Longrightarrow> connection_ok (d_contexts d') c"
    by (simp_all add: daemon_inv_def state_ok_def)
  show ?thesis
    using ok n st by (simp add: op_ok_def outside_same_def contexts_ok_def connection_ok_def)
qed

lemma daemon_isolated_witness:
  "fst (run_command (bpf_env ex_ifs) (CObserve (ex_event 3 7 0)) ex_daemon ex_bound) \<noteq> Panic"
proof -
  obtain r d' w' where run: "run_command (bpf_env ex_ifs) (CObserve (ex_event 3 7 0)) ex_daemon ex_bound = (r, d', w')"
    by (metis prod.exhaust)
  from daemon_isolated [OF bpf_env_laws ex_bound_reach run] run show ?thesis by simp
qed

section \<open>Reconciliation\<close>

text \<open>
  A reconciliation that returns no error has dropped every closed connection and every deleted
  context, and has left, for each connection, nothing in the maps or exactly the policy of its
  context and the paths of its observed flows. \<open>DaemonRefinement\<close> states this over whole maps.
\<close>

theorem reconcile_converges:
  assumes "daemon_laws s pol pth" "daemon_reach s pol pth n d w" "Daemon_Retry s d w = (Ok (), d', w')"
    and "map_of (d_connections d') t = Some c"
  shows "\<not> oc_closed c \<and> (\<forall>cid dc. map_of (d_contexts d') cid = Some dc \<longrightarrow> \<not> dc_deleting dc) \<and>
    (case map_of (d_contexts d') (oc_owner c) of
       None \<Rightarrow> unmapped (conn_of d' t) (pol w') (pth w')
     | Some dc \<Rightarrow> settled (conn_of d' t) (dc_assignment dc) c (pol w') (pth w'))"
proof -
  have inv: "daemon_inv d (pol w) (pth w)" using daemon_laws.reach_inv [OF assms(1,2)] by simp
  have run: "reconcileLocked s d w = (Ok (), d', w')" using assms(3) by (simp add: Daemon_Retry_def)
  have ok: "op_ok d (pol w) (pth w) (Ok ()) d' (pol w') (pth w')"
    using daemon_laws.reconcileLocked_ok [OF assms(1) inv run] by simp
  then have inv': "daemon_inv d' (pol w') (pth w')" by (simp add: op_ok_def)
  note r = daemon_laws.reconcileLocked_done [OF assms(1) inv run, of t]
  show ?thesis
  proof (cases "map_of (d_contexts d') (oc_owner c)")
    case None
    then have "oc_owner c = []" using inv_connection [OF inv' assms(4)] by (auto simp: connection_ok_def)
    then show ?thesis using r assms(4) None by (simp add: conn_done_def)
  next
    case (Some dc)
    then show ?thesis using r assms(4) by (simp add: conn_done_def)
  qed
qed

lemma reconcile_converges_witness:
  "settled ex_conn (ex_assignment ''ctx1'' 443 1) (the (map_of (d_connections ex_daemon) 7)) (policies ex_bound) (paths ex_bound)"
proof -
  have run: "Daemon_Retry (bpf_env ex_ifs) ex_daemon ex_bound = (Ok (), ex_daemon, ex_bound)" by code_simp
  obtain c where c: "map_of (d_connections ex_daemon) 7 = Some c" "oc_owner c = ''ctx1''" by (simp add: ex_daemon_def)
  have "conn_of ex_daemon 7 = ex_conn" by (simp add: conn_of_def ex_daemon_def ex_conn_def)
  moreover have "map_of (d_contexts ex_daemon) ''ctx1'' = Some \<lparr>dc_assignment = ex_assignment ''ctx1'' 443 1, dc_deleting = False\<rparr>"
    by (simp add: ex_daemon_def)
  ultimately show ?thesis using reconcile_converges [OF bpf_env_laws ex_bound_reach run c(1)] c by simp
qed

text \<open>C5: a cleanup that returns no error leaves nothing of the namespace in the maps, and never touches another.\<close>

theorem cleanup_empties_namespace:
  assumes "daemon_laws s pol pth" "daemon_reach s pol pth n d w" "Daemon_Cleanup s d w = (e, w')"
  shows "(\<forall>k. ck_NetNSInode k \<noteq> n \<longrightarrow> pol w' k = pol w k) \<and>
    (\<forall>q. ck_NetNSInode (pk_Conn q) \<noteq> n \<longrightarrow> pth w' q = pth w q) \<and>
    (e = None \<longrightarrow> (\<forall>k. ck_NetNSInode k = n \<longrightarrow> pol w' k = None) \<and>
      (\<forall>q. ck_NetNSInode (pk_Conn q) = n \<longrightarrow> pth w' q = None))"
proof -
  have inv: "daemon_inv d (pol w) (pth w)" and n: "d_netns d = n"
    using daemon_laws.reach_inv [OF assms(1,2)] by simp_all
  show ?thesis
    using daemon_laws.Daemon_Cleanup_effect [OF assms(1) inv assms(3)]
    by (simp add: n outside_same_def unmapped_def)
qed

lemma cleanup_empties_namespace_witness:
  "policies (snd (Daemon_Cleanup (bpf_env ex_ifs) ex_daemon ex_bound)) ex_conn = None"
proof -
  obtain e w' where run: "Daemon_Cleanup (bpf_env ex_ifs) ex_daemon ex_bound = (e, w')" by force
  have "fst (Daemon_Cleanup (bpf_env ex_ifs) ex_daemon ex_bound) = None" by code_simp
  then have "e = None" using run by simp
  moreover have "ck_NetNSInode ex_conn = ex_netns" by (simp add: ex_conn_def)
  ultimately show ?thesis using cleanup_empties_namespace [OF bpf_env_laws ex_bound_reach run] run by simp
qed

section \<open>Assignments\<close>

text \<open>An event is matched by at most one of the daemon's contexts.\<close>

lemma context_origin:
  assumes "contexts_ok m" "map_of m cid = Some dc"
  shows "\<exists>a. Assignment_Validate a = None \<and> dc_assignment dc = canonical a"
proof -
  have "context_ok cid dc" using assms by (simp add: contexts_ok_def)
  then show ?thesis by (simp add: context_ok_def)
qed

lemma mustAddress_canonical:
  "ParseAddress x = Inr a \<Longrightarrow> mustAddress (addr_String a) = (if a = IPv4 0 then NoAddr else a)"
  using ParseAddress_String [of x a] ParseAddr_String_of_parsed [of x a]
  by (auto simp: mustAddress_def ParseAddress_def IsUnspecified_def)

lemma canonical_destination_inject:
  assumes "ParseAddress x = Inr a" "ParseAddress y = Inr b" "mustAddress (addr_String a) = mustAddress (addr_String b)"
  shows "addr_String a = addr_String b"
  using assms ParseAddress_facts(1) [OF assms(1)] ParseAddress_facts(1) [OF assms(2)]
  by (auto simp: mustAddress_canonical split: if_splits)

lemma contexts_match_unique:
  assumes ctx: "contexts_ok m" and m1: "map_of m c1 = Some dc1" and m2: "map_of m c2 = Some dc2"
    and match: "context_matches e dc1" "context_matches e dc2"
  shows "c1 = c2"
proof -
  obtain a1 where a1: "Assignment_Validate a1 = None" "dc_assignment dc1 = canonical a1"
    using context_origin [OF ctx m1] by blast
  obtain a2 where a2: "Assignment_Validate a2 = None" "dc_assignment dc2 = canonical a2"
    using context_origin [OF ctx m2] by blast
  let ?f1 = "cp_Flow (cp_ContextSpec a1)" and ?f2 = "cp_Flow (cp_ContextSpec a2)"
  obtain x1 x2 where x: "ParseAddress (cp_DestinationAddress ?f1) = Inr x1" "ParseAddress (cp_DestinationAddress ?f2) = Inr x2"
    using a1(1) a2(1) by (auto simp: Assignment_Validate_ok spec_ok_def)
  have fl: "cp_Flow (cp_ContextSpec (dc_assignment dc1)) = canonical_flow ?f1"
    "cp_Flow (cp_ContextSpec (dc_assignment dc2)) = canonical_flow ?f2"
    by (simp_all add: a1 a2 canonical_def canonical_spec_def)
  have "mustAddress (addr_String x1) = mustAddress (addr_String x2)"
    "cp_DestinationPort ?f1 = cp_DestinationPort ?f2"
    using match x by (simp_all add: context_matches_def Let_def fl canonical_flow_def mustAddress_def)
  then have "canonical_flow ?f1 = canonical_flow ?f2"
    using canonical_destination_inject [OF x] x by (simp add: canonical_flow_def mustAddress_def)
  then show ?thesis using ctx m1 m2 fl unfolding contexts_ok_def by metis
qed

text \<open>C13: the context a new connection is assigned to does not depend on the order of the contexts: at most one matches.\<close>

theorem context_match_unique:
  assumes "daemon_laws s pol pth" "daemon_reach s pol pth n d w"
    and "map_of (d_contexts d) c1 = Some dc1" "map_of (d_contexts d) c2 = Some dc2"
    and "context_matches e dc1" "context_matches e dc2"
  shows "c1 = c2"
  using contexts_match_unique [OF inv_contexts assms(3-6)] daemon_laws.reach_inv [OF assms(1,2)] by blast

lemma context_match_unique_witness:
  "{cid. \<exists>dc. map_of (d_contexts ex_daemon) cid = Some dc \<and> context_matches (ex_event 2 9 0) dc} = {''ctx1''}"
  (is "?S = _")
proof -
  let ?dc = "\<lparr>dc_assignment = ex_assignment ''ctx1'' 443 1, dc_deleting = False\<rparr>"
  have c1: "map_of (d_contexts ex_daemon) ''ctx1'' = Some ?dc" by (simp add: ex_daemon_def)
  have m1: "context_matches (ex_event 2 9 0) ?dc" by code_simp
  have "c = ''ctx1''" if "c \<in> ?S" for c
    using that context_match_unique [OF bpf_env_laws ex_bound_reach _ c1 _ m1] by blast
  moreover have "''ctx1'' \<in> ?S" using c1 m1 by blast
  ultimately show ?thesis by blast
qed

end
