(* ===== verification/DaemonProgress.thy ===== *)
theory DaemonProgress
  imports DaemonRuns
begin

text \<open>
  Progress of the daemon. In an environment whose calls succeed, with room in the maps, and when the
  observed flows of each connection agree with the interfaces of its context, a reconciliation
  returns no error; with the facts of \<open>DaemonConverge\<close> it then leaves exactly the maps that the
  daemon's tables ask for, which \<open>desired_policies\<close> and \<open>desired_paths\<close> state as functions.
\<close>

section \<open>The maps the tables ask for\<close>

definition desired_context_of :: "daemon \<Rightarrow> conn_key \<Rightarrow> (observed_connection \<times> cp_assignment) option" where
  "desired_context_of d k =
     (if k \<noteq> conn_of d (ck_Token k) then None
      else case map_of (d_connections d) (ck_Token k) of
        None \<Rightarrow> None
      | Some c \<Rightarrow> (case map_of (d_contexts d) (oc_owner c) of
          None \<Rightarrow> None
        | Some dc \<Rightarrow>
            if leg_pairs (on_leg_a (dc_assignment dc)) c = {} \<or> leg_pairs (on_leg_b (dc_assignment dc)) c = {} then None
            else Some (c, dc_assignment dc)))"

definition desired_policies :: "daemon \<Rightarrow> conn_key \<Rightarrow> map_policy option" where
  "desired_policies d k = map_option (\<lambda>(c, a). assigned_policy a) (desired_context_of d k)"

definition desired_paths :: "daemon \<Rightarrow> path_key \<Rightarrow> map_path option" where
  "desired_paths d q = (case desired_context_of d (pk_Conn q) of None \<Rightarrow> None | Some (c, a) \<Rightarrow> topology a c q)"

lemma conn_done_desired:
  assumes inv: "daemon_inv d P T" and settles: "\<And>t. conn_done d P T t" and k: "ck_NetNSInode k = d_netns d"
  shows "P k = desired_policies d k \<and> (\<forall>q. pk_Conn q = k \<longrightarrow> T q = desired_paths d q)"
proof -
  have maps: "\<not> unmapped k P T \<Longrightarrow> k = conn_of d (ck_Token k) \<and> owned d (ck_Token k)"
    using inv k by (simp add: daemon_inv_def maps_ok_alt) blast
  show ?thesis
  proof (cases "desired_context_of d k")
    case None
    have "unmapped k P T"
    proof (rule ccontr)
      assume "\<not> unmapped k P T"
      then have key: "k = conn_of d (ck_Token k)" and "owned d (ck_Token k)" using maps by blast+
      then obtain c where c: "map_of (d_connections d) (ck_Token k) = Some c" "oc_owner c \<noteq> []" by (auto simp: owned_def)
      then obtain dc where dc: "map_of (d_contexts d) (oc_owner c) = Some dc"
        using inv_connection [OF inv c(1)] by (auto simp: connection_ok_def)
      have "settled k (dc_assignment dc) c P T"
        using settles [of "ck_Token k"] c(1) dc key by (simp add: conn_done_def)
      moreover have "leg_pairs (on_leg_a (dc_assignment dc)) c = {} \<or> leg_pairs (on_leg_b (dc_assignment dc)) c = {}"
        using None key c(1) dc unfolding desired_context_of_def by (auto split: if_splits simp del: map_of_eq_Some_iff)
      ultimately show False using \<open>\<not> unmapped k P T\<close> by (simp add: settled_def)
    qed
    then show ?thesis using None by (auto simp: desired_policies_def desired_paths_def unmapped_def)
  next
    case (Some ca)
    obtain c a where ca: "ca = (c, a)" by force
    from Some obtain dc where key: "k = conn_of d (ck_Token k)" and c: "map_of (d_connections d) (ck_Token k) = Some c"
      and dc: "map_of (d_contexts d) (oc_owner c) = Some dc" "a = dc_assignment dc"
      and ne: "\<not> (leg_pairs (on_leg_a a) c = {} \<or> leg_pairs (on_leg_b a) c = {})"
      unfolding desired_context_of_def ca by (auto split: if_splits option.splits simp del: map_of_eq_Some_iff)
    have "settled k a c P T" using settles [of "ck_Token k"] c dc key by (simp add: conn_done_def)
    then show ?thesis using ne Some ca by (auto simp: settled_def desired_policies_def desired_paths_def)
  qed
qed

section \<open>Plans that succeed\<close>

definition flows_agree :: "cp_assignment \<Rightarrow> int \<Rightarrow> int \<Rightarrow> pm_event list \<Rightarrow> bool" where
  "flows_agree a ia ib es \<longleftrightarrow>
     list_all (\<lambda>e. (on_leg_a a e \<longrightarrow> index_agrees e ia) \<and> (on_leg_b a e \<longrightarrow> index_agrees e ib)) es \<and>
     set (map event_pair (filter (on_leg_a a) es)) \<inter> set (map event_pair (filter (on_leg_b a) es)) = {}"

lemma byte_le_255: "(ucast (b :: u8) :: u32) \<le> 255"
proof -
  have "unat b < 2 ^ 8" using unat_less [of b] by simp
  then show ?thesis by (simp add: word_le_nat_alt unsigned_ucast_eq take_bit_nat_eq_self)
qed

lemma endpoints_ok_snoc:
  assumes "endpoints_ok (as @ bs)" "Some (event_pair e) \<notin> endpoint_pair ` set (as @ bs)"
  shows "endpoints_ok ((as @ [flow_endpoint e]) @ bs)" "endpoints_ok (as @ bs @ [flow_endpoint e])"
  using assms byte_le_255 [of "ev_LocalID e"] byte_le_255 [of "ev_RemoteID e"]
  by (auto simp: endpoints_ok_def event_pair_def image_iff)

text \<open>The flows of one leg that are left, with the interface index and the pairs they may use.\<close>

definition leg_agrees :: "(pm_event \<Rightarrow> bool) \<Rightarrow> int \<Rightarrow> (u32 \<times> u32) set \<Rightarrow> pm_event list \<Rightarrow> bool" where
  "leg_agrees P i X es \<longleftrightarrow> (\<forall>e \<in> set es. P e \<longrightarrow> index_agrees e i \<and> event_pair e \<in> X)"

lemma leg_agrees_Cons [simp]: "leg_agrees P i X (e # es) \<longleftrightarrow> (P e \<longrightarrow> index_agrees e i \<and> event_pair e \<in> X) \<and> leg_agrees P i X es"
  by (simp add: leg_agrees_def)

definition seen_agrees :: "(u32 \<times> u32) set \<Rightarrow> (u32 \<times> u32) set \<Rightarrow> (u32 \<times> u32, u32) gomap \<Rightarrow> bool" where
  "seen_agrees X Y seen \<longleftrightarrow> (\<forall>p v. map_of seen p = Some v \<longrightarrow> v = 0 \<and> p \<in> X \<or> v = 1 \<and> p \<in> Y)"

lemma seen_agrees_set:
  "seen_agrees X Y seen \<Longrightarrow> p \<in> X \<Longrightarrow> seen_agrees X Y (go_set p 0 seen)"
  "seen_agrees X Y seen \<Longrightarrow> p \<in> Y \<Longrightarrow> seen_agrees X Y (go_set p 1 seen)"
  by (simp_all add: seen_agrees_def)

lemma plan_flows_total:
  assumes "leg_agrees (on_leg_a a) ia X es" "leg_agrees (on_leg_b a) ib Y es" "X \<inter> Y = {}" "seen_agrees X Y seen"
    and "endpoint_pair ` set (as @ bs) = Some ` dom (map_of seen)" "endpoints_ok (as @ bs)"
  shows "\<exists>r. plan_flows (cp_Legs (cp_ContextSpec a)) ia ib es seen as bs = Inr r \<and> endpoints_ok (fst r @ snd r)"
  using assms
proof (induction es arbitrary: seen as bs)
  case Nil
  then show ?case by simp
next
  case (Cons e es)
  have rest: "leg_agrees (on_leg_a a) ia X es" "leg_agrees (on_leg_b a) ib Y es" using Cons.prems(1,2) by simp_all
  note ih = Cons.IH [OF rest Cons.prems(3)]
  have fresh: "Some (event_pair e) \<notin> endpoint_pair ` set (as @ bs)" if "map_of seen (event_pair e) = None"
    using that Cons.prems(5) by auto
  show ?case
  proof (cases rule: leg_cases [of a e])
    case skip
    then show ?thesis unfolding plan_flows_skip [OF skip] by (intro ih Cons.prems)
  next
    case a
    then have ix: "index_agrees e ia" "event_pair e \<in> X" using Cons.prems(1) by simp_all
    show ?thesis
    proof (cases "map_of seen (event_pair e)")
      case None
      have keys: "endpoint_pair ` set ((as @ [flow_endpoint e]) @ bs) = Some ` dom (map_of (go_set (event_pair e) 0 seen))"
        using Cons.prems(5) by auto
      from ih [OF seen_agrees_set(1) [OF Cons.prems(4) ix(2)] keys endpoints_ok_snoc(1) [OF Cons.prems(6) fresh [OF None]]]
      show ?thesis unfolding plan_flows_a [OF a(1)] using None ix(1) by simp
    next
      case (Some v)
      then have "v = 0" using Cons.prems(3,4) ix(2) unfolding seen_agrees_def by blast
      then show ?thesis unfolding plan_flows_a [OF a(1)] using ih [OF Cons.prems(4-6)] Some ix(1) by simp
    qed
  next
    case b
    then have ix: "index_agrees e ib" "event_pair e \<in> Y" using Cons.prems(2) by simp_all
    show ?thesis
    proof (cases "map_of seen (event_pair e)")
      case None
      have keys: "endpoint_pair ` set (as @ bs @ [flow_endpoint e]) = Some ` dom (map_of (go_set (event_pair e) 1 seen))"
        using Cons.prems(5) by auto
      from ih [OF seen_agrees_set(2) [OF Cons.prems(4) ix(2)] keys endpoints_ok_snoc(2) [OF Cons.prems(6) fresh [OF None]]]
      show ?thesis unfolding plan_flows_b [OF b(1)] using None ix(1) by simp
    next
      case (Some v)
      then have "v = 1" using Cons.prems(3,4) ix(2) unfolding seen_agrees_def by blast
      then show ?thesis unfolding plan_flows_b [OF b(1)] using ih [OF Cons.prems(4-6)] Some ix(1) by simp
    qed
  qed
qed

lemma flows_agree_range: "flows_agree a ia ib (map snd (go_range ns m)) \<longleftrightarrow> flows_agree a ia ib (map snd m)"
  by (simp add: flows_agree_def list_all_iff)

lemma plan_flows_agree:
  assumes "flows_agree a ia ib es"
  shows "\<exists>as bs. plan_flows (cp_Legs (cp_ContextSpec a)) ia ib es [] [] [] = Inr (as, bs) \<and> endpoints_ok (as @ bs)"
proof -
  let ?X = "event_pair ` {e \<in> set es. on_leg_a a e}" and ?Y = "event_pair ` {e \<in> set es. on_leg_b a e}"
  have "leg_agrees (on_leg_a a) ia ?X es" "leg_agrees (on_leg_b a) ib ?Y es" "?X \<inter> ?Y = {}"
    using assms by (auto simp: flows_agree_def leg_agrees_def list_all_iff)
  from plan_flows_total [OF this, of "[]" "[]" "[]"] show ?thesis by (simp add: seen_agrees_def endpoints_ok_def)
qed

text \<open>A held assignment whose interface names the agent accepts plans to a valid configuration.\<close>

definition agent_names :: "cp_assignment \<Rightarrow> bool" where
  "agent_names a \<longleftrightarrow>
     (let ls = cp_Legs (cp_ContextSpec a) in
      TrimSpace (cp_IfName (cp_A ls)) = cp_IfName (cp_A ls) \<and> TrimSpace (cp_IfName (cp_B ls)) = cp_IfName (cp_B ls))"

lemma canonical_names [simp]:
  "cp_IfName (cp_A (cp_Legs (cp_ContextSpec (canonical a)))) = cp_IfName (cp_A (cp_Legs (cp_ContextSpec a)))"
  "cp_IfName (cp_B (cp_Legs (cp_ContextSpec (canonical a)))) = cp_IfName (cp_B (cp_Legs (cp_ContextSpec a)))"
  "cp_Policy (canonical a) = cp_Policy a" "cp_Generation (canonical a) = cp_Generation a"
  by (simp_all add: canonical_def canonical_spec_def canonical_leg_def)

lemma plan_policy_valid:
  assumes dc: "context_ok cid dc" and names: "agent_names (dc_assignment dc)" and ends: "endpoints_ok (as @ bs)"
  shows "Config_Validate \<lparr>DualSteer = plan_policy (dc_assignment dc) as bs\<rparr> = Ok ()"
proof -
  obtain b where b: "Assignment_Validate b = None" "dc_assignment dc = canonical b" using dc by (auto simp: context_ok_def)
  then have v: "spec_ok (cp_ContextSpec b)" "cp_Generation b \<noteq> 0" "cp_Mode (cp_Policy b) \<in> {''load-balance'', ''lowest-rtt''}"
    "unat (cp_WeightA (cp_Policy b)) + unat (cp_WeightB (cp_Policy b)) = 100"
    by (simp_all add: Assignment_Validate_ok cp_Policy_Validate_ok)
  then have w: "cp_WeightA (cp_Policy b) \<le> 100" "cp_WeightB (cp_Policy b) \<le> 100" by (simp_all add: word_le_nat_alt)
  have l: "cp_IfName (cp_A (cp_Legs (cp_ContextSpec b))) \<noteq> []" "cp_IfName (cp_B (cp_Legs (cp_ContextSpec b))) \<noteq> []"
    "cp_IfName (cp_A (cp_Legs (cp_ContextSpec b))) \<noteq> cp_IfName (cp_B (cp_Legs (cp_ContextSpec b)))"
    using v(1) by (simp_all add: spec_ok_def leg_ok_def)
  have "config_ok \<lparr>DualSteer = plan_policy (canonical b) as bs\<rparr>"
    using v w l ends names [unfolded b(2)]
    by (simp add: config_ok_def leg_config_ok_def plan_policy_def agent_names_def Let_def)
  then show ?thesis by (simp add: Config_Validate_ok b(2))
qed


lemma DesiredPaths_endpoints:
  assumes "endpoints_ok (as @ bs)" "as \<noteq> []" "bs \<noteq> []"
  shows "\<exists>m. DesiredPaths (plan_policy a as bs) key = Inr m"
proof -
  have some: "\<forall>ep \<in> set (as @ bs). endpoint_pair ep \<noteq> None"
    using assms(1) unfolding endpoints_ok_def by (metis option.distinct(1))
  then obtain ma where ma: "add_paths key (cp_Generation a) 0 as [] = Inr ma"
    using add_paths_Inr_iff [of key "cp_Generation a" 0 as "[]"] by auto
  obtain m where "add_paths key (cp_Generation a) 1 bs ma = Inr m"
    using some add_paths_Inr_iff [of key "cp_Generation a" 1 bs ma] by auto
  with ma assms(2,3) show ?thesis by (simp add: DesiredPaths_def plan_policy_def Let_def)
qed

text \<open>A plan asks for at most one path per observed flow.\<close>

lemma desired_length:
  assumes want: "DesiredPaths (plan_policy a as bs) key = Inr m"
    and as: "endpoint_pair ` set as = Some ` leg_pairs (on_leg_a a) c"
    and bs: "endpoint_pair ` set bs = Some ` leg_pairs (on_leg_b a) c"
  shows "length m \<le> length (oc_flows c)"
proof -
  note d = DesiredPaths_spec [OF want]
  let ?es = "map snd (oc_flows c)"
  let ?f = "\<lambda>(l, r). \<lparr>pk_Conn = key, pk_LocalID = l, pk_RemoteID = r\<rparr>"
  have "fst ` set m \<subseteq> ?f ` event_pair ` set ?es"
  proof
    fix q assume q: "q \<in> fst ` set m"
    then have k: "pk_Conn q = key" using DesiredPaths_conn [OF want] by blast
    have "map_of m q \<noteq> None" using q by (simp add: map_of_eq_None_iff)
    then have "topology a c q \<noteq> None" using plan_policy_paths [OF as bs k] d(2) by simp
    then have "(pk_LocalID q, pk_RemoteID q) \<in> event_pair ` set ?es"
      by (auto simp: topology_def leg_pairs_def split: if_splits)
    then show "q \<in> ?f ` event_pair ` set ?es" using k by (intro image_eqI [of _ _ "(pk_LocalID q, pk_RemoteID q)"]) simp_all
  qed
  then have "card (fst ` set m) \<le> card (?f ` event_pair ` set ?es)" by (intro card_mono) simp_all
  also have "\<dots> \<le> card (set ?es)" by (meson card_image_le finite_imageI finite_set le_trans)
  also have "\<dots> \<le> length (oc_flows c)" using card_length [of ?es] by simp
  finally show ?thesis using d(1) distinct_card [of "map fst m"] by simp
qed

section \<open>An environment whose calls succeed\<close>

locale reliable_env = daemon_laws s pol pth + reliable_store s pol pth ok
  for s :: "('w, 'z) daemon_env_scheme"
    and pol :: "'w \<Rightarrow> conn_key \<Rightarrow> map_policy option"
    and pth :: "'w \<Rightarrow> path_key \<Rightarrow> map_path option"
    and ok :: "nat \<Rightarrow> 'w \<Rightarrow> bool" +
  assumes ValidateAddr_reliable: "ok n w \<Longrightarrow> ValidateAddr s l w = (r, w') \<Longrightarrow> ok n w'"

text \<open>The system still has the assignment's interfaces, and the observed flows carry their indices.\<close>

definition interfaces_agree :: "('w, 'z) daemon_env_scheme \<Rightarrow> observed_connection \<Rightarrow> cp_assignment \<Rightarrow> bool" where
  "interfaces_agree s c a \<longleftrightarrow> agent_names a \<and>
     (\<exists>ia ib. (\<forall>w. fst (ValidateAddr s (cp_A (cp_Legs (cp_ContextSpec a))) w) = Inr ia) \<and>
        (\<forall>w. fst (ValidateAddr s (cp_B (cp_Legs (cp_ContextSpec a))) w) = Inr ib) \<and>
        flows_agree a ia ib (map snd (oc_flows c)))"

context reliable_env
begin

lemma Daemon_plan_reliable:
  assumes agree: "interfaces_agree s c a" and ok: "ok n w"
  shows "\<exists>p w'. Daemon_plan s c a w = (Inr p, w') \<and> ok n w' \<and>
    (\<exists>as bs. plan_Policy p = plan_policy a as bs \<and> endpoints_ok (as @ bs))"
proof -
  let ?ls = "cp_Legs (cp_ContextSpec a)"
  obtain ia ib where ix: "\<And>w. fst (ValidateAddr s (cp_A ?ls) w) = Inr ia" "\<And>w. fst (ValidateAddr s (cp_B ?ls) w) = Inr ib"
    and fl: "flows_agree a ia ib (map snd (oc_flows c))"
    using agree by (auto simp: interfaces_agree_def)
  obtain w1 where v1: "ValidateAddr s (cp_A ?ls) w = (Inr ia, w1)" using ix(1) [of w] by (metis prod.collapse)
  obtain w2 where v2: "ValidateAddr s (cp_B ?ls) w1 = (Inr ib, w2)" using ix(2) [of w1] by (metis prod.collapse)
  obtain ns w3 where mo: "MapOrder s w2 = (ns, w3)" by force
  have "flows_agree a ia ib (map snd (go_range ns (oc_flows c)))" using fl by (simp add: flows_agree_range)
  from plan_flows_agree [OF this] obtain as bs where
    pf: "plan_flows ?ls ia ib (map snd (go_range ns (oc_flows c))) [] [] [] = Inr (as, bs)" "endpoints_ok (as @ bs)" by blast
  have "ok n w3"
    using MapOrder_reliable [OF ValidateAddr_reliable [OF ValidateAddr_reliable [OF ok v1] v2] mo] .
  with v1 v2 mo pf(1) have "Daemon_plan s c a w = (Inr \<lparr>plan_Policy = plan_policy a as bs, IfIndexA = ia, IfIndexB = ib\<rparr>, w3)"
    by (simp add: Daemon_plan_def)
  with \<open>ok n w3\<close> pf(2) show ?thesis by (metis plan.select_convs(1))
qed

lemma repair_updates_reliable:
  "ok (length kvs + n) w \<Longrightarrow> \<exists>w'. repair_updates s before kvs w = (None, w') \<and> ok n w'"
proof (induction kvs arbitrary: w)
  case Nil
  then show ?case by simp
next
  case (Cons kv kvs)
  obtain k v where kv: "kv = (k, v)" by force
  obtain u w1 where up: "UpdatePath s k v w = (u, w1)" by force
  have "ok (Suc (length kvs + n)) w" using Cons.prems by simp
  from UpdatePath_reliable [OF this up] have u: "u = None" "ok (length kvs + n) w1" by simp_all
  have "ok (length kvs + n) w" using ok_mono Cons.prems by simp
  from Cons.IH [OF this] Cons.IH [OF u(2)] u(1) up show ?case by (auto simp: kv)
qed

lemma repair_deletes_reliable:
  "ok n w \<Longrightarrow> \<exists>w'. repair_deletes s want ks w = (None, w') \<and> ok n w'"
proof (induction ks arbitrary: w)
  case Nil
  then show ?case by simp
next
  case (Cons k ks)
  obtain u w1 where del: "DeletePath s k w = (u, w1)" by force
  from DeletePath_reliable [OF Cons.prems del] have u: "ok n w1" "u = None \<or> (\<exists>e. u = Some e \<and> errors_Is e ErrNotFound)"
    by simp_all
  from Cons.IH [OF u(1)] Cons.IH [OF Cons.prems] u(2) del show ?case by (auto split: option.splits)
qed

lemma repair_reliable:
  assumes "ok (length want + n) w"
  shows "\<exists>w'. repair s key want w = (None, w') \<and> ok n w'"
proof -
  obtain before pe w1 where ps: "Paths s key w = ((before, pe), w1)" by (metis prod.exhaust)
  from Paths_reliable [OF assms ps] have pe: "pe = None" "ok (length want + n) w1" by simp_all
  obtain ns w2 where mo: "MapOrder s w1 = (ns, w2)" by force
  have "ok (length (go_range ns want) + n) w2" using MapOrder_reliable [OF pe(2) mo] by simp
  from repair_updates_reliable [OF this] obtain w3 where up: "repair_updates s before (go_range ns want) w2 = (None, w3)" "ok n w3"
    by blast
  obtain ns' w4 where mo': "MapOrder s w3 = (ns', w4)" by force
  from repair_deletes_reliable [OF MapOrder_reliable [OF up(2) mo']] obtain w5 where
    "repair_deletes s want (map fst (go_range ns' before)) w4 = (None, w5)" "ok n w5" by blast
  with ps pe mo up mo' show ?thesis by (simp add: repair_def)
qed

text \<open>A plan with flows on both legs is a valid configuration whose paths fit the flows.\<close>

lemma Daemon_plan_valid:
  assumes dc: "context_ok cid dc" and agree: "interfaces_agree s c (dc_assignment dc)" and wf: "wf_map (oc_flows c)"
    and pl: "Daemon_plan s c (dc_assignment dc) w = (Inr p, w1)" and ok: "ok n w" and full: "\<not> no_endpoints p"
  shows "Config_Validate \<lparr>DualSteer = plan_Policy p\<rparr> = Ok ()"
    "\<exists>want. DesiredPaths (plan_Policy p) key = Inr want \<and> length want \<le> length (oc_flows c)"
proof -
  let ?a = "dc_assignment dc"
  obtain as0 bs0 where p0: "plan_Policy p = plan_policy ?a as0 bs0" and e0: "endpoints_ok (as0 @ bs0)"
    using Daemon_plan_reliable [OF agree ok] pl by auto
  obtain as bs where p: "plan_Policy p = plan_policy ?a as bs"
    and as: "endpoint_pair ` set as = Some ` leg_pairs (on_leg_a ?a) c"
    and bs: "endpoint_pair ` set bs = Some ` leg_pairs (on_leg_b ?a) c"
    using Daemon_plan_pairs [OF pl wf] .
  have "as = as0" "bs = bs0" using p p0 by (simp_all add: plan_policy_def Let_def)
  with e0 have ends: "endpoints_ok (as @ bs)" by simp
  show "Config_Validate \<lparr>DualSteer = plan_Policy p\<rparr> = Ok ()"
    unfolding p using plan_policy_valid [OF dc _ ends] agree by (simp add: interfaces_agree_def)
  have "as \<noteq> []" "bs \<noteq> []" using full by (simp_all add: no_endpoints_def p plan_policy_def Let_def)
  from DesiredPaths_endpoints [OF ends this] obtain want where "DesiredPaths (plan_policy ?a as bs) key = Inr want" by blast
  with desired_length [OF this as bs] show "\<exists>want. DesiredPaths (plan_Policy p) key = Inr want \<and> length want \<le> length (oc_flows c)"
    by (simp add: p)
qed

lemma applyConnection_reliable:
  assumes dc: "context_ok cid dc" and agree: "interfaces_agree s c (dc_assignment dc)" and wf: "wf_map (oc_flows c)"
    and follows: "\<And>mp. pol w key = Some mp \<Longrightarrow> policy_follows mp (dc_assignment dc)"
    and key: "ck_NetNSInode key \<noteq> 0" "ck_Reserved key = 0" and ok: "ok (Suc (length (oc_flows c)) + n) w"
  shows "\<exists>w'. applyConnection s key c (dc_assignment dc) w = (Ok (), w') \<and> ok n w'"
proof -
  let ?a = "dc_assignment dc" and ?m = "Suc (length (oc_flows c)) + n"
  obtain r w' where run: "applyConnection s key c ?a w = (r, w')" by force
  obtain p0 w0 where pl0: "Daemon_plan s c ?a w = (Inr p0, w0)" "ok ?m w0" using Daemon_plan_reliable [OF agree ok] by blast
  note valid = Daemon_plan_valid [OF dc agree wf _ ok]
  have room: "ok (length want + Suc n) w2" if "ok ?m w2" "length want \<le> length (oc_flows c)" for w2 and want :: "(path_key, map_path) gomap"
    using that(2) by (intro ok_le [OF _ that(1)]) simp
  have ln: "ok ?m w2 \<and> (case pol w0 key of None \<Rightarrow> \<exists>e. x = Inl e \<and> errors_Is e ErrNotFound | Some p \<Rightarrow> x = Inr p)"
    if "LookupPolicy s key w0 = (x, w2)" for x w2
    by (rule LookupPolicy_reliable [OF pl0(2) that])
  from run have "r = Ok () \<and> ok n w'"
  proof (cases rule: applyConnection_cases)
    case (unplanned e w1 cl)
    then show ?thesis using pl0 by simp
  next
    case (one_leg p w1 e)
    then have "ok n w1" using pl0 by (auto intro: ok_le [of n ?m])
    from DeleteLive_reliable [OF this, of key] one_leg show ?thesis by auto
  next
    case (no_paths p e)
    then show ?thesis using valid(2) [OF no_paths(1,2), of key] by simp
  next
    case (no_lookup p w1 want e)
    then show ?thesis using pl0(1) ln [of "Inl e" w'] by (auto split: option.splits)
  next
    case (repaired p w1 want w2 e)
    have "ok ?m w2" using repaired(1,4) pl0(1) ln by simp
    moreover have "length want \<le> length (oc_flows c)" using valid(2) [OF repaired(1,2), of key] repaired(3) by auto
    ultimately have "ok (length want + n) w2" by (intro ok_le [of "length want + n" ?m]) simp_all
    from repair_reliable [OF this, of key] repaired(5,6) show ?thesis by auto
  next
    case (applied p w1 want old w2)
    have w0: "w1 = w0" using applied(1) pl0(1) by simp
    note l = ln [OF applied(4) [unfolded w0]]
    have len: "length want \<le> length (oc_flows c)" using valid(2) [OF applied(1,2), of key] applied(3) by auto
    have gen: "mp_Generation mp < Generation (plan_Policy p)" if "pol w2 key = Some mp" for mp
    proof -
      have mp: "pol w0 key = Some mp" "pol w key = Some mp"
        using that LookupPolicy_frame [OF applied(4)] Daemon_plan_frame [OF applied(1)] w0 by simp_all
      then have "mp \<noteq> assigned_policy ?a" using l applied(5) by auto
      then show ?thesis using follows [OF mp(2)] planned_topology(3) [OF applied(1) wf] by (simp add: policy_follows_def)
    qed
    have "ok ?m w2" using l by blast
    from ApplyLive_reliable [OF valid(1) [OF applied(1,2)] key applied(3) gen room [OF this len]] applied(6)
    show ?thesis by auto
  qed
  with run show ?thesis by blast
qed

end

section \<open>A reconciliation that succeeds\<close>

text \<open>The connections the reconciliation applies a plan to: open, and bound to a context that stays.\<close>

definition binds :: "observed_connection \<Rightarrow> string \<Rightarrow> desired_context \<Rightarrow> bool" where
  "binds c cid dc \<longleftrightarrow> \<not> oc_closed c \<and> \<not> dc_deleting dc \<and>
     (oc_owner c = cid \<or> oc_owner c = [] \<and> (case oc_initial c of None \<Rightarrow> False | Some e \<Rightarrow> context_matches e dc))"

definition agrees_at :: "('w, 'z) daemon_env_scheme \<Rightarrow> daemon \<Rightarrow> u32 \<Rightarrow> bool" where
  "agrees_at s d t \<longleftrightarrow>
     (\<forall>c cid dc. map_of (d_connections d) t = Some c \<longrightarrow> map_of (d_contexts d) cid = Some dc \<longrightarrow> binds c cid dc \<longrightarrow>
        interfaces_agree s c (dc_assignment dc))"

context reliable_env
begin

lemma release_reliable:
  assumes "ok n w"
  shows "\<exists>d' w'. release s t c d w = ([], d', w') \<and> ok n w'"
proof (cases "oc_owner c = []")
  case True
  then show ?thesis using assms by (simp add: release_def)
next
  case False
  from DeleteLive_reliable [OF assms] obtain w1 where "DeleteLive s (conn_of d t) w = (None, w1)" "ok n w1" by blast
  with False show ?thesis by (simp add: release_def)
qed

lemma assign_owner_binds:
  assumes inv: "daemon_inv d (pol w) (pth w)" and go: "\<not> stops d c" and run: "assign_owner s d c w = (c1, Some dc, w1)"
  shows "binds c (oc_owner c1) dc"
proof (cases "oc_owner c = []")
  case True
  then have "map_of (d_contexts d) (oc_owner c) = None" using no_context_without_id [OF inv_contexts [OF inv]] by simp
  then show ?thesis using run go True
    by (auto simp: stops_def assign_owner_def binds_def find_owner_def context_matches_def Let_def
        dest!: find_holds split: option.splits prod.splits if_splits)
next
  case False
  then have "c1 = c" using assign_owner_spec(5) [OF inv run] by simp
  then show ?thesis using assigned_stays [OF inv go run] go by (simp add: binds_def stops_def)
qed

lemma assign_owner_reliable: "ok n w \<Longrightarrow> assign_owner s d c w = (c1, r, w1) \<Longrightarrow> ok n w1"
  by (auto simp: assign_owner_def find_owner_def Let_def dest: MapOrder_reliable split: option.splits prod.splits if_splits)

lemma reconcile_connection_reliable:
  assumes inv: "daemon_inv d (pol w) (pth w)" and agree: "agrees_at s d t" and n: "d_netns d \<noteq> 0" and ok: "ok (257 + n) w"
  shows "\<exists>d' w'. reconcile_connection s t d w = (Ok [], d', w') \<and> ok n w'"
proof -
  obtain r d' w' where run: "reconcile_connection s t d w = (r, d', w')" by (metis prod.exhaust)
  from run have "r = Ok [] \<and> ok n w'"
  proof (cases rule: reconcile_connection_cases)
    case absent
    then show ?thesis using ok_le [OF _ ok] by simp
  next
    case (released c fs)
    then show ?thesis using release_reliable [OF ok_le [OF _ ok], of n t c d] by auto
  next
    case (idle c c1)
    then show ?thesis using ok_le [OF _ assign_owner_reliable [OF ok idle(3)]] by simp
  next
    case (applied c c1 dc w1 res)
    note a = assign_owner_spec [OF inv applied(3)] and o = owner_held [OF inv applied(1,3)]
    have dok: "context_ok (oc_owner c1) dc" using inv_contexts [OF inv] a(3) by (simp add: contexts_ok_def)
    have "interfaces_agree s c (dc_assignment dc)"
      using agree applied(1) a(3) [symmetric] assign_owner_binds [OF inv applied(2,3)] unfolding agrees_at_def by blast
    then have ia: "interfaces_agree s c1 (dc_assignment dc)" by (simp add: interfaces_agree_def o(1))
    have pf: "policy_follows mp (dc_assignment dc)" if "pol w1 (conn_of d t) = Some mp" for mp
      using owner_follows [OF inv applied(1,3)] that a(1) by simp
    have "\<exists>w'. applyConnection s (conn_of d t) c1 (dc_assignment dc) w1 = (Ok (), w') \<and> ok n w'"
    proof (rule applyConnection_reliable [OF dok ia _ pf])
      show "wf_map (oc_flows c1)" using o(4) by (simp add: connection_ok_def)
      show "ok (Suc (length (oc_flows c1)) + n) w1"
        using o(4) by (intro ok_le [OF _ assign_owner_reliable [OF ok applied(3)]]) (simp add: connection_ok_def)
    qed (use n in simp_all)
    then show ?thesis using applied(4,5) by simp
  qed
  with run show ?thesis by simp
qed

lemma reconcile_connections_reliable:
  assumes "daemon_inv d (pol w) (pth w)" "\<forall>t \<in> set ts. agrees_at s d t" "distinct ts" "d_netns d \<noteq> 0"
    and "ok (257 * length ts + n) w"
  shows "\<exists>d' w'. reconcile_connections s ts [] d w = (Ok [], d', w') \<and> ok n w'"
  using assms
proof (induction ts arbitrary: d w)
  case Nil
  then show ?case by simp
next
  case (Cons t ts)
  have "ok (257 + (257 * length ts + n)) w" using Cons.prems(5) by (simp add: add.assoc)
  moreover have "agrees_at s d t" using Cons.prems(2) by simp
  ultimately obtain d1 w1 where rc: "reconcile_connection s t d w = (Ok [], d1, w1)" and ok1: "ok (257 * length ts + n) w1"
    using reconcile_connection_reliable [OF Cons.prems(1) _ Cons.prems(4)] by blast
  from reconcile_connection_step [OF Cons.prems(1) rc] have st: "conn_step t d (pol w) (pth w) d1 (pol w1) (pth w1)" by blast
  have "agrees_at s d1 t'" if "t' \<in> set ts" for t'
    using Cons.prems(2,3) st that by (auto simp: agrees_at_def conn_step_def simp del: map_of_eq_Some_iff)
  with Cons.IH [of d1 w1] Cons.prems st ok1 obtain d' w' where
    "reconcile_connections s ts [] d1 w1 = (Ok [], d', w')" "ok n w'" by (auto simp: conn_step_def)
  with rc show ?case by simp
qed

lemma reconcileLocked_reliable:
  assumes inv: "daemon_inv d (pol w) (pth w)" and agree: "\<And>t. agrees_at s d t" and n: "d_netns d \<noteq> 0"
    and ok: "ok (257 * length (d_connections d) + n) w"
  shows "\<exists>d' w'. reconcileLocked s d w = (Ok (), d', w') \<and> ok n w'"
proof -
  obtain ns w1 where mo: "MapOrder s w = (ns, w1)" by force
  let ?ts = "map fst (go_range ns (d_connections d))"
  have wf: "wf_map (d_connections d)" using inv by (simp add: daemon_inv_def state_ok_def)
  have "daemon_inv d (pol w1) (pth w1)" using inv MapOrder_frame [OF mo] by simp
  moreover have "ok (257 * length ?ts + n) w1" using MapOrder_reliable [OF ok mo] by simp
  moreover have "distinct ?ts" using wf by simp
  ultimately obtain d' w' where "reconcile_connections s ?ts [] d w1 = (Ok [], d', w')" "ok n w'"
    using reconcile_connections_reliable [of d w1 ?ts n] agree n by blast
  with mo show ?thesis by (simp add: reconcileLocked_def errors_Join_map_Some)
qed

end

section \<open>The BPF environment\<close>

lemma with_validator_reliable: "reliable_store r pol pth ok \<Longrightarrow> reliable_store (with_validator r v) pol pth ok"
  unfolding reliable_store_def map_store_laws_def reliable_store_axioms_def with_validator_simps by assumption

interpretation bpf_env_reliably: reliable_env "bpf_env ifs" policies paths bpf_reliable for ifs
proof (intro reliable_env.intro reliable_env_axioms.intro bpf_env_laws)
  show "reliable_store (bpf_env ifs) policies paths bpf_reliable"
    unfolding bpf_env_def bpf_store_def by (rule with_validator_reliable [OF bpf_reliably.reliable_store_axioms])
  show "bpf_reliable n w'" if "bpf_reliable n w" "ValidateAddr (bpf_env ifs) l w = (r, w')" for n w l r w'
    using that by (simp add: bpf_env_def)
qed

lemma bpf_env_reliable: "reliable_env (bpf_env ifs) policies paths bpf_reliable"
  by (rule bpf_env_reliably.reliable_env_axioms)

end
