(* ===== verification/DaemonRefinement.thy ===== *)
theory DaemonRefinement
  imports DaemonProperties DaemonProgress
begin

text \<open>
  The daemon as an implementation of a specification. \<open>settle\<close> is what a reconciliation means: a
  function on the tables alone, with no store, no failure and no map order. A request that returns
  no error has changed the tables as \<open>settle\<close> says, in whatever order the run-time ranged over its
  maps, and has left in the daemon's namespace exactly the entries that the settled tables ask for;
  in an environment whose calls succeed it does return no error.
\<close>

section \<open>The specification\<close>

definition settled_connection :: "(string, desired_context) gomap \<Rightarrow> observed_connection \<Rightarrow> observed_connection option" where
  "settled_connection m c =
     (if oc_closed c then None
      else case map_of m (oc_owner c) of
        Some dc \<Rightarrow> Some (if dc_deleting dc then c\<lparr>oc_owner := [], oc_lastError := None\<rparr> else c\<lparr>oc_lastError := None\<rparr>)
      | None \<Rightarrow>
          (case oc_initial c of None \<Rightarrow> Some c | Some e \<Rightarrow>
           (case find (\<lambda>(cid, dc). context_matches e dc) m of
              None \<Rightarrow> Some c
            | Some (cid, dc) \<Rightarrow> Some (c\<lparr>oc_owner := cid, oc_lastError := None\<rparr>))))"

definition settle :: "daemon \<Rightarrow> daemon" where
  "settle d =
     d\<lparr>d_contexts := filter (\<lambda>(cid, dc). \<not> dc_deleting dc) (d_contexts d),
       d_connections := List.map_filter (\<lambda>(t, c). map_option (Pair t) (settled_connection (d_contexts d) c)) (d_connections d)\<rparr>"

text \<open>The abstraction forgets the order in which the tables are stored.\<close>

definition tables :: "daemon \<Rightarrow> u64 \<times> (string \<Rightarrow> desired_context option) \<times> (u32 \<Rightarrow> observed_connection option) \<times> go_error option" where
  "tables d = (d_netns d, map_of (d_contexts d), map_of (d_connections d), d_fatal d)"

definition request :: "daemon_command \<Rightarrow> daemon \<Rightarrow> daemon" where
  "request cmd d =
     (case cmd of
        CPut a \<Rightarrow> d\<lparr>d_contexts := go_set (cp_ID (cp_ContextSpec a)) \<lparr>dc_assignment = canonical a, dc_deleting = False\<rparr> (d_contexts d)\<rparr>
      | CDelete cid \<Rightarrow>
          (case map_of (d_contexts d) cid of
             None \<Rightarrow> d
           | Some c \<Rightarrow> d\<lparr>d_contexts := go_set cid (c\<lparr>dc_deleting := True\<rparr>) (d_contexts d)\<rparr>)
      | _ \<Rightarrow> d)"

text \<open>The maps with the entries of one namespace replaced.\<close>

definition with_policies :: "u64 \<Rightarrow> (conn_key \<Rightarrow> map_policy option) \<Rightarrow> (conn_key \<Rightarrow> map_policy option) \<Rightarrow> conn_key \<Rightarrow> map_policy option" where
  "with_policies n own P k = (if ck_NetNSInode k = n then own k else P k)"

definition with_paths :: "u64 \<Rightarrow> (path_key \<Rightarrow> map_path option) \<Rightarrow> (path_key \<Rightarrow> map_path option) \<Rightarrow> path_key \<Rightarrow> map_path option" where
  "with_paths n own T q = (if ck_NetNSInode (pk_Conn q) = n then own q else T q)"

section \<open>The tables after a reconciliation\<close>

lemma find_unique:
  assumes same: "set xs = set ys" and uniq: "\<And>x y. x \<in> set xs \<Longrightarrow> y \<in> set xs \<Longrightarrow> P x \<Longrightarrow> P y \<Longrightarrow> x = y"
  shows "find P xs = find P ys"
proof (cases "find P xs")
  case None
  then have "find P ys = None" using same by (simp add: find_None_iff)
  with None show ?thesis by simp
next
  case (Some x)
  then have x: "x \<in> set xs" "P x" using find_in_set find_holds by metis+
  then obtain y where y: "find P ys = Some y" using same by (metis find_None_iff option.exhaust)
  then have "y \<in> set ys" "P y" using find_in_set find_holds by metis+
  then show ?thesis using uniq [of x y] x same Some y by simp
qed

lemma find_owner_order:
  assumes "contexts_ok m"
  shows "find (\<lambda>(cid, dc). context_matches e dc) (go_range ns m) = find (\<lambda>(cid, dc). context_matches e dc) m"
proof (rule find_unique)
  fix x y
  assume xy: "x \<in> set (go_range ns m)" "y \<in> set (go_range ns m)" "case x of (cid, dc) \<Rightarrow> context_matches e dc"
    "case y of (cid, dc) \<Rightarrow> context_matches e dc"
  obtain c1 dc1 c2 dc2 where p: "x = (c1, dc1)" "y = (c2, dc2)" by (metis prod.exhaust)
  have wf: "wf_map m" using assms by (simp add: contexts_ok_def)
  then have "map_of m c1 = Some dc1" "map_of m c2 = Some dc2" using xy(1,2) p by simp_all
  with contexts_match_unique [OF assms this] xy(3,4) p show "x = y" by simp
qed simp

context daemon_laws
begin

lemma release_settled:
  assumes inv: "daemon_inv d (pol w) (pth w)" and c: "map_of (d_connections d) t = Some c"
    and stop: "oc_closed c \<or> (case map_of (d_contexts d) (oc_owner c) of None \<Rightarrow> False | Some dc \<Rightarrow> dc_deleting dc)"
    and run: "release s t c d w = ([], d', w')"
  shows "map_of (d_connections d') t = settled_connection (d_contexts d) c"
  using run stop by (auto simp: release_def settled_connection_def split: prod.splits option.splits if_splits)

lemma assign_owner_settled:
  assumes inv: "daemon_inv d (pol w) (pth w)" and c: "map_of (d_connections d) t = Some c"
    and go: "\<not> stops d c" and run: "assign_owner s d c w = (c1, desired, w1)"
  shows "settled_connection (d_contexts d) c = Some (case desired of None \<Rightarrow> c1 | Some dc \<Rightarrow> c1\<lparr>oc_lastError := None\<rparr>)"
proof (cases "if oc_owner c = [] then oc_initial c else None")
  case None
  have "c1 = c" "desired = map_of (d_contexts d) (oc_owner c)" using run None by (auto simp: assign_owner_def)
  moreover have "oc_owner c = [] \<or> map_of (d_contexts d) (oc_owner c) \<noteq> None"
    using inv_connection [OF inv c] by (auto simp: connection_ok_def)
  ultimately show ?thesis using go None no_context_without_id [OF inv_contexts [OF inv]]
    by (auto simp: settled_connection_def stops_def split: option.splits)
next
  case (Some e)
  then have o: "oc_owner c = []" "oc_initial c = Some e" by (simp_all split: if_splits)
  have nc: "map_of (d_contexts d) [] = None" by (rule no_context_without_id [OF inv_contexts [OF inv]])
  obtain ns wm where mo: "MapOrder s w = (ns, wm)" by force
  have fo: "find_owner s d e w = (find (\<lambda>(cid, dc). context_matches e dc) (d_contexts d), wm)"
    by (simp add: find_owner_def mo find_owner_order [OF inv_contexts [OF inv]])
  show ?thesis using run o nc fo go
    by (auto simp: assign_owner_def settled_connection_def stops_def split: option.splits)
qed

lemma reconcile_connection_settled:
  assumes inv: "daemon_inv d (pol w) (pth w)" and run: "reconcile_connection s t d w = (Ok [], d', w')"
  shows "map_of (d_connections d') t = Option.bind (map_of (d_connections d) t) (settled_connection (d_contexts d))"
  using run
proof (cases rule: reconcile_connection_cases)
  case (released c fs)
  then show ?thesis using release_settled [OF inv released(1) released(2) [unfolded stops_def]] by simp
next
  case (idle c c1)
  then show ?thesis using assign_owner_settled [OF inv idle(1-3)] by simp
next
  case (applied c c1 dc w1 res)
  have "res = Ok ()" using applied(5) by (cases res) simp_all
  then show ?thesis using assign_owner_settled [OF inv applied(1-3)] applied(1,6) by simp
qed simp

lemma reconcile_connections_settled:
  assumes "daemon_inv d (pol w) (pth w)" "reconcile_connections s ts [] d w = (Ok [], d', w')" "distinct ts" "t \<in> set ts"
  shows "map_of (d_connections d') t = Option.bind (map_of (d_connections d) t) (settled_connection (d_contexts d))"
  using assms
proof (induction ts arbitrary: d w)
  case Nil
  then show ?case by simp
next
  case (Cons t1 ts)
  obtain x d1 w1 where rc: "reconcile_connection s t1 d w = (x, d1, w1)" by (metis prod.exhaust)
  from reconcile_connection_step [OF Cons.prems(1) rc] obtain fs where x: "x = Ok fs"
    and st: "conn_step t1 d (pol w) (pth w) d1 (pol w1) (pth w1)" by blast
  have rest': "reconcile_connections s ts fs d1 w1 = (Ok [], d', w')" using Cons.prems(2) rc x by simp
  have inv1: "daemon_inv d1 (pol w1) (pth w1)" and ctx: "d_contexts d1 = d_contexts d"
    and others: "\<And>t'. t' \<noteq> t1 \<Longrightarrow> map_of (d_connections d1) t' = map_of (d_connections d) t'"
    using st by (simp_all add: conn_step_def)
  have fs: "fs = []" using reconcile_connections_inv [OF inv1 rest'] by auto
  note rest = rest' [unfolded fs]
  show ?case
  proof (cases "t = t1")
    case True
    then have "map_of (d_connections d') t = map_of (d_connections d1) t"
      using reconcile_connections_untouched [OF inv1 rest] Cons.prems(3) by simp
    then show ?thesis using reconcile_connection_settled [OF Cons.prems(1) rc [unfolded x fs]] True by simp
  next
    case False
    then have "t \<in> set ts" using Cons.prems(4) by simp
    then show ?thesis using Cons.IH [OF inv1 rest] Cons.prems(3) others [OF False] ctx by simp
  qed
qed

end

lemma map_of_map_filter:
  "wf_map m \<Longrightarrow> map_of (List.map_filter (\<lambda>(k, v). map_option (Pair k) (f v)) m) k = Option.bind (map_of m k) f"
proof (induction m)
  case Nil
  then show ?case by (simp add: map_filter_simps)
next
  case (Cons kv m)
  obtain k' v where kv: "kv = (k', v)" by force
  show ?case
  proof (cases "k = k'")
    case True
    then have "map_of m k = None" using Cons.prems kv by (simp add: map_of_eq_None_iff)
    with True kv Cons show ?thesis by (cases "f v") (simp_all add: map_filter_simps)
  next
    case False
    with kv Cons show ?thesis by (cases "f v") (simp_all add: map_filter_simps)
  qed
qed

lemma settle_simps:
  "d_netns (settle d) = d_netns d" "d_fatal (settle d) = d_fatal d"
  "wf_map (d_contexts d) \<Longrightarrow> map_of (d_contexts (settle d)) cid =
     (case map_of (d_contexts d) cid of None \<Rightarrow> None | Some dc \<Rightarrow> if dc_deleting dc then None else Some dc)"
  "wf_map (d_connections d) \<Longrightarrow> map_of (d_connections (settle d)) t =
     Option.bind (map_of (d_connections d) t) (settled_connection (d_contexts d))"
  by (simp_all add: settle_def map_of_map_filter map_of_filter_wf split: option.split)

lemma desired_tables:
  assumes "tables d = tables d'"
  shows "desired_policies d = desired_policies d'" "desired_paths d = desired_paths d'"
proof -
  have eq: "d_netns d = d_netns d'" "map_of (d_contexts d) = map_of (d_contexts d')"
    "map_of (d_connections d) = map_of (d_connections d')" using assms by (simp_all add: tables_def)
  have "conn_of d = conn_of d'" by (simp add: conn_of_def eq fun_eq_iff)
  then have "desired_context_of d k = desired_context_of d' k" for k
    using eq unfolding desired_context_of_def by presburger
  then show "desired_policies d = desired_policies d'" "desired_paths d = desired_paths d'"
    by (simp_all add: desired_policies_def desired_paths_def fun_eq_iff)
qed

context daemon_laws
begin

lemma reconcileLocked_settled:
  assumes inv: "daemon_inv d (pol w) (pth w)" and run: "reconcileLocked s d w = (Ok u, d', w')"
  shows "tables d' = tables (settle d)"
proof -
  obtain ns w1 where mo: "MapOrder s w = (ns, w1)" by force
  let ?ts = "map fst (go_range ns (d_connections d))"
  obtain x d1 w2 where rc: "reconcile_connections s ?ts [] d w1 = (x, d1, w2)" by (metis prod.exhaust)
  have inv1: "daemon_inv d (pol w1) (pth w1)" using inv MapOrder_frame [OF mo] by simp
  note i = reconcile_connections_inv [OF inv1 rc]
  then obtain fs where x: "x = Ok fs" by auto
  then have r: "error_outcome (errors_Join (map Some fs)) = Ok u" and d': "d' = sweep_contexts d1"
    using run mo rc by (simp_all add: reconcileLocked_def)
  then have fs: "fs = []" by (auto simp: errors_Join_map_Some split: if_splits)
  have wf: "wf_map (d_contexts d)" "wf_map (d_connections d)"
    using inv by (simp_all add: daemon_inv_def state_ok_def contexts_ok_def)
  have conns: "map_of (d_connections d') t = map_of (d_connections (settle d)) t" for t
  proof (cases "t \<in> set ?ts")
    case True
    then show ?thesis using reconcile_connections_settled [OF inv1 rc [unfolded x fs]] wf d' by (simp add: settle_simps)
  next
    case False
    then have "map_of (d_connections d) t = None" by (simp add: map_of_eq_None_iff)
    moreover from this have "map_of (d_connections d1) t = None" using i by (meson domIff in_mono)
    ultimately show ?thesis using wf d' by (simp add: settle_simps)
  qed
  have ctx: "map_of (d_contexts d') cid = map_of (d_contexts (settle d)) cid" for cid
  proof -
    have c1: "d_contexts d1 = d_contexts d" using i by blast
    have "map_of (d_contexts d') cid = Some dc \<Longrightarrow> \<not> dc_deleting dc" for dc
      using reconcileLocked_done [OF inv run] by blast
    then have lk: "map_of (d_contexts d') cid = Some dc \<longleftrightarrow> map_of (d_contexts d) cid = Some dc \<and> \<not> dc_deleting dc" for dc
      using sweep_lookup [of d1 cid dc, unfolded c1, OF wf(1)] unfolding d' by blast
    show ?thesis
    proof (cases "map_of (d_contexts d) cid")
      case None
      then have "map_of (d_contexts d') cid = None" using lk by (metis option.distinct(1) option.exhaust)
      then show ?thesis using None wf(1) by (simp add: settle_simps)
    next
      case (Some dc)
      then have "map_of (d_contexts d') cid = (if dc_deleting dc then None else Some dc)"
        using lk [of dc] lk by (cases "dc_deleting dc") (metis option.exhaust option.inject, simp)
      then show ?thesis using Some wf(1) by (simp add: settle_simps del: map_of_eq_Some_iff)
    qed
  qed
  have "map_of (d_contexts d') = map_of (d_contexts (settle d))" by (rule ext) (rule ctx)
  moreover have "map_of (d_connections d') = map_of (d_connections (settle d))" by (rule ext) (rule conns)
  moreover have "d_netns d' = d_netns (settle d)" "d_fatal d' = d_fatal (settle d)"
    using i unfolding d' by (simp_all add: settle_simps(1,2))
  ultimately show ?thesis by (simp add: tables_def)
qed

lemma reconcileLocked_maps:
  assumes inv: "daemon_inv d (pol w) (pth w)" and run: "reconcileLocked s d w = (Ok u, d', w')"
  shows "pol w' = with_policies (d_netns d) (desired_policies (settle d)) (pol w)"
    "pth w' = with_paths (d_netns d) (desired_paths (settle d)) (pth w)"
proof -
  have ok: "op_ok d (pol w) (pth w) (Ok u) d' (pol w') (pth w')" using reconcileLocked_ok [OF inv run] by blast
  then have inv': "daemon_inv d' (pol w') (pth w')" and n: "d_netns d' = d_netns d"
    and out: "outside_same (d_netns d) (pol w) (pth w) (pol w') (pth w')" by (simp_all add: op_ok_def)
  have "conn_done d' (pol w') (pth w') t" for t using reconcileLocked_done [OF inv run] by blast
  from conn_done_desired [OF inv' this] n
  have own: "pol w' k = desired_policies (settle d) k \<and> (\<forall>q. pk_Conn q = k \<longrightarrow> pth w' q = desired_paths (settle d) q)"
    if "ck_NetNSInode k = d_netns d" for k
    using that by (simp add: desired_tables [OF reconcileLocked_settled [OF inv run]])
  show "pol w' = with_policies (d_netns d) (desired_policies (settle d)) (pol w)"
    "pth w' = with_paths (d_netns d) (desired_paths (settle d)) (pth w)"
    using own out by (auto simp: with_policies_def with_paths_def outside_same_def fun_eq_iff)
qed

text \<open>The three operations that return the error of their reconciliation.\<close>

lemma request_reconciles:
  assumes inv: "daemon_inv d (pol w) (pth w)" and run: "run_command s cmd d w = (Ok u, d', w')"
    and cmd: "case cmd of CPut _ \<Rightarrow> True | CDelete _ \<Rightarrow> True | CRetry \<Rightarrow> True | _ \<Rightarrow> False"
  shows "\<exists>w1. pol w1 = pol w \<and> pth w1 = pth w \<and> daemon_inv (request cmd d) (pol w) (pth w) \<and>
    d_netns (request cmd d) = d_netns d \<and> reconcileLocked s (request cmd d) w1 = (Ok u, d', w')"
proof (cases cmd)
  case (CPut a)
  let ?a = "canonical a"
  have put: "Daemon_Put s a d w = (Ok u, d', w')" using run CPut by simp
  have valid: "Assignment_Validate a = None" "d_fatal d = None"
    using put by (cases "Assignment_Validate a"; cases "d_fatal d"; simp add: Daemon_Put_def)+
  obtain e w1 where vl: "validate_legs s [cp_A (cp_Legs (cp_ContextSpec ?a)), cp_B (cp_Legs (cp_ContextSpec ?a))] w = (e, w1)"
    by force
  note put' = put [unfolded Daemon_Put_def valid option.case Let_def vl prod.case]
  have e: "e = None" using put' by (cases e) simp_all
  have adm: "admission_error d ?a = None" using put' e by (cases "admission_error d ?a") simp_all
  have "pol w1 = pol w \<and> pth w1 = pth w" using validate_legs_frame [OF vl] .
  moreover have "request cmd d = d\<lparr>d_contexts := go_set (cp_ID (cp_ContextSpec ?a)) \<lparr>dc_assignment = ?a, dc_deleting = False\<rparr> (d_contexts d)\<rparr>"
    by (simp add: request_def CPut)
  ultimately show ?thesis
    using put' e adm admitted_inv [OF inv valid(1) refl adm] by auto
next
  case (CDelete cid)
  have "daemon_inv (request cmd d) (pol w) (pth w) \<and> d_netns (request cmd d) = d_netns d"
    using inv deleting_inv [OF inv, of cid] by (auto simp: request_def CDelete split: option.split)
  then show ?thesis using run CDelete by (auto simp: Daemon_Delete_def request_def)
next
  case CRetry
  then show ?thesis using run inv by (auto simp: Daemon_Retry_def request_def)
qed (use cmd in simp_all)

end

section \<open>Properties\<close>

text \<open>
  C1: a \<open>Put\<close>, \<open>Delete\<close> or retry that returns nil implements the specification: the tables are those
  of \<open>settle\<close> after the request, and the maps hold in the daemon's namespace exactly the entries
  these tables ask for and elsewhere what they held before.
\<close>

theorem requests_refine_settle:
  assumes "daemon_laws s pol pth" "daemon_reach s pol pth n d w" "run_command s cmd d w = (Ok (), d', w')"
    and "case cmd of CPut _ \<Rightarrow> True | CDelete _ \<Rightarrow> True | CRetry \<Rightarrow> True | _ \<Rightarrow> False"
  shows "tables d' = tables (settle (request cmd d)) \<and>
    pol w' = with_policies n (desired_policies (settle (request cmd d))) (pol w) \<and>
    pth w' = with_paths n (desired_paths (settle (request cmd d))) (pth w)"
proof -
  have inv: "daemon_inv d (pol w) (pth w)" and n: "d_netns d = n"
    using daemon_laws.reach_inv [OF assms(1,2)] by simp_all
  obtain w1 where w1: "pol w1 = pol w" "pth w1 = pth w" "daemon_inv (request cmd d) (pol w) (pth w)"
    "d_netns (request cmd d) = d_netns d" "reconcileLocked s (request cmd d) w1 = (Ok (), d', w')"
    using daemon_laws.request_reconciles [OF assms(1) inv assms(3,4)] by blast
  then have inv1: "daemon_inv (request cmd d) (pol w1) (pth w1)" by simp
  show ?thesis
    using daemon_laws.reconcileLocked_settled [OF assms(1) inv1 w1(5)]
      daemon_laws.reconcileLocked_maps [OF assms(1) inv1 w1(5)] w1(1,2,4) n by simp
qed

text \<open>A run in which the write of a path failed: the connection is bound and nothing is in the maps.\<close>

definition ex_failed :: daemon where
  "ex_failed = set_connection 7
     ((the (map_of (d_connections ex_daemon) 7))\<lparr>oc_lastError := Some (Joined [Errorf ''stage path'' [Errno 12]])\<rparr>) ex_daemon"

definition ex_unbound :: bpf_world where
  "ex_unbound = \<lparr>bw_policies = [], bw_paths = [], bw_faults = [], bw_orders = [], bw_log = []\<rparr>"

lemma ex_failed_reach: "daemon_reach (bpf_env ex_ifs) policies paths ex_netns ex_failed ex_unbound"
proof -
  let ?w = "ex_empty [None, None, None, None, None, Some 12]"
  have "empty_namespace ex_netns (policies ?w) (paths ?w)"
    by (simp add: empty_namespace_def unmapped_def policies_def paths_def ex_empty_def)
  then have "daemon_reach (bpf_env ex_ifs) policies paths ex_netns (NewDaemon ex_netns) ?w"
    by (rule daemon_reach.start)
  moreover have "run_commands (bpf_env ex_ifs) ex_commands (NewDaemon ex_netns) ?w = (ex_failed, ex_unbound)"
    by code_simp
  ultimately show ?thesis by (rule run_commands_reach)
qed

lemma requests_refine_settle_witness:
  "\<exists>d' w'. run_command (bpf_env ex_ifs) (CPut (ex_assignment ''ctx1'' 443 2)) ex_failed ex_unbound = (Ok (), d', w') \<and>
    policies w' ex_conn = Some (assigned_policy (ex_assignment ''ctx1'' 443 2))"
proof -
  let ?c = "CPut (ex_assignment ''ctx1'' 443 2)"
  obtain r d' w' where run: "run_command (bpf_env ex_ifs) ?c ex_failed ex_unbound = (r, d', w')" by (metis prod.exhaust)
  have "fst (run_command (bpf_env ex_ifs) ?c ex_failed ex_unbound) = Ok ()" by code_simp
  then have ok: "run_command (bpf_env ex_ifs) ?c ex_failed ex_unbound = (Ok (), d', w')" using run by simp
  have "desired_policies (settle (request ?c ex_failed)) ex_conn = Some (assigned_policy (ex_assignment ''ctx1'' 443 2))"
    by code_simp
  moreover have "ck_NetNSInode ex_conn = ex_netns" by (simp add: ex_conn_def)
  ultimately have "policies w' ex_conn = Some (assigned_policy (ex_assignment ''ctx1'' 443 2))"
    using requests_refine_settle [OF bpf_env_laws ex_failed_reach ok] by (simp add: with_policies_def)
  with ok show ?thesis by blast
qed

text \<open>
  C2: when no call fails, the maps have room and the observed flows agree with the interfaces of
  their contexts, a retry succeeds, whatever failed before, and the maps then hold exactly what
  the tables ask for.
\<close>

theorem retry_converges:
  assumes env: "reliable_env s pol pth ok" and reach: "daemon_reach s pol pth n d w" and "n \<noteq> 0"
    and "\<And>t. agrees_at s d t" and "ok (257 * length (d_connections d) + m) w"
  shows "\<exists>d' w'. Daemon_Retry s d w = (Ok (), d', w') \<and> ok m w' \<and> tables d' = tables (settle d) \<and>
    pol w' = with_policies n (desired_policies (settle d)) (pol w) \<and> pth w' = with_paths n (desired_paths (settle d)) (pth w)"
proof -
  have laws: "daemon_laws s pol pth" by (rule reliable_env.axioms(1) [OF env])
  have inv: "daemon_inv d (pol w) (pth w)" and n: "d_netns d = n"
    using daemon_laws.reach_inv [OF laws reach] by simp_all
  from reliable_env.reconcileLocked_reliable [OF env inv assms(4) _ assms(5)] assms(3) n
  obtain d' w' where run: "reconcileLocked s d w = (Ok (), d', w')" "ok m w'" by blast
  show ?thesis
    using run daemon_laws.reconcileLocked_settled [OF laws inv run(1)] daemon_laws.reconcileLocked_maps [OF laws inv run(1)] n
    by (simp add: Daemon_Retry_def)
qed

lemma ex_failed_agrees: "agrees_at (bpf_env ex_ifs) ex_failed t"
proof -
  let ?c = "(the (map_of (d_connections ex_daemon) 7))\<lparr>oc_lastError := Some (Joined [Errorf ''stage path'' [Errno 12]])\<rparr>"
  let ?a = "ex_assignment ''ctx1'' 443 1"
  have "agent_names ?a" "flows_agree ?a 2 3 (map snd (oc_flows ?c))"
    "ValidateLegAddress ex_ifs (cp_A (cp_Legs (cp_ContextSpec ?a))) = Inr 2"
    "ValidateLegAddress ex_ifs (cp_B (cp_Legs (cp_ContextSpec ?a))) = Inr 3" by code_simp+
  then have "interfaces_agree (bpf_env ex_ifs) ?c ?a"
    unfolding interfaces_agree_def bpf_env_def by (intro conjI exI [of _ 2] exI [of _ 3]) simp_all
  moreover have "map_of (d_connections ex_failed) t = (if t = 7 then Some ?c else None)"
    by (simp add: ex_failed_def ex_daemon_def)
  moreover have "map_of (d_contexts ex_failed) cid = (if cid = ''ctx1'' then Some \<lparr>dc_assignment = ?a, dc_deleting = False\<rparr> else None)" for cid
    by (simp add: ex_failed_def ex_daemon_def)
  ultimately show ?thesis by (simp add: agrees_at_def split: if_splits)
qed

lemma retry_converges_witness:
  "\<exists>d' w'. Daemon_Retry (bpf_env ex_ifs) ex_failed ex_unbound = (Ok (), d', w') \<and>
    paths w' (ex_path_of 1) = Some \<lparr>path_Generation = 1, path_Access = 1\<rparr>"
proof -
  have "bpf_reliable (257 * length (d_connections ex_failed) + 0) ex_unbound" by code_simp
  from retry_converges [OF bpf_env_reliable ex_failed_reach _ ex_failed_agrees this] obtain d' w' where
    r: "Daemon_Retry (bpf_env ex_ifs) ex_failed ex_unbound = (Ok (), d', w')"
    "paths w' = with_paths ex_netns (desired_paths (settle ex_failed)) (paths ex_unbound)"
    by (auto simp: ex_netns_def)
  have "with_paths ex_netns (desired_paths (settle ex_failed)) (paths ex_unbound) (ex_path_of 1) =
      Some \<lparr>path_Generation = 1, path_Access = 1\<rparr>" by code_simp
  with r show ?thesis by metis
qed

end
