(* ===== verification/PMEncoding.thy ===== *)
theory PMEncoding
  imports PMEvents
begin

text \<open>
  The layout of a path-manager event as \<open>include/uapi/linux/mptcp_pm.h\<close> describes it to the
  decoder of \<open>pm_linux.go\<close>: which attribute holds which field, in which byte order. The lemmas
  show that \<open>DecodePMEvent\<close> recovers an event from any sequence of attributes that contains the
  attributes of its layout, whatever their order and whatever other attributes occur.
\<close>

section \<open>The layout of an event\<close>

text \<open>An address in the family of the event: four bytes, or sixteen with IPv4 in its mapped form.\<close>

fun address_bytes :: "bool \<Rightarrow> addr \<Rightarrow> bytes" where
  "address_bytes v6 (IPv4 a) =
     (if v6 then replicate 10 0 @ [255, 255] @ be_bytes 4 (unat a) else be_bytes 4 (unat a))"
| "address_bytes v6 (IPv6 a z) = be_bytes 16 (unat a)"
| "address_bytes v6 NoAddr = []"

fun address_fits :: "bool \<Rightarrow> addr \<Rightarrow> bool" where
  "address_fits v6 (IPv4 a) = True"
| "address_fits v6 (IPv6 a z) = (v6 \<and> z = [] \<and> \<not> Is4In6 (IPv6 a z))"
| "address_fits v6 NoAddr = False"

definition event_layout :: "endian \<Rightarrow> bool \<Rightarrow> pm_event \<Rightarrow> (u16 \<times> bytes) list" where
  "event_layout en v6 e =
     [(1, native_bytes en 4 (unat (ev_Token e))),
      (2, native_bytes en 2 (if v6 then 10 else 2)),
      (3, [ev_LocalID e]), (4, [ev_RemoteID e]),
      (if v6 then 6 else 5, address_bytes v6 (ev_LocalAddress e)),
      (if v6 then 8 else 7, address_bytes v6 (ev_DestinationAddress e)),
      (9, be_bytes 2 (unat (ev_LocalPort e))), (10, be_bytes 2 (unat (ev_DestinationPort e)))]"

text \<open>The interface index may be left out when it is zero.\<close>

definition index_layout :: "endian \<Rightarrow> pm_event \<Rightarrow> (u16, bytes) gomap \<Rightarrow> bool" where
  "index_layout en e avs \<longleftrightarrow>
     (case map_of avs 15 of
        None \<Rightarrow> ev_IfIndex e = 0
      | Some v \<Rightarrow> v = native_bytes en 4 (unat (ev_IfIndex e)))"

definition encode_attrs :: "endian \<Rightarrow> (u16 \<times> bytes) list \<Rightarrow> bytes" where
  "encode_attrs en avs = concat (map (\<lambda>(t, v). encodeAttr en t v) avs)"

text \<open>A generic-netlink payload: the command, the version and two reserved bytes, the attributes.\<close>

definition genl_payload :: "endian \<Rightarrow> u8 \<Rightarrow> (u16 \<times> bytes) list \<Rightarrow> bytes" where
  "genl_payload en ty avs = [ty, 1, 0, 0] @ encode_attrs en avs"

section \<open>Reading fields back\<close>

lemma word_of_nat_unat_mod:
  fixes w :: "'a::len word"
  assumes "2 ^ LENGTH('a) = m"
  shows "(of_nat (unat w mod m) :: 'a word) = w"
  using unat_less [of w] by (simp add: assms [symmetric])

lemma native_Uint32_bytes: "native_Uint32 en (native_bytes en 4 (unat w)) = Ok w"
  using word_of_nat_unat_mod [of "2 ^ 32" w] by (simp add: native_Uint32_def)

lemma native_Uint16_bytes_word: "native_Uint16 en (native_bytes en 2 (unat w)) = Ok w"
  using native_Uint16_bytes [of en "unat w" "[]"] by simp

lemma big_Uint16_bytes: "big_Uint16 (be_bytes 2 (unat w)) = Ok w"
  using native_Uint16_bytes_word [of Big w] by (simp add: big_Uint16_def native_bytes_def)

lemma be_nat_append: "be_nat (a @ b) = be_nat a * 256 ^ length b + be_nat b"
  by (induction b rule: rev_induct) (simp_all add: be_nat_snoc algebra_simps flip: append_assoc)

lemma be_nat_replicate_zero: "be_nat (replicate n 0) = 0"
  by (induction n) (simp_all add: be_nat_def)

lemma length_address_bytes: "address_fits v6 a \<Longrightarrow> length (address_bytes v6 a) = (if v6 then 16 else 4)"
  by (cases a) auto

lemma address_bytes_read: "address_fits v6 a \<Longrightarrow> Unmap (AddrFromSlice (address_bytes v6 a)) = a"
proof (cases a)
  case (IPv4 w)
  have w: "unat w < 2 ^ 32" using unat_less [of w] by simp
  show ?thesis
  proof (cases v6)
    case False
    then show ?thesis using w word_of_nat_unat_mod [of "2 ^ 32" w]
      by (simp add: IPv4 AddrFromSlice_def be_nat_be_bytes)
  next
    case True
    let ?n = "65535 * 2 ^ 32 + unat w :: nat"
    have pre: "be_nat (replicate 10 0 @ [255, 255 :: u8]) = 65535"
      using be_nat_snoc [of "[255]" 255] be_nat_snoc [of "[]" 255]
      by (subst be_nat_append) (simp add: be_nat_replicate_zero)
    have n: "be_nat (address_bytes v6 a) = ?n"
      using w True be_nat_append [of "replicate 10 0 @ [255, 255]" "be_bytes 4 (unat w)"]
      by (simp only: IPv4 address_bytes.simps if_True pre be_nat_be_bytes length_be_bytes append_assoc) simp
    have u: "unat (of_nat ?n :: 128 word) = ?n"
      unfolding unat_of_nat using w by (intro mod_less) simp
    have "?n div 2 ^ 32 = 65535" using w by simp
    moreover have "?n mod 2 ^ LENGTH(32) = unat w" using w mod_mult_self3 [of 65535 "2 ^ 32" "unat w"] by simp
    then have "(of_nat ?n :: u32) = w" unfolding word_unat_eq_iff unat_of_nat .
    ultimately show ?thesis
      using n u True length_address_bytes [of v6 a] by (simp add: IPv4 AddrFromSlice_def)
  qed
next
  case (IPv6 w z)
  assume "address_fits v6 a"
  then show ?thesis using word_of_nat_unat_mod [of "2 ^ 128" w]
    by (auto simp: IPv6 AddrFromSlice_def be_nat_be_bytes)
qed simp

section \<open>Decoding the layout\<close>

lemma encode_attrs_decoded: "attrs_encodable avs \<Longrightarrow> netlinkAttrs en (encode_attrs en avs) = Ok avs"
  by (simp add: encode_attrs_def netlinkAttrs_encoded)

lemma require_attr_Some: "map_of avs i = Some v \<Longrightarrow> length v = n \<Longrightarrow> require_attr avs i n = Ok v"
  by (simp add: require_attr_def)

lemma pm_IfIndex_layout: "index_layout en e avs \<Longrightarrow> pm_IfIndex en avs = Ok (ev_IfIndex e)"
  by (auto simp: index_layout_def pm_IfIndex_def native_Uint32_bytes split: option.splits)

lemma layout_entry: "map_of (event_layout en v6 e) \<subseteq>\<^sub>m map_of avs \<Longrightarrow>
    map_of (event_layout en v6 e) i = Some v \<Longrightarrow> map_of avs i = Some v"
  unfolding map_le_def by (metis domI)

lemma DecodePMEvent_layout:
  assumes enc: "attrs_encodable avs"
    and ty: "ev_Type e = EventEstablished \<or> ev_Type e = EventSubEstablished \<or> ev_Type e = EventSubClosed"
    and fits: "address_fits v6 (ev_LocalAddress e)" "address_fits v6 (ev_DestinationAddress e)"
    and le: "map_of (event_layout en v6 e) \<subseteq>\<^sub>m map_of avs" and ix: "index_layout en e avs"
  shows "DecodePMEvent en (genl_payload en (ev_Type e) avs) = Ok e"
proof -
  note entry = layout_entry [OF le]
  let ?d = "genl_payload en (ev_Type e) avs" and ?n = "if v6 then 16 else 4"
  have attrs: "netlinkAttrs en (drop 4 ?d) = Ok avs"
    using encode_attrs_decoded [OF enc] by (simp add: genl_payload_def)
  have hd: "go_index 0 ?d = Ok (ev_Type e)" "length ?d \<ge> 4" "go_slice 4 (length ?d) ?d = Ok (drop 4 ?d)"
    by (simp_all add: genl_payload_def go_index_def go_slice_def)
  have r1: "require_attr avs 1 4 = Ok (native_bytes en 4 (unat (ev_Token e)))"
    by (rule require_attr_Some [OF entry]) (simp_all add: event_layout_def)
  have r2: "require_attr avs 2 2 = Ok (native_bytes en 2 (if v6 then 10 else 2))"
    by (rule require_attr_Some [OF entry]) (simp_all add: event_layout_def)
  have fam: "native_Uint16 en (native_bytes en 2 (if v6 then 10 else 2)) = Ok (if v6 then 10 else 2)"
    using native_Uint16_bytes [of en "if v6 then 10 else 2" "[]"] by simp
  have r3: "require_attr avs 3 1 = Ok [ev_LocalID e]" "require_attr avs 4 1 = Ok [ev_RemoteID e]"
    by (rule require_attr_Some [OF entry]; simp add: event_layout_def)+
  have r5: "require_attr avs (if v6 then 6 else 5) ?n = Ok (address_bytes v6 (ev_LocalAddress e))"
    "require_attr avs (if v6 then 8 else 7) ?n = Ok (address_bytes v6 (ev_DestinationAddress e))"
    using fits by (rule_tac [!] require_attr_Some [OF entry]) (simp_all add: event_layout_def length_address_bytes)
  have r9: "require_attr avs 9 2 = Ok (be_bytes 2 (unat (ev_LocalPort e)))"
    "require_attr avs 10 2 = Ok (be_bytes 2 (unat (ev_DestinationPort e)))"
    by (rule require_attr_Some [OF entry]; simp add: event_layout_def)+
  have t: "observed_type (ev_Type e)" "ev_Type e \<noteq> EventClosed"
    using ty by (auto simp: observed_type_def EventEstablished_def EventSubEstablished_def EventSubClosed_def EventClosed_def)
  have pf: "pm_family (if v6 then 10 else 2) = Ok (if v6 then 6 else 5, if v6 then 8 else 7, ?n)"
    by (simp add: pm_family_def AF_INET_def AF_INET6_def)
  have b: "outcome_bind (require_attr avs 3 1) (go_index 0) = Ok (ev_LocalID e)"
    "outcome_bind (require_attr avs 4 1) (go_index 0) = Ok (ev_RemoteID e)"
    by (simp_all only: r3 outcome_bind.simps go_index_def) simp_all
  have e: "e = \<lparr>ev_Type = ev_Type e, ev_Token = ev_Token e, ev_LocalID = ev_LocalID e, ev_RemoteID = ev_RemoteID e,
      ev_LocalAddress = ev_LocalAddress e, ev_DestinationAddress = ev_DestinationAddress e,
      ev_LocalPort = ev_LocalPort e, ev_DestinationPort = ev_DestinationPort e, ev_IfIndex = ev_IfIndex e\<rparr>"
    by simp
  have len: "\<not> length ?d < 4" using hd(2) by simp
  show ?thesis
    unfolding DecodePMEvent_def
    by (simp only: hd len t attrs r1 r2 b r5 r9 fam pf native_Uint32_bytes big_Uint16_bytes pm_IfIndex_layout [OF ix]
        address_bytes_read [OF fits(1)] address_bytes_read [OF fits(2)] outcome_bind.simps if_False if_True
        prod.case not_True_eq_False e [symmetric])
qed

lemma DecodePMEvent_closed:
  assumes "attrs_encodable avs" "map_of avs 1 = Some (native_bytes en 4 (unat token))"
  shows "DecodePMEvent en (genl_payload en EventClosed avs) = Ok (zero_event\<lparr>ev_Type := EventClosed, ev_Token := token\<rparr>)"
proof -
  have r1: "require_attr avs 1 4 = Ok (native_bytes en 4 (unat token))"
    using assms(2) by (simp add: require_attr_def)
  show ?thesis
    using encode_attrs_decoded [OF assms(1), of en]
    by (simp add: DecodePMEvent_def genl_payload_def go_index_def go_slice_def observed_type_def r1 native_Uint32_bytes)
qed

end
