(* ===== verification/PMStream.thy ===== *)
theory PMStream
  imports PMEncoding
begin

text \<open>
  The subscription of \<open>dualsteer-agent/pm_linux.go\<close>: netlink messages, the resolution of the
  event family and group by \<open>SubscribePM\<close>, and the receive loop \<open>Run\<close>. The calls of
  \<open>golang.org/x/sys/unix\<close> are the functions of a record; \<open>Run\<close> takes the list of what each of its
  iterations is told by the context, by \<open>Poll\<close> and by \<open>Recvmsg\<close>, so that a run that has not
  returned when the list ends is the value \<open>None\<close>.
\<close>

section \<open>Netlink messages\<close>

record nl_message =
  nl_Type :: u16
  nl_Data :: bytes

definition EINVAL :: nat where "EINVAL = 22"
definition EINTR :: nat where "EINTR = 4"
definition EAGAIN :: nat where "EAGAIN = 11"
definition NLMSG_ERROR :: u16 where "NLMSG_ERROR = 2"
definition NLMSG_OVERRUN :: u16 where "NLMSG_OVERRUN = 4"
definition GENL_ID_CTRL :: u16 where "GENL_ID_CTRL = 16"
definition MSG_TRUNC :: u32 where "MSG_TRUNC = 0x20"
definition SOL_SOCKET :: int where "SOL_SOCKET = 1"
definition SO_RCVBUF :: int where "SO_RCVBUF = 8"
definition SOL_NETLINK :: int where "SOL_NETLINK = 270"
definition NETLINK_ADD_MEMBERSHIP :: int where "NETLINK_ADD_MEMBERSHIP = 1"

text \<open>\<open>syscall.ParseNetlinkMessage\<close>; of a header only the length and the type are used.\<close>

function messages_loop :: "endian \<Rightarrow> bytes \<Rightarrow> nl_message list \<Rightarrow> nl_message list outcome" where
  "messages_loop en b msgs =
     (if length b < 16 then Ok msgs
      else outcome_bind (native_Uint32 en b) (\<lambda>w.
        let n = unat w; l = align4 n in
        if n < 16 \<or> l > length b then Err (Errno EINVAL)
        else outcome_bind (outcome_bind (go_slice 4 (length b) b) (native_Uint16 en)) (\<lambda>t.
          outcome_bind (go_slice 16 n b) (\<lambda>data.
            outcome_bind (go_slice l (length b) b) (\<lambda>rest.
              messages_loop en rest (msgs @ [\<lparr>nl_Type = t, nl_Data = data\<rparr>]))))))"
  by pat_completeness auto
termination
proof (relation "measure (\<lambda>(en, b, msgs). length b)", goal_cases)
  case (2 en b msgs w n l t data rest)
  then have "16 \<le> align4 n" using align4_bounds(1) [of n] by linarith
  with 2 show ?case by (auto simp: go_slice_Ok)
qed simp

declare messages_loop.simps [simp del]

definition ParseNetlinkMessage :: "endian \<Rightarrow> bytes \<Rightarrow> nl_message list outcome" where
  "ParseNetlinkMessage en b = messages_loop en b []"

text \<open>
  \<open>netlinkError\<close> has no nil result; its length test makes the read of the four bytes safe. The
  negated code is converted to the machine word \<open>syscall.Errno\<close>, so that a positive code gives a
  number close to \<open>2^64\<close>.
\<close>

definition netlinkError :: "endian \<Rightarrow> bytes \<Rightarrow> go_error" where
  "netlinkError en data =
     (if length data < 4 then errors_New ''truncated netlink error''
      else let code = of_nat (native_nat en (take 4 data)) :: u32 in
        if code = 0 then errors_New ''unexpected netlink acknowledgement''
        else Errno (unat (scast (- code) :: u64)))"

section \<open>Resolving the event family and group\<close>

record 'w netlink_calls =
  Socket :: "'w \<Rightarrow> (go_error + int) \<times> 'w"
  Bind :: "int \<Rightarrow> 'w \<Rightarrow> go_error option \<times> 'w"
  SetsockoptInt :: "int \<Rightarrow> int \<Rightarrow> int \<Rightarrow> int \<Rightarrow> 'w \<Rightarrow> go_error option \<times> 'w"
  SetRecvTimeout :: "int \<Rightarrow> int \<Rightarrow> 'w \<Rightarrow> go_error option \<times> 'w"
  Sendto :: "int \<Rightarrow> bytes \<Rightarrow> 'w \<Rightarrow> go_error option \<times> 'w"
  Recvfrom :: "int \<Rightarrow> nat \<Rightarrow> 'w \<Rightarrow> (go_error + bytes) \<times> 'w"
  SetNonblock :: "int \<Rightarrow> 'w \<Rightarrow> go_error option \<times> 'w"
  CloseFd :: "int \<Rightarrow> 'w \<Rightarrow> go_error option \<times> 'w"
  RangeOrder :: "'w \<Rightarrow> nat list \<times> 'w"

definition string_bytes :: "string \<Rightarrow> bytes" where
  "string_bytes s = map of_char s"

definition trim_zeros :: "bytes \<Rightarrow> bytes" where
  "trim_zeros b = rev (dropWhile (\<lambda>x. x = 0) (rev b))"

text \<open>Reading a map at an absent key gives the nil slice.\<close>

definition attr :: "(u16, bytes) gomap \<Rightarrow> u16 \<Rightarrow> bytes" where
  "attr m k = (case map_of m k of None \<Rightarrow> [] | Some v \<Rightarrow> v)"

definition family_request :: "endian \<Rightarrow> bytes" where
  "family_request en =
     (let payload = [3, 2, 0, 0] @ encodeAttr en 2 (string_bytes ''mptcp_pm'' @ [0]) in
      native_bytes en 4 (16 + length payload) @ native_bytes en 2 (unat GENL_ID_CTRL) @ native_bytes en 2 1 @
      native_bytes en 4 1 @ replicate 4 0 @ payload)"

fun resolve_groups :: "endian \<Rightarrow> bytes list \<Rightarrow> u32 \<Rightarrow> u32 outcome" where
  "resolve_groups en [] grp = Ok grp"
| "resolve_groups en (g # gs) grp =
     outcome_bind (netlinkAttrs en g) (\<lambda>a.
       if trim_zeros (attr a 1) = string_bytes ''mptcp_pm_events'' \<and> length (attr a 2) = 4
       then outcome_bind (native_Uint32 en (attr a 2)) (resolve_groups en gs)
       else resolve_groups en gs grp)"

definition resolve_family :: "endian \<Rightarrow> bytes \<Rightarrow> u16 \<Rightarrow> u16 outcome" where
  "resolve_family en v family = (if length v = 2 then native_Uint16 en v else Ok family)"

definition resolve_message :: "endian \<Rightarrow> nat list \<Rightarrow> nl_message \<Rightarrow> u16 \<times> u32 \<Rightarrow> (u16 \<times> u32) outcome" where
  "resolve_message en ns m found =
     (if nl_Type m = NLMSG_ERROR then Err (netlinkError en (nl_Data m))
      else if nl_Type m \<noteq> GENL_ID_CTRL \<or> length (nl_Data m) < 4 then Ok found
      else outcome_bind (outcome_bind (go_slice 4 (length (nl_Data m)) (nl_Data m)) (netlinkAttrs en)) (\<lambda>attrs.
        outcome_bind (resolve_family en (attr attrs 1) (fst found)) (\<lambda>family.
        outcome_bind (netlinkAttrs en (attr attrs 7)) (\<lambda>groups.
        outcome_bind (resolve_groups en (map snd (go_range ns groups)) (snd found)) (\<lambda>grp.
        Ok (family, grp))))))"

fun resolve_messages :: "endian \<Rightarrow> ('w, 'z) netlink_calls_scheme \<Rightarrow> nl_message list \<Rightarrow> u16 \<times> u32 \<Rightarrow> 'w \<Rightarrow>
    (u16 \<times> u32) outcome \<times> 'w" where
  "resolve_messages en u [] found w = (Ok found, w)"
| "resolve_messages en u (m # ms) found w =
     (let (ns, w1) = RangeOrder u w in
      case resolve_message en ns m found of
        Ok found' \<Rightarrow> resolve_messages en u ms found' w1
      | Err e \<Rightarrow> (Err e, w1)
      | Panic \<Rightarrow> (Panic, w1))"

text \<open>
  \<open>SubscribePM\<close>. The closure \<open>fail\<close> closes the socket; each step before the last either goes on or
  ends in it. The result is the descriptor and the family of the subscription.
\<close>

definition subscribe_fail :: "('w, 'z) netlink_calls_scheme \<Rightarrow> int \<Rightarrow> go_error \<Rightarrow> 'w \<Rightarrow> 'a outcome \<times> 'w" where
  "subscribe_fail u fd e w = (Err e, snd (CloseFd u fd w))"

definition or_fail :: "('w, 'z) netlink_calls_scheme \<Rightarrow> int \<Rightarrow> go_error option \<times> 'w \<Rightarrow> ('w \<Rightarrow> 'a outcome \<times> 'w) \<Rightarrow>
    'a outcome \<times> 'w" where
  "or_fail u fd r next = (case r of (Some e, w) \<Rightarrow> subscribe_fail u fd e w | (None, w) \<Rightarrow> next w)"

definition join_group :: "('w, 'z) netlink_calls_scheme \<Rightarrow> int \<Rightarrow> u16 \<times> u32 \<Rightarrow> 'w \<Rightarrow> (int \<times> u16) outcome \<times> 'w" where
  "join_group u fd found w =
     (if fst found = 0 \<or> snd found = 0
      then subscribe_fail u fd (errors_New ''mptcp_pm event family/group unavailable'') w
      else or_fail u fd (SetsockoptInt u fd SOL_NETLINK NETLINK_ADD_MEMBERSHIP (int (unat (snd found))) w) (\<lambda>w1.
        or_fail u fd (SetNonblock u fd w1) (\<lambda>w2. (Ok (fd, fst found), w2))))"

definition resolve_and_join :: "endian \<Rightarrow> ('w, 'z) netlink_calls_scheme \<Rightarrow> int \<Rightarrow> 'w \<Rightarrow> (int \<times> u16) outcome \<times> 'w" where
  "resolve_and_join en u fd w =
     (case Recvfrom u fd 65536 w of
        (Inl e, w1) \<Rightarrow> subscribe_fail u fd e w1
      | (Inr data, w1) \<Rightarrow>
          (case ParseNetlinkMessage en data of
             Panic \<Rightarrow> (Panic, w1)
           | Err e \<Rightarrow> subscribe_fail u fd e w1
           | Ok msgs \<Rightarrow>
               (case resolve_messages en u msgs (0, 0) w1 of
                  (Panic, w2) \<Rightarrow> (Panic, w2)
                | (Err e, w2) \<Rightarrow> subscribe_fail u fd e w2
                | (Ok found, w2) \<Rightarrow> join_group u fd found w2)))"

definition SubscribePM :: "endian \<Rightarrow> ('w, 'z) netlink_calls_scheme \<Rightarrow> 'w \<Rightarrow> (int \<times> u16) outcome \<times> 'w" where
  "SubscribePM en u w =
     (case Socket u w of
        (Inl e, w1) \<Rightarrow> (Err e, w1)
      | (Inr fd, w1) \<Rightarrow>
          or_fail u fd (Bind u fd w1) (\<lambda>w2.
          or_fail u fd (SetsockoptInt u fd SOL_SOCKET SO_RCVBUF (4 * 2 ^ 20) w2) (\<lambda>w3.
          or_fail u fd (SetRecvTimeout u fd 3 w3) (\<lambda>w4.
          or_fail u fd (Sendto u fd (family_request en) w4) (\<lambda>w5.
          resolve_and_join en u fd w5)))))"

section \<open>The receive loop\<close>

text \<open>A datagram; \<open>dg_From\<close> is the port of the sender when it is a netlink address.\<close>

record pm_datagram =
  dg_Data :: bytes
  dg_Flags :: u32
  dg_From :: "u32 option"

record pm_tick =
  tk_ctx :: "go_error option"
  tk_poll :: "go_error + nat"
  tk_recv :: "go_error + pm_datagram"

fun run_messages :: "endian \<Rightarrow> u16 \<Rightarrow> (pm_event \<Rightarrow> 's \<Rightarrow> unit outcome \<times> 's) \<Rightarrow> nl_message list \<Rightarrow> 's \<Rightarrow>
    unit outcome \<times> 's" where
  "run_messages en family handle [] s = (Ok (), s)"
| "run_messages en family handle (m # ms) s =
     (if nl_Type m = NLMSG_OVERRUN then (Err (errors_New ''PM event stream overrun''), s)
      else if nl_Type m = NLMSG_ERROR then (Err (netlinkError en (nl_Data m)), s)
      else if nl_Type m \<noteq> family then run_messages en family handle ms s
      else case DecodePMEvent en (nl_Data m) of
        Panic \<Rightarrow> (Panic, s)
      | Err e \<Rightarrow> (Err e, s)
      | Ok event \<Rightarrow>
          (case handle event s of
             (Ok _, s1) \<Rightarrow> run_messages en family handle ms s1
           | (Err e, s1) \<Rightarrow> (Err e, s1)
           | (Panic, s1) \<Rightarrow> (Panic, s1)))"

definition run_datagram :: "endian \<Rightarrow> u16 \<Rightarrow> (pm_event \<Rightarrow> 's \<Rightarrow> unit outcome \<times> 's) \<Rightarrow> pm_datagram \<Rightarrow> 's \<Rightarrow>
    unit outcome \<times> 's" where
  "run_datagram en family handle dg s =
     (if and (dg_Flags dg) MSG_TRUNC \<noteq> 0 then (Err (errors_New ''PM event datagram truncated''), s)
      else if dg_From dg \<noteq> Some 0 then (Err (errors_New ''PM event not from kernel''), s)
      else case ParseNetlinkMessage en (dg_Data dg) of
        Panic \<Rightarrow> (Panic, s)
      | Err e \<Rightarrow> (Err e, s)
      | Ok msgs \<Rightarrow> run_messages en family handle msgs s)"

text \<open>One iteration; \<open>Ok ()\<close> means that the loop goes on.\<close>

definition run_tick :: "endian \<Rightarrow> u16 \<Rightarrow> (pm_event \<Rightarrow> 's \<Rightarrow> unit outcome \<times> 's) \<Rightarrow> pm_tick \<Rightarrow> 's \<Rightarrow>
    unit outcome \<times> 's" where
  "run_tick en family handle tk s =
     (case tk_ctx tk of Some e \<Rightarrow> (Err e, s) | None \<Rightarrow>
      (case tk_poll tk of
         Inl e \<Rightarrow> if errors_Is e (Errno EINTR) then (Ok (), s) else (Err e, s)
       | Inr n \<Rightarrow>
           if n = 0 then (Ok (), s)
           else (case tk_recv tk of
             Inl e \<Rightarrow>
               if errors_Is e (Errno EAGAIN) \<or> errors_Is e (Errno EINTR) then (Ok (), s)
               else (Err (Errorf ''PM event stream lost'' [e]), s)
           | Inr dg \<Rightarrow> run_datagram en family handle dg s)))"

fun pm_Run :: "endian \<Rightarrow> u16 \<Rightarrow> (pm_event \<Rightarrow> 's \<Rightarrow> unit outcome \<times> 's) \<Rightarrow> pm_tick list \<Rightarrow> 's \<Rightarrow>
    unit outcome option \<times> 's" where
  "pm_Run en family handle [] s = (None, s)"
| "pm_Run en family handle (tk # tks) s =
     (case run_tick en family handle tk s of
        (Ok _, s1) \<Rightarrow> pm_Run en family handle tks s1
      | (Err e, s1) \<Rightarrow> (Some (Err e), s1)
      | (Panic, s1) \<Rightarrow> (Some Panic, s1))"

end
