(* ===== verification/PMStreamFacts.thy ===== *)
theory PMStreamFacts
  imports PMStream
begin

text \<open>
  Facts about the subscription: no input makes it panic, netlink messages are recovered from their
  encoding, the family and group are found in the kernel's reply, and the receive loop is the
  left-to-right execution of the handler over the decoded events.
\<close>

section \<open>No input panics\<close>

lemma messages_loop_no_panic: "messages_loop en b msgs \<noteq> Panic"
proof (induction en b msgs rule: messages_loop.induct)
  case (1 en b msgs)
  show ?case
  proof (cases "length b < 16")
    case True
    then show ?thesis by (subst messages_loop.simps) simp
  next
    case False
    then obtain w where w: "native_Uint32 en b = Ok w" by (simp add: native_Uint32_def)
    show ?thesis
      using 1 False w align4_bounds(1) [of "unat w"]
      by (subst messages_loop.simps) (auto simp: Let_def go_slice_def native_Uint16_def)
  qed
qed

lemma ParseNetlinkMessage_no_panic [simp]: "ParseNetlinkMessage en b \<noteq> Panic"
  by (simp add: ParseNetlinkMessage_def messages_loop_no_panic)

lemma resolve_groups_no_panic: "resolve_groups en gs grp \<noteq> Panic"
  by (induction gs arbitrary: grp) (auto simp: netlinkAttrs_no_panic native_Uint32_def)

lemma resolve_message_no_panic: "resolve_message en ns m found \<noteq> Panic"
  by (auto simp: resolve_message_def resolve_family_def native_Uint16_def go_slice_def netlinkAttrs_no_panic
      resolve_groups_no_panic)

lemma resolve_messages_no_panic: "resolve_messages en u ms found w \<noteq> (Panic, w')"
  by (induction ms arbitrary: found w)
    (auto simp: resolve_message_no_panic Let_def split: prod.splits outcome.splits)

lemma resolve_and_join_no_panic: "resolve_and_join en u fd w \<noteq> (Panic, w')"
  by (auto simp: resolve_and_join_def join_group_def or_fail_def subscribe_fail_def resolve_messages_no_panic
      split: prod.splits sum.splits outcome.splits option.splits if_splits)

lemma SubscribePM_no_panic: "SubscribePM en u w \<noteq> (Panic, w')"
  by (auto simp: SubscribePM_def or_fail_def subscribe_fail_def resolve_and_join_no_panic
      split: prod.splits sum.splits option.splits)

section \<open>Netlink messages survive their encoding\<close>

text \<open>\<open>hdr\<close> are the flags, the sequence number and the port of the header, which the decoder skips.\<close>

definition encode_message :: "endian \<Rightarrow> bytes \<Rightarrow> nl_message \<Rightarrow> bytes" where
  "encode_message en hdr m =
     (let n = 16 + length (nl_Data m) in
      native_bytes en 4 n @ native_bytes en 2 (unat (nl_Type m)) @ hdr @ nl_Data m @ replicate (align4 n - n) 0)"

definition message_encodable :: "bytes \<Rightarrow> nl_message \<Rightarrow> bool" where
  "message_encodable hdr m \<longleftrightarrow> length hdr = 10 \<and> 16 + length (nl_Data m) < 2 ^ 32"

definition encode_messages :: "endian \<Rightarrow> (bytes \<times> nl_message) list \<Rightarrow> bytes" where
  "encode_messages en hms = concat (map (\<lambda>(hdr, m). encode_message en hdr m) hms)"

lemma length_encode_message:
  "length hdr = 10 \<Longrightarrow> length (encode_message en hdr m) = align4 (16 + length (nl_Data m))"
  using align4_bounds(1) [of "16 + length (nl_Data m)"] by (simp add: encode_message_def Let_def)

lemma native_Uint32_prefix:
  assumes "n < 2 ^ 32"
  shows "native_Uint32 en (native_bytes en 4 n @ rest) = Ok (of_nat n)" "unat (of_nat n :: u32) = n"
  using assms by (simp_all add: native_Uint32_def unat_of_nat)

lemma messages_loop_step:
  assumes "16 \<le> length b" "native_Uint32 en b = Ok w" "unat w = n" "16 \<le> n" "align4 n \<le> length b"
    "go_slice 4 (length b) b = Ok tb" "native_Uint16 en tb = Ok t" "go_slice 16 n b = Ok data"
    "go_slice (align4 n) (length b) b = Ok rest"
  shows "messages_loop en b msgs = messages_loop en rest (msgs @ [\<lparr>nl_Type = t, nl_Data = data\<rparr>])"
  by (subst messages_loop.simps) (use assms in auto)

lemma messages_loop_encode:
  assumes enc: "message_encodable hdr m"
  shows "messages_loop en (encode_message en hdr m @ rest) msgs = messages_loop en rest (msgs @ [m])"
proof -
  let ?n = "16 + length (nl_Data m)" and ?b = "encode_message en hdr m @ rest"
  have n: "?n < 2 ^ 32" and hdr: "length hdr = 10" using enc by (simp_all add: message_encodable_def)
  define pad where "pad = replicate (align4 ?n - ?n) (0 :: u8)"
  have b: "?b = native_bytes en 4 ?n @ native_bytes en 2 (unat (nl_Type m)) @ hdr @ nl_Data m @ pad @ rest"
    by (simp add: encode_message_def Let_def pad_def)
  have al: "?n \<le> align4 ?n" by (rule align4_bounds(1))
  have lb: "length ?b = align4 ?n + length rest" by (simp add: length_encode_message [OF hdr])
  have w: "native_Uint32 en ?b = Ok (of_nat ?n)" unfolding b by (rule native_Uint32_prefix(1) [OF n])
  have "drop 4 ?b = native_bytes en 2 (unat (nl_Type m)) @ hdr @ nl_Data m @ pad @ rest" unfolding b by simp
  then have s4: "go_slice 4 (length ?b) ?b = Ok (native_bytes en 2 (unat (nl_Type m)) @ hdr @ nl_Data m @ pad @ rest)"
    using lb al go_slice_tail [of 4 ?b] by simp
  have t: "native_Uint16 en (native_bytes en 2 (unat (nl_Type m)) @ hdr @ nl_Data m @ pad @ rest) = Ok (nl_Type m)"
    using native_Uint16_bytes [of en "unat (nl_Type m)"] by simp
  have "drop 16 ?b = nl_Data m @ pad @ rest" unfolding b by (simp add: drop_append hdr)
  then have s16: "go_slice 16 ?n ?b = Ok (nl_Data m)" using lb al by (simp add: go_slice_def)
  have "drop (align4 ?n) ?b = rest" by (simp add: length_encode_message [OF hdr])
  then have sl: "go_slice (align4 ?n) (length ?b) ?b = Ok rest" using lb by (simp add: go_slice_def)
  have "messages_loop en ?b msgs =
      messages_loop en rest (msgs @ [\<lparr>nl_Type = nl_Type m, nl_Data = nl_Data m\<rparr>])"
    by (rule messages_loop_step [OF _ w native_Uint32_prefix(2) [OF n] _ _ s4 t s16 sl]) (use lb al in simp_all)
  moreover have "\<lparr>nl_Type = nl_Type m, nl_Data = nl_Data m\<rparr> = m" by (cases m) simp
  ultimately show ?thesis by simp
qed

lemma messages_loop_encoded:
  "list_all (\<lambda>(hdr, m). message_encodable hdr m) hms \<Longrightarrow>
    messages_loop en (encode_messages en hms) msgs = Ok (msgs @ map snd hms)"
proof (induction hms arbitrary: msgs)
  case Nil
  then show ?case by (simp add: encode_messages_def messages_loop.simps)
next
  case (Cons hm hms)
  obtain hdr m where hm: "hm = (hdr, m)" by force
  with Cons show ?case by (simp add: encode_messages_def messages_loop_encode)
qed

lemma ParseNetlinkMessage_encoded:
  "list_all (\<lambda>(hdr, m). message_encodable hdr m) hms \<Longrightarrow>
    ParseNetlinkMessage en (encode_messages en hms) = Ok (map snd hms)"
  using messages_loop_encoded [of hms en "[]"] by (simp add: ParseNetlinkMessage_def)

section \<open>The receive loop\<close>

text \<open>The events of a list of messages, in the order in which they occur; other families are skipped.\<close>

fun message_events :: "endian \<Rightarrow> u16 \<Rightarrow> nl_message list \<Rightarrow> pm_event list outcome" where
  "message_events en family [] = Ok []"
| "message_events en family (m # ms) =
     (if nl_Type m = NLMSG_OVERRUN then Err (errors_New ''PM event stream overrun'')
      else if nl_Type m = NLMSG_ERROR then Err (netlinkError en (nl_Data m))
      else if nl_Type m \<noteq> family then message_events en family ms
      else outcome_bind (DecodePMEvent en (nl_Data m)) (\<lambda>e.
        outcome_bind (message_events en family ms) (\<lambda>es. Ok (e # es))))"

definition datagram_events :: "endian \<Rightarrow> u16 \<Rightarrow> pm_datagram \<Rightarrow> pm_event list outcome" where
  "datagram_events en family dg =
     (if and (dg_Flags dg) MSG_TRUNC \<noteq> 0 then Err (errors_New ''PM event datagram truncated'')
      else if dg_From dg \<noteq> Some 0 then Err (errors_New ''PM event not from kernel'')
      else outcome_bind (ParseNetlinkMessage en (dg_Data dg)) (message_events en family))"

text \<open>The datagram an iteration receives, if the loop gets that far.\<close>

definition received :: "pm_tick \<Rightarrow> pm_datagram option" where
  "received tk =
     (case tk_poll tk of
        Inl e \<Rightarrow> None
      | Inr n \<Rightarrow> if n = 0 then None else (case tk_recv tk of Inl e \<Rightarrow> None | Inr dg \<Rightarrow> Some dg))"

fun handle_all :: "(pm_event \<Rightarrow> 's \<Rightarrow> unit outcome \<times> 's) \<Rightarrow> pm_event list \<Rightarrow> 's \<Rightarrow> unit outcome \<times> 's" where
  "handle_all handle [] s = (Ok (), s)"
| "handle_all handle (e # es) s =
     (case handle e s of (Ok _, s1) \<Rightarrow> handle_all handle es s1 | (r, s1) \<Rightarrow> (r, s1))"

lemma handle_all_append:
  "handle_all handle (es @ fs) s =
     (case handle_all handle es s of (Ok _, s1) \<Rightarrow> handle_all handle fs s1 | (r, s1) \<Rightarrow> (r, s1))"
  by (induction es arbitrary: s) (auto split: prod.splits outcome.splits)

lemma run_messages_Ok:
  "run_messages en family handle ms s = (Ok (), s') \<longleftrightarrow>
     (\<exists>es. message_events en family ms = Ok es \<and> handle_all handle es s = (Ok (), s'))"
proof (induction ms arbitrary: s)
  case Nil
  then show ?case by simp
next
  case (Cons m ms)
  show ?case
  proof (cases "nl_Type m = family \<and> nl_Type m \<noteq> NLMSG_OVERRUN \<and> nl_Type m \<noteq> NLMSG_ERROR")
    case False
    then show ?thesis using Cons by auto
  next
    case True
    then show ?thesis
    proof (cases "DecodePMEvent en (nl_Data m)")
      case (Ok e)
      obtain r s1 where "handle e s = (r, s1)" by force
      with Ok True Cons show ?thesis by (cases r) auto
    qed auto
  qed
qed

lemma run_messages_Err:
  "run_messages en family handle ms s = (Err e, s') \<Longrightarrow>
     message_events en family ms = Err e \<or> (\<exists>ev s1. fst (handle ev s1) = Err e)"
proof (induction ms arbitrary: s)
  case Nil
  then show ?case by simp
next
  case (Cons m ms)
  show ?case
  proof (cases "nl_Type m = family \<and> nl_Type m \<noteq> NLMSG_OVERRUN \<and> nl_Type m \<noteq> NLMSG_ERROR")
    case False
    then show ?thesis using Cons by (auto split: if_splits)
  next
    case True
    then show ?thesis
    proof (cases "DecodePMEvent en (nl_Data m)")
      case (Ok ev)
      obtain r s1 where h: "handle ev s = (r, s1)" by force
      show ?thesis
      proof (cases r)
        case (Err x)
        then have "fst (handle ev s) = Err e" using Cons.prems True Ok h by auto
        then show ?thesis by blast
      qed (use Cons True Ok h in auto)
    qed (use Cons.prems True in auto)
  qed
qed

lemma run_datagram_Ok:
  "run_datagram en family handle dg s = (Ok (), s') \<longleftrightarrow>
     (\<exists>es. datagram_events en family dg = Ok es \<and> handle_all handle es s = (Ok (), s'))"
  by (auto simp: run_datagram_def datagram_events_def run_messages_Ok split: outcome.splits)

lemma run_tick_Ok:
  assumes "run_tick en family handle tk s = (Ok (), s')"
  shows "case received tk of None \<Rightarrow> s' = s
    | Some dg \<Rightarrow> \<exists>es. datagram_events en family dg = Ok es \<and> handle_all handle es s = (Ok (), s')"
  using assms
  by (auto simp: run_tick_def received_def run_datagram_Ok split: option.splits sum.splits if_splits)

text \<open>The events of a run: those of the datagrams received, one after the other.\<close>

fun events_of :: "endian \<Rightarrow> u16 \<Rightarrow> pm_tick list \<Rightarrow> pm_event list outcome" where
  "events_of en family [] = Ok []"
| "events_of en family (tk # tks) =
     outcome_bind (case received tk of None \<Rightarrow> Ok [] | Some dg \<Rightarrow> datagram_events en family dg) (\<lambda>es.
       outcome_bind (events_of en family tks) (\<lambda>fs. Ok (es @ fs)))"

lemma pm_Run_running:
  "pm_Run en family handle tks s = (None, s') \<Longrightarrow>
     \<exists>es. events_of en family tks = Ok es \<and> handle_all handle es s = (Ok (), s')"
proof (induction tks arbitrary: s)
  case Nil
  then show ?case by simp
next
  case (Cons tk tks)
  from Cons.prems obtain u s1 where step: "run_tick en family handle tk s = (Ok u, s1)"
    and rest: "pm_Run en family handle tks s1 = (None, s')"
    by (auto split: outcome.splits prod.splits)
  from Cons.IH [OF rest] obtain fs where fs: "events_of en family tks = Ok fs" "handle_all handle fs s1 = (Ok (), s')"
    by blast
  have "run_tick en family handle tk s = (Ok (), s1)" using step by simp
  from run_tick_Ok [OF this] obtain es where
    "(case received tk of None \<Rightarrow> Ok [] | Some dg \<Rightarrow> datagram_events en family dg) = Ok es"
    "handle_all handle es s = (Ok (), s1)"
    by (cases "received tk") auto
  with fs show ?case by (simp add: handle_all_append)
qed

lemma run_messages_handled:
  "message_events en family ms = Ok es \<Longrightarrow> run_messages en family handle ms s = handle_all handle es s"
proof (induction ms arbitrary: s es)
  case (Cons m ms)
  then show ?case by (auto split: if_splits outcome.splits prod.splits)
qed simp

lemma run_tick_Err:
  assumes "run_tick en family handle tk s = (Err e, s')"
  shows "(\<exists>ev s1. fst (handle ev s1) = Err e) \<or> tk_ctx tk = Some e \<or> tk_poll tk = Inl e \<or>
    (\<exists>e'. tk_recv tk = Inl e' \<and> e = Errorf ''PM event stream lost'' [e']) \<or>
    (\<exists>dg. received tk = Some dg \<and> datagram_events en family dg = Err e)"
  using assms
  by (auto simp: run_tick_def received_def run_datagram_def datagram_events_def dest!: run_messages_Err
      split: option.splits sum.splits if_splits outcome.splits)

end
