(* ===== verification/PMProperties.thy ===== *)
theory PMProperties
  imports PMStreamFacts
begin

text \<open>
  The properties of the path-manager subscription: the attribute decoder accepts exactly a grammar,
  events survive the kernel's encoding, the receive loop hands every event to the daemon in order
  and never ends with nil, and the socket is either joined to the event group or closed.
\<close>

section \<open>Attributes\<close>

text \<open>
  The grammar of a sequence of attributes: a length that counts the four bytes of header, a type
  whose two high bits are flags, the value, and padding to a multiple of four.
\<close>

inductive attr_sequence :: "endian \<Rightarrow> bytes \<Rightarrow> (u16 \<times> bytes) list \<Rightarrow> bool" for en where
  attr_nil: "attr_sequence en [] []"
| attr_cons: "attr_sequence en rest avs \<Longrightarrow> length v + 4 < 65536 \<Longrightarrow> map_of avs (and t 0x3fff) = None \<Longrightarrow>
    length pad = align4 (length v + 4) - (length v + 4) \<Longrightarrow>
    attr_sequence en (native_bytes en 2 (length v + 4) @ native_bytes en 2 (unat t) @ v @ pad @ rest)
      ((and t 0x3fff, v) # avs)"

inductive_cases attr_sequence_Cons: "attr_sequence en b (av # avs)"

lemma native_bytes_native_nat: "length bs = k \<Longrightarrow> native_bytes en k (native_nat en bs) = bs"
  using be_bytes_be_nat [of bs] be_bytes_be_nat [of "rev bs"]
  by (auto simp: native_bytes_def native_nat_def split: endian.splits)

lemma native_Uint16_split:
  assumes "native_Uint16 en b = Ok w"
  shows "b = native_bytes en 2 (unat w) @ drop 2 b"
proof -
  have len: "2 \<le> length b" using assms by (simp add: native_Uint16_def split: if_splits)
  then have "native_nat en (take 2 b) < 65536" using native_nat_less [of en "take 2 b"] by simp
  then have "unat w = native_nat en (take 2 b)"
    using assms len by (auto simp: native_Uint16_def unat_of_nat)
  then have "native_bytes en 2 (unat w) = take 2 b" using native_bytes_native_nat [of "take 2 b" 2 en] len by simp
  then show ?thesis by simp
qed

lemma attrs_loop_sound:
  "attrs_loop en data result = Ok m \<Longrightarrow> \<exists>avs. m = result @ avs \<and> attr_sequence en data avs \<and>
     (\<forall>t. map_of result t \<noteq> None \<longrightarrow> map_of avs t = None)"
proof (induction en data result rule: attrs_loop.induct)
  case (1 en data result)
  show ?case
  proof (cases "data = []")
    case True
    then show ?thesis using 1(2) by (auto simp: attrs_loop.simps intro: attr_nil)
  next
    case False
    from 1(2) False obtain w tail t v rest where len: "\<not> length data < 4" and w: "native_Uint16 en data = Ok w"
      and n: "\<not> (unat w < 4 \<or> unat w > length data \<or> align4 (unat w) > length data)"
      and tail: "go_slice 2 (length data) data = Ok tail" and t: "native_Uint16 en tail = Ok t"
      and fresh: "map_of result (and t 0x3fff) = None" and v: "go_slice 4 (unat w) data = Ok v"
      and rest: "go_slice (align4 (unat w)) (length data) data = Ok rest"
      and loop: "attrs_loop en rest (go_set (and t 0x3fff) v result) = Ok m"
      by (subst (asm) attrs_loop.simps) (auto simp: Let_def split: if_splits)
    from 1(1) [OF False len w refl n tail t refl _ v rest loop] fresh
    obtain avs where m: "m = go_set (and t 0x3fff) v result @ avs" and seq: "attr_sequence en rest avs"
      and dis: "\<forall>x. map_of (go_set (and t 0x3fff) v result) x \<noteq> None \<longrightarrow> map_of avs x = None"
      by auto
    let ?n = "unat w" and ?pad = "take (align4 (unat w) - unat w) (drop (unat w) data)"
    have tail': "tail = drop 2 data" and v': "v = take (?n - 4) (drop 4 data)" and rest': "rest = drop (align4 ?n) data"
      using tail v rest by (simp_all add: go_slice_Ok)
    have vl: "length v + 4 = ?n" using n by (auto simp: v' min_def)
    have "data = native_bytes en 2 ?n @ drop 2 data" by (rule native_Uint16_split [OF w])
    also have "drop 2 data = native_bytes en 2 (unat t) @ drop 4 data"
      using native_Uint16_split [OF t] by (simp add: tail')
    also have "drop 4 data = v @ drop ?n data"
      using n append_take_drop_id [of "?n - 4" "drop 4 data"] by (simp add: v')
    also have "drop ?n data = ?pad @ rest"
      using align4_bounds(1) [of ?n] append_take_drop_id [of "align4 ?n - ?n" "drop ?n data"] by (simp add: rest')
    finally have data: "data = native_bytes en 2 (length v + 4) @ native_bytes en 2 (unat t) @ v @ ?pad @ rest"
      by (simp add: vl)
    have "length ?pad = align4 (length v + 4) - (length v + 4)" using n by (auto simp: vl min_def)
    moreover have "map_of avs (and t 0x3fff) = None" using dis by simp
    moreover have "length v + 4 < 65536" using unat_less [of w] by (simp add: vl)
    ultimately have "attr_sequence en data ((and t 0x3fff, v) # avs)"
      using attr_cons [OF seq, of v t ?pad] data by simp
    moreover have "m = result @ (and t 0x3fff, v) # avs" by (simp add: m go_set_fresh [OF fresh])
    ultimately show ?thesis using dis fresh by (intro exI [of _ "(and t 0x3fff, v) # avs"]) auto
  qed
qed

lemma attrs_loop_complete:
  "attr_sequence en data avs \<Longrightarrow> (\<forall>t. map_of result t \<noteq> None \<longrightarrow> map_of avs t = None) \<Longrightarrow>
     attrs_loop en data result = Ok (result @ avs)"
proof (induction data avs arbitrary: result rule: attr_sequence.induct)
  case attr_nil
  then show ?case by (simp add: attrs_loop.simps)
next
  case (attr_cons rest avs v t pad)
  let ?n = "length v + 4" and ?ty = "and t 0x3fff"
  let ?d = "native_bytes en 2 ?n @ native_bytes en 2 (unat t) @ v @ pad @ rest"
  have fresh: "map_of result ?ty = None" using attr_cons.prems [rule_format, of ?ty] by (cases "map_of result ?ty") auto
  have al: "?n \<le> align4 ?n" by (rule align4_bounds(1))
  have ld: "length ?d = align4 ?n + length rest" using al attr_cons.hyps by simp
  have w: "native_Uint16 en ?d = Ok (of_nat ?n)" by (rule native_Uint16_bytes)
  have n: "unat (of_nat ?n :: u16) = ?n" using attr_cons.hyps(2) by (simp only: unat_of_nat) simp
  have s2: "go_slice 2 (length ?d) ?d = Ok (native_bytes en 2 (unat t) @ v @ pad @ rest)"
    using go_slice_tail [of 2 ?d] by simp
  have w2: "native_Uint16 en (native_bytes en 2 (unat t) @ v @ pad @ rest) = Ok t"
    using native_Uint16_bytes [of en "unat t"] by simp
  have "drop 4 ?d = v @ pad @ rest" by (simp add: drop_append)
  then have s3: "go_slice 4 ?n ?d = Ok v" using ld al by (simp add: go_slice_def)
  have "align4 ?n = length (native_bytes en 2 ?n @ native_bytes en 2 (unat t) @ v @ pad)"
    using al attr_cons.hyps(4) by simp
  then have "drop (align4 ?n) ?d = rest" by (simp only: append_assoc [symmetric] append_eq_conv_conj [symmetric]) simp
  then have s4: "go_slice (align4 ?n) (length ?d) ?d = Ok rest" using ld by (simp add: go_slice_def)
  have "attrs_loop en ?d result = attrs_loop en rest (go_set ?ty v result)"
    by (rule attrs_loop_step [OF _ w n _ _ _ s2 w2 refl fresh s3 s4]) (use ld al in simp_all)
  also have "\<dots> = Ok ((result @ [(?ty, v)]) @ avs)"
    unfolding go_set_fresh [OF fresh] using attr_cons.prems attr_cons.hyps(3)
    by (intro attr_cons.IH) (auto simp: map_add_def split: option.splits)
  finally show ?case by simp
qed

text \<open>
  C21: the attribute decoder accepts exactly the sequences of attributes whose types, without their
  flags, are distinct, and returns their values.
\<close>

theorem netlink_attrs_grammar:
  "netlinkAttrs en data = Ok m \<longleftrightarrow> attr_sequence en data m"
  using attrs_loop_sound [of en data "[]" m] attrs_loop_complete [of en data m "[]"] by (auto simp: netlinkAttrs_def)

text \<open>C27: no bytes from the socket make the decoders or the subscription read out of range.\<close>

theorem pm_decoders_no_panic:
  "netlinkAttrs en data \<noteq> Panic \<and> DecodePMEvent en data \<noteq> Panic \<and> ParseNetlinkMessage en data \<noteq> Panic \<and>
    SubscribePM en u w \<noteq> (Panic, w')"
  by (simp add: netlinkAttrs_no_panic DecodePMEvent_no_panic SubscribePM_no_panic)

section \<open>Events\<close>

text \<open>
  C20: an event is recovered from any sequence of distinct attributes that contains those of its
  layout, in any order and with any other attributes between them, on a machine of either byte order.
\<close>

theorem event_round_trip:
  assumes "attrs_encodable avs"
    and "ev_Type e = EventEstablished \<or> ev_Type e = EventSubEstablished \<or> ev_Type e = EventSubClosed"
    and "address_fits v6 (ev_LocalAddress e)" "address_fits v6 (ev_DestinationAddress e)"
    and "map_of (event_layout en v6 e) \<subseteq>\<^sub>m map_of avs" "index_layout en e avs"
  shows "DecodePMEvent en (genl_payload en (ev_Type e) avs) = Ok e"
  using assms by (rule DecodePMEvent_layout)

definition sample_event :: pm_event where
  "sample_event = \<lparr>ev_Type = EventEstablished, ev_Token = 0xCAFE, ev_LocalID = 0, ev_RemoteID = 1,
     ev_LocalAddress = IPv4 0xC0000201, ev_DestinationAddress = IPv4 0xC6336407, ev_LocalPort = 40000,
     ev_DestinationPort = 443, ev_IfIndex = 3\<rparr>"

definition sample_attrs :: "(u16 \<times> bytes) list" where
  "sample_attrs = (17, [9, 9]) # rev (event_layout Little False sample_event) @ [(15, [3, 0, 0, 0])]"

lemma sample_attrs_ok:
  "attrs_encodable sample_attrs" "map_of (event_layout Little False sample_event) \<subseteq>\<^sub>m map_of sample_attrs"
  "index_layout Little sample_event sample_attrs"
proof -
  show "attrs_encodable sample_attrs" by code_simp
  have "list_all (\<lambda>(k, v). map_of sample_attrs k = Some v) (event_layout Little False sample_event)" by code_simp
  then have "map_of sample_attrs a = Some y" if "map_of (event_layout Little False sample_event) a = Some y" for a y
    using map_of_SomeD [OF that] by (auto simp: list_all_iff)
  then show "map_of (event_layout Little False sample_event) \<subseteq>\<^sub>m map_of sample_attrs"
    by (auto simp: map_le_def simp del: map_of_eq_Some_iff)
  show "index_layout Little sample_event sample_attrs" by code_simp
qed

lemma event_round_trip_witness:
  "DecodePMEvent Little (genl_payload Little (ev_Type sample_event) sample_attrs) = Ok sample_event"
  by (rule event_round_trip [of _ _ False]) (simp_all add: sample_attrs_ok, simp_all add: sample_event_def)

section \<open>The receive loop\<close>

text \<open>
  C22: while the loop runs it has lost and reordered nothing: every datagram received was whole,
  came from the kernel and decoded, and the handler has been applied to exactly its events, in order.
\<close>

theorem run_loses_nothing:
  assumes "pm_Run en family handle tks s = (None, s')"
  shows "\<exists>es. events_of en family tks = Ok es \<and> handle_all handle es s = (Ok (), s')"
  using assms by (rule pm_Run_running)

text \<open>A handler that records the tokens of the events it is given.\<close>

definition log_token :: "pm_event \<Rightarrow> u32 list \<Rightarrow> unit outcome \<times> u32 list" where
  "log_token e ts = (Ok (), ts @ [ev_Token e])"

definition sample_datagram :: pm_datagram where
  "sample_datagram = \<lparr>dg_Data = encode_messages Little
      [(replicate 10 0, \<lparr>nl_Type = 30, nl_Data = genl_payload Little (ev_Type sample_event) sample_attrs\<rparr>),
       (replicate 10 0, \<lparr>nl_Type = 31, nl_Data = [1]\<rparr>)],
     dg_Flags = 0, dg_From = Some 0\<rparr>"

definition sample_ticks :: "pm_tick list" where
  "sample_ticks =
     [\<lparr>tk_ctx = None, tk_poll = Inr 0, tk_recv = Inl (Errno EAGAIN)\<rparr>,
      \<lparr>tk_ctx = None, tk_poll = Inr 1, tk_recv = Inr sample_datagram\<rparr>]"

lemma run_loses_nothing_witness:
  "\<exists>es. events_of Little 30 sample_ticks = Ok es \<and> handle_all log_token es [] = (Ok (), [0xCAFE])"
proof -
  have "pm_Run Little 30 log_token sample_ticks [] = (None, [0xCAFE])" by code_simp
  from run_loses_nothing [OF this] show ?thesis .
qed

lemma pm_Run_append:
  "pm_Run en family handle tks s = (None, s1) \<Longrightarrow>
     pm_Run en family handle (tks @ uks) s = pm_Run en family handle uks s1"
  by (induction tks arbitrary: s) (auto split: outcome.splits prod.splits)

lemma pm_Run_not_nil: "fst (pm_Run en family handle tks s) \<noteq> Some (Ok ())"
  by (induction tks arbitrary: s) (auto split: outcome.splits prod.splits)

lemma run_tick_bad_datagram:
  assumes "tk_ctx tk = None" "received tk = Some dg" "datagram_events en family dg = Err e"
  shows "fst (run_tick en family handle tk s) \<noteq> Ok ()"
proof
  assume "fst (run_tick en family handle tk s) = Ok ()"
  then obtain s' where "run_tick en family handle tk s = (Ok (), s')" by (metis prod.collapse)
  from run_tick_Ok [OF this] assms show False by simp
qed

text \<open>
  C23: the receive loop fails closed: it returns, and not with nil, in the iteration that receives a
  datagram that is truncated, does not come from the kernel, reports an overrun or an error, or does
  not decode, whatever would have followed.
\<close>

theorem run_fails_closed:
  assumes "pm_Run en family handle tks s = (None, s1)" "tk_ctx tk = None" "received tk = Some dg"
    and "datagram_events en family dg = Err e"
  shows "\<exists>r s'. pm_Run en family handle (tks @ tk # uks) s = (Some r, s') \<and> r \<noteq> Ok ()"
proof -
  obtain r s2 where t: "run_tick en family handle tk s1 = (r, s2)" by force
  have "r \<noteq> Ok ()" using run_tick_bad_datagram [OF assms(2-4), of handle s1] t by simp
  then have "\<exists>r s'. pm_Run en family handle (tk # uks) s1 = (Some r, s') \<and> r \<noteq> Ok ()"
    using t by (cases r) auto
  then show ?thesis by (simp add: pm_Run_append [OF assms(1)])
qed

lemma run_fails_closed_witness:
  "\<exists>r s'. pm_Run Little 30 log_token
      (sample_ticks @ [\<lparr>tk_ctx = None, tk_poll = Inr 1, tk_recv = Inr (sample_datagram\<lparr>dg_Flags := 0x20\<rparr>)\<rparr>]) [] = (Some r, s')
    \<and> r \<noteq> Ok ()"
proof (rule run_fails_closed)
  show "pm_Run Little 30 log_token sample_ticks [] = (None, [0xCAFE])" by code_simp
  show "datagram_events Little 30 (sample_datagram\<lparr>dg_Flags := 0x20\<rparr>) = Err (errors_New ''PM event datagram truncated'')"
    by (simp add: datagram_events_def MSG_TRUNC_def)
qed (simp_all add: received_def)

lemma run_messages_no_panic:
  "(\<And>ev s. fst (handle ev s) \<noteq> Panic) \<Longrightarrow> fst (run_messages en family handle ms s) \<noteq> Panic"
  by (induction ms arbitrary: s) (auto simp: DecodePMEvent_no_panic split: outcome.splits prod.splits, metis fst_conv)

lemma run_tick_no_panic:
  "(\<And>ev s. fst (handle ev s) \<noteq> Panic) \<Longrightarrow> fst (run_tick en family handle tk s) \<noteq> Panic"
  using run_messages_no_panic [of handle en family]
  by (auto simp: run_tick_def run_datagram_def split: option.splits sum.splits outcome.splits)

lemma pm_Run_no_panic:
  assumes "\<And>ev s. fst (handle ev s) \<noteq> Panic"
  shows "fst (pm_Run en family handle tks s) \<noteq> Some Panic"
proof (induction tks arbitrary: s)
  case (Cons tk tks)
  obtain r s1 where t: "run_tick en family handle tk s = (r, s1)" by force
  then have "r \<noteq> Panic" using run_tick_no_panic [of handle en family tk s, OF assms] by simp
  with t Cons show ?case by (cases r) simp_all
qed simp

lemma pm_Run_done:
  "pm_Run en family handle tks s = (Some r, s1) \<Longrightarrow> pm_Run en family handle (tks @ uks) s = (Some r, s1)"
  by (induction tks arbitrary: s) (auto split: outcome.splits prod.splits)

text \<open>
  C24: the receive loop terminates: with a handler that does not panic it has returned an error by the
  iteration that finds its context cancelled, the cancellation's own unless an earlier one stopped
  it, and it handles nothing afterwards.
\<close>

theorem run_stops_on_cancel:
  assumes "tk_ctx tk = Some e" "\<And>ev s. fst (handle ev s) \<noteq> Panic"
  shows "\<exists>err s'. pm_Run en family handle (tks @ tk # uks) s = (Some (Err err), s') \<and>
    (case pm_Run en family handle tks s of (None, s1) \<Rightarrow> err = e \<and> s' = s1 | (Some r, s1) \<Rightarrow> r = Err err \<and> s' = s1)"
proof -
  obtain r s1 where run: "pm_Run en family handle tks s = (r, s1)" by force
  show ?thesis
  proof (cases r)
    case None
    with run assms(1) pm_Run_append [of en family handle tks s s1 "tk # uks"] show ?thesis by (simp add: run_tick_def)
  next
    case (Some x)
    then have "x \<noteq> Ok ()" "x \<noteq> Panic"
      using run pm_Run_not_nil [of en family handle tks s] pm_Run_no_panic [of handle en family tks s, OF assms(2)] by simp_all
    then obtain err where "x = Err err" by (cases x) simp_all
    with Some run pm_Run_done [of en family handle tks s x s1 "tk # uks"] show ?thesis by simp
  qed
qed

lemma run_stops_on_cancel_witness:
  "\<exists>err. fst (pm_Run Little 30 log_token
      (sample_ticks @ \<lparr>tk_ctx = Some (errors_New ''context canceled''), tk_poll = Inr 1, tk_recv = Inr sample_datagram\<rparr> # sample_ticks) [])
    = Some (Err err)"
proof -
  have "fst (log_token ev s) \<noteq> Panic" for ev s by (simp add: log_token_def)
  from run_stops_on_cancel [where tk = "\<lparr>tk_ctx = Some (errors_New ''context canceled''), tk_poll = Inr 1,
      tk_recv = Inr sample_datagram\<rparr>" and handle = log_token, OF _ this, of "errors_New ''context canceled''" Little 30 sample_ticks sample_ticks "[]"]
  show ?thesis by auto
qed

section \<open>The subscription\<close>

text \<open>What a multicast group of the reply is: named for the events, and then with the identifier \<open>grp\<close>.\<close>

definition names_events :: "endian \<Rightarrow> bytes \<Rightarrow> bool" where
  "names_events en g =
     (case netlinkAttrs en g of Ok a \<Rightarrow> trim_zeros (attr a 1) = string_bytes ''mptcp_pm_events'' | _ \<Rightarrow> False)"

definition group_ok :: "endian \<Rightarrow> u32 \<Rightarrow> bytes \<Rightarrow> bool" where
  "group_ok en grp g =
     (case netlinkAttrs en g of
        Ok a \<Rightarrow> trim_zeros (attr a 1) \<noteq> string_bytes ''mptcp_pm_events'' \<or> attr a 2 = native_bytes en 4 (unat grp)
      | _ \<Rightarrow> False)"

lemma resolve_groups_found:
  "list_all (group_ok en grp) gs \<Longrightarrow>
     resolve_groups en gs g0 = Ok (if list_ex (names_events en) gs then grp else g0)"
proof (induction gs arbitrary: g0)
  case Nil
  then show ?case by simp
next
  case (Cons g gs)
  then obtain a where a: "netlinkAttrs en g = Ok a" by (auto simp: group_ok_def split: outcome.splits)
  show ?case
  proof (cases "names_events en g")
    case True
    then have id: "attr a 2 = native_bytes en 4 (unat grp)" "trim_zeros (attr a 1) = string_bytes ''mptcp_pm_events''"
      using Cons.prems a by (simp_all add: group_ok_def names_events_def)
    with a True Cons show ?thesis by (simp add: native_Uint32_bytes)
  next
    case False
    with a Cons show ?thesis by (simp add: names_events_def)
  qed
qed

text \<open>The reply of the generic-netlink controller to the family request.\<close>

definition family_reply :: "endian \<Rightarrow> (u16 \<times> bytes) list \<Rightarrow> bytes" where
  "family_reply en avs =
     encode_messages en [(replicate 10 0, \<lparr>nl_Type = GENL_ID_CTRL, nl_Data = [1, 2, 0, 0] @ encode_attrs en avs\<rparr>)]"

text \<open>
  C25: the family and the event group are found in the controller's reply, whatever other attributes
  and groups it has and in whatever order the groups are visited.
\<close>

theorem subscribe_resolves:
  assumes small: "length (encode_attrs en avs) < 2 ^ 31" and enc: "attrs_encodable avs" "attrs_encodable gs"
    and family: "map_of avs 1 = Some (native_bytes en 2 (unat family))"
    and groups: "map_of avs 7 = Some (encode_attrs en gs)"
    and ok: "list_all (group_ok en grp) (map snd gs)" and named: "list_ex (names_events en) (map snd gs)"
  shows "\<exists>msgs. ParseNetlinkMessage en (family_reply en avs) = Ok msgs \<and>
    resolve_messages en u msgs (0, 0) w = (Ok (family, grp), snd (RangeOrder u w))"
proof (intro exI conjI)
  let ?m = "\<lparr>nl_Type = GENL_ID_CTRL, nl_Data = [1, 2, 0, 0] @ encode_attrs en avs\<rparr>"
  have "message_encodable (replicate 10 0) ?m" using small by (simp add: message_encodable_def)
  then show "ParseNetlinkMessage en (family_reply en avs) = Ok [?m]"
    unfolding family_reply_def by (subst ParseNetlinkMessage_encoded) simp_all
  obtain ns w1 where r: "RangeOrder u w = (ns, w1)" by force
  have sl: "go_slice 4 (length (nl_Data ?m)) (nl_Data ?m) = Ok (encode_attrs en avs)" by (simp add: go_slice_def)
  have a: "attr avs 1 = native_bytes en 2 (unat family)" "attr avs 7 = encode_attrs en gs"
    using family groups by (simp_all add: attr_def)
  have "set (map snd (go_range ns gs)) = set (map snd gs)" by simp
  then have g: "list_all (group_ok en grp) (map snd (go_range ns gs))" "list_ex (names_events en) (map snd (go_range ns gs))"
    using ok named by (simp_all add: list_all_iff list_ex_iff del: set_map)
  have "resolve_message en ns ?m (0, 0) = Ok (family, grp)"
    using sl encode_attrs_decoded [OF enc(1), of en] encode_attrs_decoded [OF enc(2), of en] g
    by (simp add: resolve_message_def resolve_family_def a native_Uint16_bytes_word resolve_groups_found NLMSG_ERROR_def
        GENL_ID_CTRL_def)
  then show "resolve_messages en u [?m] (0, 0) w = (Ok (family, grp), snd (RangeOrder u w))"
    by (simp add: r)
qed

definition sample_groups :: "(u16 \<times> bytes) list" where
  "sample_groups =
     [(1, encode_attrs Little [(1, string_bytes ''mptcp_pm_cmds'' @ [0]), (2, [8, 0, 0, 0])]),
      (2, encode_attrs Little [(1, string_bytes ''mptcp_pm_events'' @ [0]), (2, [9, 0, 0, 0])])]"

definition sample_family :: "(u16 \<times> bytes) list" where
  "sample_family = [(2, string_bytes ''mptcp_pm'' @ [0]), (1, [30, 0]), (7, encode_attrs Little sample_groups)]"

text \<open>A socket whose peer answers with the sample reply; the world lists the calls with an effect.\<close>

definition sample_calls :: "string list netlink_calls" where
  "sample_calls =
     \<lparr>Socket = \<lambda>w. (Inr 5, w), Bind = \<lambda>fd w. (None, w), SetsockoptInt = \<lambda>fd lv opt v w. (None, w @ [''setsockopt'']),
      SetRecvTimeout = \<lambda>fd sec w. (None, w), Sendto = \<lambda>fd b w. (None, w @ [''send'']),
      Recvfrom = \<lambda>fd n w. (Inr (family_reply Little sample_family), w), SetNonblock = \<lambda>fd w. (None, w @ [''nonblock'']),
      CloseFd = \<lambda>fd w. (None, w @ [''close'']), RangeOrder = \<lambda>w. ([1], w)\<rparr>"

lemma subscribe_resolves_witness:
  "\<exists>msgs. ParseNetlinkMessage Little (family_reply Little sample_family) = Ok msgs \<and>
    resolve_messages Little sample_calls msgs (0, 0) [] = (Ok (30, 9), snd (RangeOrder sample_calls []))"
proof (rule subscribe_resolves [where gs = sample_groups])
  show "length (encode_attrs Little sample_family) < 2 ^ 31" by code_simp
  show "attrs_encodable sample_family" "attrs_encodable sample_groups" by code_simp+
  show "map_of sample_family 1 = Some (native_bytes Little 2 (unat (30 :: u16)))" by code_simp
  show "map_of sample_family 7 = Some (encode_attrs Little sample_groups)" by (simp add: sample_family_def)
  show "list_all (group_ok Little 9) (map snd sample_groups)" by code_simp
  show "list_ex (names_events Little) (map snd sample_groups)" by code_simp
qed

lemma or_fail_Ok: "or_fail u fd r next = (Ok x, w') \<Longrightarrow> \<exists>w1. r = (None, w1) \<and> next w1 = (Ok x, w')"
  by (auto simp: or_fail_def subscribe_fail_def split: prod.splits option.splits)

lemma or_fail_Err:
  "or_fail u fd r next = (Err e, w') \<Longrightarrow> (\<exists>w1. w' = snd (CloseFd u fd w1)) \<or> (\<exists>w1. r = (None, w1) \<and> next w1 = (Err e, w'))"
  by (auto simp: or_fail_def subscribe_fail_def split: prod.splits option.splits)

lemma resolve_and_join_Err: "resolve_and_join en u fd w = (Err e, w') \<Longrightarrow> \<exists>w1. w' = snd (CloseFd u fd w1)"
  by (auto simp: resolve_and_join_def join_group_def subscribe_fail_def
      split: prod.splits sum.splits outcome.splits if_splits dest!: or_fail_Err)

text \<open>
  What a controller message announces: the family number in its attribute 1, and in its attribute 7
  a group that is named for the events and whose attribute 2 is the group number.
\<close>

definition ctrl_attrs :: "endian \<Rightarrow> nl_message \<Rightarrow> (u16, bytes) gomap" where
  "ctrl_attrs en m =
     (if nl_Type m = GENL_ID_CTRL then case netlinkAttrs en (drop 4 (nl_Data m)) of Ok a \<Rightarrow> a | _ \<Rightarrow> [] else [])"

definition announces_family :: "endian \<Rightarrow> u16 \<Rightarrow> nl_message \<Rightarrow> bool" where
  "announces_family en family m \<longleftrightarrow>
     length (attr (ctrl_attrs en m) 1) = 2 \<and> native_Uint16 en (attr (ctrl_attrs en m) 1) = Ok family"

definition events_group :: "endian \<Rightarrow> u32 \<Rightarrow> bytes \<Rightarrow> bool" where
  "events_group en grp g =
     (case netlinkAttrs en g of
        Ok a \<Rightarrow> trim_zeros (attr a 1) = string_bytes ''mptcp_pm_events'' \<and> length (attr a 2) = 4 \<and>
          native_Uint32 en (attr a 2) = Ok grp
      | _ \<Rightarrow> False)"

definition announces_group :: "endian \<Rightarrow> u32 \<Rightarrow> nl_message \<Rightarrow> bool" where
  "announces_group en grp m =
     (case netlinkAttrs en (attr (ctrl_attrs en m) 7) of Ok gs \<Rightarrow> list_ex (events_group en grp) (map snd gs) | _ \<Rightarrow> False)"

lemma resolve_groups_announced:
  "resolve_groups en gs g0 = Ok grp \<Longrightarrow> grp = g0 \<or> list_ex (events_group en grp) gs"
proof (induction gs arbitrary: g0)
  case (Cons g gs)
  then obtain a where a: "netlinkAttrs en g = Ok a" by (cases "netlinkAttrs en g") simp_all
  show ?case
  proof (cases "trim_zeros (attr a 1) = string_bytes ''mptcp_pm_events'' \<and> length (attr a 2) = 4")
    case False
    with a Cons show ?thesis by auto
  next
    case True
    with a Cons.prems obtain x where x: "native_Uint32 en (attr a 2) = Ok x" "resolve_groups en gs x = Ok grp"
      by (cases "native_Uint32 en (attr a 2)") simp_all
    from Cons.IH [OF x(2)] show ?thesis using a True x(1) by (auto simp: events_group_def)
  qed
qed simp

lemma resolve_message_announced:
  assumes "resolve_message en ns m found = Ok (family, grp)"
  shows "(family = fst found \<or> announces_family en family m) \<and> (grp = snd found \<or> announces_group en grp m)"
proof (cases "nl_Type m \<noteq> GENL_ID_CTRL \<or> length (nl_Data m) < 4")
  case True
  then show ?thesis using assms by (auto simp: resolve_message_def split: if_splits)
next
  case False
  then obtain attrs groups where r: "netlinkAttrs en (drop 4 (nl_Data m)) = Ok attrs"
    "resolve_family en (attr attrs 1) (fst found) = Ok family" "netlinkAttrs en (attr attrs 7) = Ok groups"
    "resolve_groups en (map snd (go_range ns groups)) (snd found) = Ok grp"
    using assms by (auto simp: resolve_message_def go_slice_def split: outcome.splits if_splits)
  have attrs: "ctrl_attrs en m = attrs" using False r(1) by (simp add: ctrl_attrs_def)
  have "list_ex (events_group en grp) (map snd (go_range ns groups)) = list_ex (events_group en grp) (map snd groups)"
    by (simp add: list_ex_iff)
  then show ?thesis
    using r(2,3) resolve_groups_announced [OF r(4)]
    by (auto simp: attrs announces_family_def announces_group_def resolve_family_def split: if_splits)
qed

lemma resolve_messages_announced:
  "resolve_messages en u ms found w = (Ok (family, grp), w') \<Longrightarrow>
     (family = fst found \<or> (\<exists>m \<in> set ms. announces_family en family m)) \<and>
     (grp = snd found \<or> (\<exists>m \<in> set ms. announces_group en grp m))"
proof (induction ms arbitrary: found w)
  case (Cons m ms)
  then obtain ns w1 f g where r: "RangeOrder u w = (ns, w1)" "resolve_message en ns m found = Ok (f, g)"
    "resolve_messages en u ms (f, g) w1 = (Ok (family, grp), w')"
    by (auto split: prod.splits outcome.splits)
  from Cons.IH [OF r(3)] resolve_message_announced [OF r(2)] show ?case by auto
qed auto

lemma join_group_Ok:
  assumes "join_group u fd found w = (Ok (fd', family), w')"
  shows "fd' = fd \<and> family = fst found \<and> family \<noteq> 0 \<and> snd found \<noteq> 0 \<and>
    (\<exists>w1. SetsockoptInt u fd SOL_NETLINK NETLINK_ADD_MEMBERSHIP (int (unat (snd found))) w = (None, w1) \<and>
       SetNonblock u fd w1 = (None, w'))"
proof -
  have nz: "fst found \<noteq> 0" "snd found \<noteq> 0" using assms by (auto simp: join_group_def subscribe_fail_def split: if_splits)
  with assms have "or_fail u fd (SetsockoptInt u fd SOL_NETLINK NETLINK_ADD_MEMBERSHIP (int (unat (snd found))) w) (\<lambda>w1.
      or_fail u fd (SetNonblock u fd w1) (\<lambda>w2. (Ok (fd, fst found), w2))) = (Ok (fd', family), w')"
    by (simp only: join_group_def if_False de_Morgan_disj simp_thms)
  from or_fail_Ok [OF this] obtain w1
    where w1: "SetsockoptInt u fd SOL_NETLINK NETLINK_ADD_MEMBERSHIP (int (unat (snd found))) w = (None, w1)"
      and "or_fail u fd (SetNonblock u fd w1) (\<lambda>w2. (Ok (fd, fst found), w2)) = (Ok (fd', family), w')" by (elim exE conjE)
  from or_fail_Ok [OF this(2)] have "SetNonblock u fd w1 = (None, w')" "fd' = fd" "family = fst found" by auto
  with nz w1 show ?thesis by (intro conjI exI [of _ w1]) simp_all
qed

lemma resolve_and_join_Ok:
  assumes "resolve_and_join en u fd w = (Ok (fd', family), w')"
  obtains data w1 msgs found w2 where "Recvfrom u fd 65536 w = (Inr data, w1)" "ParseNetlinkMessage en data = Ok msgs"
    "resolve_messages en u msgs (0, 0) w1 = (Ok found, w2)" "join_group u fd found w2 = (Ok (fd', family), w')"
  using assms by (auto simp: resolve_and_join_def subscribe_fail_def split: prod.splits sum.splits outcome.splits)

lemma SubscribePM_Ok:
  assumes "SubscribePM en u w = (Ok (fd, family), w')"
  obtains w0 w1 w2 where "Socket u w = (Inr fd, w0)" "Sendto u fd (family_request en) w1 = (None, w2)"
    "resolve_and_join en u fd w2 = (Ok (fd, family), w')"
proof -
  obtain fd' w0 w1 w2 where s: "Socket u w = (Inr fd', w0)" "Sendto u fd' (family_request en) w1 = (None, w2)"
    "resolve_and_join en u fd' w2 = (Ok (fd, family), w')"
    using assms by (auto simp: SubscribePM_def split: prod.splits sum.splits dest!: or_fail_Ok)
  moreover have "fd' = fd" using s(3) by (rule resolve_and_join_Ok) (auto dest: join_group_Ok)
  ultimately show thesis using that by blast
qed

text \<open>
  C26: a subscription that succeeds has, before it returns, sent the family request on its socket,
  received there a reply that announces the returned family and an event group, and joined that very
  group; the socket is then made non-blocking. One that fails after the socket was opened ends by
  closing it.
\<close>

theorem subscribe_boundary:
  assumes "SubscribePM en u w = (r, w')"
  shows "case r of
      Ok (fd, family) \<Rightarrow> family \<noteq> 0 \<and>
        (\<exists>grp data msgs w0 w1 w2 w3 w4 w5. Socket u w = (Inr fd, w0) \<and>
          Sendto u fd (family_request en) w1 = (None, w2) \<and> Recvfrom u fd 65536 w2 = (Inr data, w3) \<and>
          ParseNetlinkMessage en data = Ok msgs \<and> resolve_messages en u msgs (0, 0) w3 = (Ok (family, grp), w4) \<and>
          (\<exists>m \<in> set msgs. announces_family en family m) \<and> (\<exists>m \<in> set msgs. announces_group en grp m) \<and> grp \<noteq> 0 \<and>
          SetsockoptInt u fd SOL_NETLINK NETLINK_ADD_MEMBERSHIP (int (unat grp)) w4 = (None, w5) \<and>
          SetNonblock u fd w5 = (None, w'))
    | Err e \<Rightarrow> Socket u w = (Inl e, w') \<or> (\<exists>fd w0 w1. Socket u w = (Inr fd, w0) \<and> w' = snd (CloseFd u fd w1))
    | Panic \<Rightarrow> False"
proof (cases r)
  case (Ok x)
  obtain fd family where x: "x = (fd, family)" by force
  obtain w0 w1 w2 where s: "Socket u w = (Inr fd, w0)" "Sendto u fd (family_request en) w1 = (None, w2)"
    "resolve_and_join en u fd w2 = (Ok (fd, family), w')"
    by (rule SubscribePM_Ok [OF assms [unfolded Ok x]])
  obtain data w3 msgs found w4 where r: "Recvfrom u fd 65536 w2 = (Inr data, w3)" "ParseNetlinkMessage en data = Ok msgs"
    "resolve_messages en u msgs (0, 0) w3 = (Ok found, w4)" "join_group u fd found w4 = (Ok (fd, family), w')"
    by (rule resolve_and_join_Ok [OF s(3)])
  obtain w5 where j: "family = fst found" "family \<noteq> 0" "snd found \<noteq> 0"
    "SetsockoptInt u fd SOL_NETLINK NETLINK_ADD_MEMBERSHIP (int (unat (snd found))) w4 = (None, w5)"
    "SetNonblock u fd w5 = (None, w')"
    using join_group_Ok [OF r(4)] by blast
  then have f: "resolve_messages en u msgs (0, 0) w3 = (Ok (family, snd found), w4)" using r(3) by simp
  then have a: "\<exists>m \<in> set msgs. announces_family en family m" "\<exists>m \<in> set msgs. announces_group en (snd found) m"
    using resolve_messages_announced [OF f] j(2,3) by simp_all
  show ?thesis unfolding Ok x outcome.case prod.case
    by (intro conjI exI) (rule j(2) s(1,2) r(1,2) f a j(3-5))+
next
  case (Err e)
  with assms show ?thesis
    by (auto simp: SubscribePM_def split: prod.splits sum.splits dest!: or_fail_Err resolve_and_join_Err)
next
  case Panic
  with assms SubscribePM_no_panic [of en u w w'] show ?thesis by simp
qed

lemma subscribe_boundary_witness:
  "(\<exists>w1 w2. SetsockoptInt sample_calls 5 SOL_NETLINK NETLINK_ADD_MEMBERSHIP 9 w1 = (None, w2) \<and>
     SetNonblock sample_calls 5 w2 = (None, [''setsockopt'', ''send'', ''setsockopt'', ''nonblock'']))"
proof -
  have "SubscribePM Little sample_calls [] = (Ok (5, 30), [''setsockopt'', ''send'', ''setsockopt'', ''nonblock''])"
    by code_simp
  from subscribe_boundary [OF this] obtain grp data msgs w2 w3 w4 w5
    where b: "Recvfrom sample_calls 5 65536 w2 = (Inr data, w3)" "ParseNetlinkMessage Little data = Ok msgs"
      "resolve_messages Little sample_calls msgs (0, 0) w3 = (Ok (30, grp), w4)"
      "SetsockoptInt sample_calls 5 SOL_NETLINK NETLINK_ADD_MEMBERSHIP (int (unat (grp :: u32))) w4 = (None, w5)"
      "SetNonblock sample_calls 5 w5 = (None, [''setsockopt'', ''send'', ''setsockopt'', ''nonblock''])"
    by auto
  have data: "data = family_reply Little sample_family" using b(1) by (simp add: sample_calls_def)
  have "ParseNetlinkMessage Little (family_reply Little sample_family) =
      Ok [\<lparr>nl_Type = GENL_ID_CTRL, nl_Data = [1, 2, 0, 0] @ encode_attrs Little sample_family\<rparr>]" by code_simp
  moreover have "resolve_message Little [1] \<lparr>nl_Type = GENL_ID_CTRL, nl_Data = [1, 2, 0, 0] @ encode_attrs Little sample_family\<rparr> (0, 0) =
      Ok (30, 9)" by code_simp
  moreover have "RangeOrder sample_calls w3 = ([1], w3)" by (simp add: sample_calls_def)
  ultimately have "grp = 9" using b(2,3) by (auto simp: data)
  with b(4,5) show ?thesis by auto
qed

end
