(* ===== verification/DaemonHistory.thy ===== *)
theory DaemonHistory
  imports DaemonRuns
begin

text \<open>
  What the operations do to the tables, whatever the store answers: a context's specification never
  changes and its generation never falls, a connection that was not closed keeps everything that
  was observed of it, and the outcome of a request is one of a few.
\<close>

section \<open>Contexts across a reconciliation\<close>

definition swept_at :: "(string, desired_context) gomap \<Rightarrow> (string, desired_context) gomap \<Rightarrow> string \<Rightarrow> bool" where
  "swept_at m m' cid \<longleftrightarrow> map_of m' cid = map_of m cid \<or>
     (\<exists>dc. map_of m cid = Some dc \<and> dc_deleting dc \<and> map_of m' cid = None)"

definition swept :: "(string, desired_context) gomap \<Rightarrow> (string, desired_context) gomap \<Rightarrow> bool" where
  "swept m m' \<longleftrightarrow> (\<forall>cid. swept_at m m' cid)"

lemma swept_held: "swept m m' \<Longrightarrow> map_of m cid = Some dc \<Longrightarrow> \<not> dc_deleting dc \<Longrightarrow> map_of m' cid = Some dc"
  unfolding swept_def swept_at_def by (metis option.inject)

lemma swept_origin: "swept m m' \<Longrightarrow> map_of m' cid = Some dc \<Longrightarrow> map_of m cid = Some dc"
  unfolding swept_def swept_at_def by (metis option.distinct(1))

lemma swept_gone: "swept m m' \<Longrightarrow> map_of m cid = Some dc \<Longrightarrow> map_of m' cid = None \<Longrightarrow> dc_deleting dc"
  unfolding swept_def swept_at_def by (metis option.distinct(1) option.inject)

lemma swept_refl [simp]: "swept m m"
  by (simp add: swept_def swept_at_def)

lemma swept_set:
  assumes "swept (go_set k v m) m'"
  shows "cid \<noteq> k \<Longrightarrow> swept_at m m' cid" "map_of m' k = Some v \<or> dc_deleting v \<and> map_of m' k = None"
  using assms unfolding swept_def swept_at_def by (auto dest: spec [of _ k] spec [of _ cid])

lemma sweep_contexts_swept: "wf_map (d_contexts d) \<Longrightarrow> swept (d_contexts d) (d_contexts (sweep_contexts d))"
  unfolding swept_def swept_at_def
proof
  fix cid
  assume wf: "wf_map (d_contexts d)"
  show "map_of (d_contexts (sweep_contexts d)) cid = map_of (d_contexts d) cid \<or>
      (\<exists>dc. map_of (d_contexts d) cid = Some dc \<and> dc_deleting dc \<and> map_of (d_contexts (sweep_contexts d)) cid = None)"
    by (cases "map_of (d_contexts d) cid")
      (auto simp: sweep_contexts_def map_of_filter_wf [OF wf] simp del: map_of_eq_Some_iff)
qed

section \<open>Connections across a reconciliation\<close>

text \<open>What was observed of a connection; the owner and the last error are the daemon's own.\<close>

definition same_observation :: "observed_connection \<Rightarrow> observed_connection \<Rightarrow> bool" where
  "same_observation c c' \<longleftrightarrow> oc_initial c' = oc_initial c \<and> oc_flows c' = oc_flows c \<and> oc_closed c' = oc_closed c"

lemma same_observation_trans: "same_observation a b \<Longrightarrow> same_observation b c \<Longrightarrow> same_observation a c"
  by (simp add: same_observation_def)

definition observations_kept :: "daemon \<Rightarrow> daemon \<Rightarrow> bool" where
  "observations_kept d d' \<longleftrightarrow>
     (\<forall>t c. map_of (d_connections d) t = Some c \<longrightarrow> \<not> oc_closed c \<longrightarrow>
        (\<exists>c'. map_of (d_connections d') t = Some c' \<and> same_observation c c')) \<and>
     (\<forall>t c'. map_of (d_connections d') t = Some c' \<longrightarrow>
        (\<exists>c. map_of (d_connections d) t = Some c \<and> same_observation c c'))"

lemma observations_kept_origin:
  "observations_kept d d' \<Longrightarrow> map_of (d_connections d') t = Some c' \<Longrightarrow>
     \<exists>c. map_of (d_connections d) t = Some c \<and> same_observation c c'"
  by (simp add: observations_kept_def del: map_of_eq_Some_iff)

lemma observations_keptD:
  "observations_kept d d' \<Longrightarrow> map_of (d_connections d) t = Some c \<Longrightarrow> \<not> oc_closed c \<Longrightarrow>
     \<exists>c'. map_of (d_connections d') t = Some c' \<and> same_observation c c'"
  by (simp add: observations_kept_def del: map_of_eq_Some_iff)

lemma observations_kept_trans:
  assumes ab: "observations_kept a b" and bc: "observations_kept b c"
  shows "observations_kept a c"
  unfolding observations_kept_def
proof (intro conjI allI impI)
  fix t x
  assume x: "map_of (d_connections a) t = Some x" "\<not> oc_closed x"
  from observations_keptD [OF ab x] obtain y where y: "map_of (d_connections b) t = Some y" "same_observation x y" by blast
  then have "\<not> oc_closed y" using x(2) by (simp add: same_observation_def)
  from observations_keptD [OF bc y(1) this] obtain z where "map_of (d_connections c) t = Some z" "same_observation y z" by blast
  with same_observation_trans [OF y(2)] show "\<exists>z. map_of (d_connections c) t = Some z \<and> same_observation x z" by blast
next
  fix t z
  assume "map_of (d_connections c) t = Some z"
  from observations_kept_origin [OF bc this] obtain y where y: "map_of (d_connections b) t = Some y" "same_observation y z"
    by blast
  from observations_kept_origin [OF ab y(1)] obtain x where "map_of (d_connections a) t = Some x" "same_observation x y" by blast
  with same_observation_trans [OF _ y(2)] show "\<exists>x. map_of (d_connections a) t = Some x \<and> same_observation x z" by blast
qed

lemma observations_kept_refl: "observations_kept d d"
  by (simp add: observations_kept_def same_observation_def)

lemma observations_kept_set:
  "map_of (d_connections d) t = Some c \<Longrightarrow> same_observation c c' \<Longrightarrow> observations_kept d (set_connection t c' d)"
  by (auto simp: observations_kept_def same_observation_def set_connection_def simp del: map_of_eq_Some_iff)

lemma observations_kept_drop:
  "map_of (d_connections d) t = Some c \<Longrightarrow> oc_closed c \<Longrightarrow> observations_kept d (drop_connection t d)"
  by (auto simp: observations_kept_def same_observation_def drop_connection_def simp del: map_of_eq_Some_iff)

lemma assign_owner_observation: "assign_owner s d c w = (c1, x, w1) \<Longrightarrow> same_observation c c1"
  by (auto simp: assign_owner_def same_observation_def split: option.splits prod.splits if_splits)

lemma release_kept:
  "map_of (d_connections d) t = Some c \<Longrightarrow> release s t c d w = (fs, d', w') \<Longrightarrow> observations_kept d d'"
  by (auto simp: release_def same_observation_def Let_def split: prod.splits option.splits if_splits
      intro!: observations_kept_set observations_kept_drop simp del: map_of_eq_Some_iff)

lemma reconcile_connection_kept:
  assumes "reconcile_connection s t d w = (r, d', w')"
  shows "observations_kept d d'"
  using assms
proof (cases rule: reconcile_connection_cases)
  case absent
  then show ?thesis by (simp add: observations_kept_refl)
next
  case (released c fs)
  then show ?thesis using release_kept [OF released(1,3)] by simp
next
  case (idle c c1)
  then show ?thesis using observations_kept_set [OF idle(1) assign_owner_observation [OF idle(3)]] by simp
next
  case (applied c c1 dc w1 res)
  have "same_observation c1 (case res of Ok _ \<Rightarrow> c1\<lparr>oc_lastError := None\<rparr> | Err e \<Rightarrow> c1\<lparr>oc_lastError := Some e\<rparr> | Panic \<Rightarrow> c1)"
    by (simp add: same_observation_def split: outcome.split)
  then show ?thesis
    using observations_kept_set [OF applied(1) same_observation_trans [OF assign_owner_observation [OF applied(3)]]] applied(6) by simp
qed

lemma reconcile_connections_kept: "reconcile_connections s ts fs d w = (r, d', w') \<Longrightarrow> observations_kept d d'"
proof (induction ts arbitrary: fs d w)
  case Nil
  then show ?case by (simp add: observations_kept_refl)
next
  case (Cons t ts)
  obtain x d1 w1 where rc: "reconcile_connection s t d w = (x, d1, w1)" by (metis prod.exhaust)
  show ?case
  proof (cases x)
    case (Ok gs)
    then have "reconcile_connections s ts (fs @ gs) d1 w1 = (r, d', w')" using Cons.prems rc by simp
    from Cons.IH [OF this] show ?thesis
      using observations_kept_trans reconcile_connection_kept [OF rc] by blast
  qed (use Cons.prems rc reconcile_connection_kept [OF rc] in simp_all)
qed

context daemon_laws
begin

lemma reconcileLocked_tables:
  assumes inv: "daemon_inv d (pol w) (pth w)" and run: "reconcileLocked s d w = (r, d', w')"
  shows "swept (d_contexts d) (d_contexts d')" "observations_kept d d'" "d_fatal d' = d_fatal d"
proof -
  obtain ns w1 where mo: "MapOrder s w = (ns, w1)" by force
  have f: "pol w1 = pol w" "pth w1 = pth w" using MapOrder_frame [OF mo] by simp_all
  obtain x d1 w2 where rc: "reconcile_connections s (map fst (go_range ns (d_connections d))) [] d w1 = (x, d1, w2)"
    by (metis prod.exhaust)
  note i = reconcile_connections_inv [OF _ rc, unfolded f, OF inv]
  then obtain fs where "x = Ok fs" by auto
  then have d': "d' = sweep_contexts d1" using run mo rc by (simp add: reconcileLocked_def)
  have "wf_map (d_contexts d1)" using i inv_contexts [OF inv] by (simp add: contexts_ok_def)
  from sweep_contexts_swept [OF this] show "swept (d_contexts d) (d_contexts d')" using d' i by simp
  show "observations_kept d d'" using reconcile_connections_kept [OF rc] d' by (simp add: observations_kept_def)
  show "d_fatal d' = d_fatal d" using d' i by simp
qed

lemma reconcile_ignored_tables:
  assumes inv: "daemon_inv d (pol w) (pth w)" and run: "reconcile_ignored s d w = (r, d', w')"
  shows "swept (d_contexts d) (d_contexts d')" "observations_kept d d'" "d_fatal d' = d_fatal d" "r = Ok ()"
proof -
  obtain x d1 w1 where rl: "reconcileLocked s d w = (x, d1, w1)" by (metis prod.exhaust)
  have "x \<noteq> Panic" using reconcileLocked_ok [OF inv rl] by (simp add: op_ok_def)
  then have "r = Ok ()" "d' = d1" using run rl by (cases x; simp add: reconcile_ignored_def)+
  then show "swept (d_contexts d) (d_contexts d')" "observations_kept d d'" "d_fatal d' = d_fatal d" "r = Ok ()"
    using reconcileLocked_tables [OF inv rl] by simp_all
qed

text \<open>The outcomes of \<open>Put\<close>.\<close>

lemma Daemon_Put_cases:
  assumes inv: "daemon_inv d (pol w) (pth w)" and run: "Daemon_Put s a d w = (r, d', w')"
  obtains (invalid) e where "Assignment_Validate a = Some e" "r = Err (rejectAssignment e)" "d' = d" "w' = w"
    | (fatal) e where "Assignment_Validate a = None" "d_fatal d = Some e" "r = Err e" "d' = d" "w' = w"
    | (refused) e where "Assignment_Validate a = None" "d_fatal d = None" "r = Err (rejectAssignment e)" "d' = d"
        "pol w' = pol w" "pth w' = pth w"
    | (held) w1 d1 where "Assignment_Validate a = None" "d_fatal d = None" "admission_error d (canonical a) = None"
        "d1 = d\<lparr>d_contexts := go_set (cp_ID (cp_ContextSpec a)) \<lparr>dc_assignment = canonical a, dc_deleting = False\<rparr> (d_contexts d)\<rparr>"
        "daemon_inv d1 (pol w1) (pth w1)" "reconcileLocked s d1 w1 = (r, d', w')"
proof -
  let ?a = "canonical a"
  let ?d1 = "d\<lparr>d_contexts := go_set (cp_ID (cp_ContextSpec a)) \<lparr>dc_assignment = ?a, dc_deleting = False\<rparr> (d_contexts d)\<rparr>"
  obtain e w1 where vl: "validate_legs s [cp_A (cp_Legs (cp_ContextSpec ?a)), cp_B (cp_Legs (cp_ContextSpec ?a))] w = (e, w1)"
    by force
  have f: "pol w1 = pol w" "pth w1 = pth w" using validate_legs_frame [OF vl] by simp_all
  show ?thesis
  proof (cases "Assignment_Validate a")
    case (Some x)
    show ?thesis by (rule invalid [OF Some]) (use run Some in \<open>simp_all add: Daemon_Put_def\<close>)
  next
    case v: None
    show ?thesis
    proof (cases "d_fatal d")
      case (Some x)
      show ?thesis by (rule fatal [OF v Some]) (use run v Some in \<open>simp_all add: Daemon_Put_def Let_def\<close>)
    next
      case nf: None
      show ?thesis
      proof (cases e)
        case (Some x)
        show ?thesis by (rule refused [OF v nf, of x]) (use run v nf vl f Some in \<open>simp_all add: Daemon_Put_def Let_def\<close>)
      next
        case ok: None
        show ?thesis
        proof (cases "admission_error d ?a")
          case (Some x)
          show ?thesis by (rule refused [OF v nf, of x]) (use run v nf vl f ok Some in \<open>simp_all add: Daemon_Put_def Let_def\<close>)
        next
          case adm: None
          have i: "daemon_inv ?d1 (pol w1) (pth w1)" using admitted_inv [OF inv v refl adm] f by simp
          have rl: "reconcileLocked s ?d1 w1 = (r, d', w')"
            using run v nf vl ok adm by (simp add: Daemon_Put_def Let_def)
          show ?thesis by (rule held [OF v nf adm refl i rl])
        qed
      qed
    qed
  qed
qed

lemma Daemon_Delete_tables:
  assumes inv: "daemon_inv d (pol w) (pth w)" and run: "Daemon_Delete s cid d w = (r, d', w')"
  obtains d1 where "daemon_inv d1 (pol w) (pth w)" "reconcileLocked s d1 w = (r, d', w')"
    "d1 = d \<and> map_of (d_contexts d) cid = None \<or>
      (\<exists>c. map_of (d_contexts d) cid = Some c \<and> d1 = d\<lparr>d_contexts := go_set cid (c\<lparr>dc_deleting := True\<rparr>) (d_contexts d)\<rparr>)"
proof (cases "map_of (d_contexts d) cid")
  case None
  then show ?thesis using that inv run by (simp add: Daemon_Delete_def)
next
  case (Some c)
  then show ?thesis using that [OF deleting_inv [OF inv Some]] run by (simp add: Daemon_Delete_def)
qed

lemma Daemon_Put_contexts:
  assumes inv: "daemon_inv d (pol w) (pth w)" and run: "Daemon_Put s a d w = (r, d', w')"
  shows "swept_at (d_contexts d) (d_contexts d') cid \<or>
    cid = cp_ID (cp_ContextSpec a) \<and> Assignment_Validate a = None \<and> admission_error d (canonical a) = None \<and>
    map_of (d_contexts d') cid = Some \<lparr>dc_assignment = canonical a, dc_deleting = False\<rparr>"
  using inv run
proof (cases rule: Daemon_Put_cases)
  case (held w1 d1)
  have "swept (d_contexts d1) (d_contexts d')" by (rule reconcileLocked_tables(1) [OF held(5,6)])
  moreover have "d_contexts d1 = go_set (cp_ID (cp_ContextSpec a)) \<lparr>dc_assignment = canonical a, dc_deleting = False\<rparr> (d_contexts d)"
    by (simp add: held(4))
  ultimately have "swept (go_set (cp_ID (cp_ContextSpec a)) \<lparr>dc_assignment = canonical a, dc_deleting = False\<rparr> (d_contexts d)) (d_contexts d')"
    by simp
  from swept_set [OF this] held(1,3)
  show ?thesis by (cases "cid = cp_ID (cp_ContextSpec a)") auto
qed (auto simp: swept_at_def)

lemma Daemon_Delete_contexts:
  assumes inv: "daemon_inv d (pol w) (pth w)" and run: "Daemon_Delete s c d w = (r, d', w')"
  shows "swept_at (d_contexts d) (d_contexts d') cid \<or>
    cid = c \<and> (\<exists>dc. map_of (d_contexts d) c = Some dc \<and>
      (map_of (d_contexts d') c = None \<or> map_of (d_contexts d') c = Some (dc\<lparr>dc_deleting := True\<rparr>)))"
  using inv run
proof (rule Daemon_Delete_tables)
  fix d1
  assume d1: "daemon_inv d1 (pol w) (pth w)" "reconcileLocked s d1 w = (r, d', w')"
    "d1 = d \<and> map_of (d_contexts d) c = None \<or>
      (\<exists>dc. map_of (d_contexts d) c = Some dc \<and> d1 = d\<lparr>d_contexts := go_set c (dc\<lparr>dc_deleting := True\<rparr>) (d_contexts d)\<rparr>)"
  have sw: "swept (d_contexts d1) (d_contexts d')" by (rule reconcileLocked_tables(1) [OF d1(1,2)])
  show ?thesis
  proof (cases "d1 = d")
    case True
    then show ?thesis using sw by (simp add: swept_def)
  next
    case False
    then obtain dc where dc: "map_of (d_contexts d) c = Some dc"
      "d_contexts d1 = go_set c (dc\<lparr>dc_deleting := True\<rparr>) (d_contexts d)" using d1(3) by auto
    from swept_set [OF sw [unfolded dc(2)]] dc(1) show ?thesis by (cases "cid = c") auto
  qed
qed

text \<open>The outcomes of \<open>Observe\<close>.\<close>

lemma Daemon_Observe_split:
  assumes "Daemon_Observe s e d w = (r, d', w')"
  obtains (ignored) "\<not> observed_type (ev_Type e) \<or> ev_Type e = EventSubClosed \<and> map_of (d_connections d) (ev_Token e) = None"
        "d' = d" "r = Ok ()"
    | (refused) x where "r = Err x" "d' = d" "w' = w"
    | (closed) "ev_Type e = EventClosed" "reconcile_ignored s (case map_of (d_connections d) (ev_Token e) of None \<Rightarrow> d
          | Some c \<Rightarrow> set_connection (ev_Token e) (c\<lparr>oc_closed := True\<rparr>) d) w = (r, d', w')"
    | (known) c where "observed_type (ev_Type e)" "ev_Type e \<noteq> EventClosed" "map_of (d_connections d) (ev_Token e) = Some c"
        "observe_open s e c d w = (r, d', w')"
    | (fresh) "observed_type (ev_Type e)" "ev_Type e \<noteq> EventClosed" "map_of (d_connections d) (ev_Token e) = None"
        "length (d_connections d) < 4096" "observe_open s e new_connection d w = (r, d', w')"
proof -
  have ty: "(ev_Type e \<noteq> EventEstablished \<and> ev_Type e \<noteq> EventSubEstablished \<and>
      ev_Type e \<noteq> EventSubClosed \<and> ev_Type e \<noteq> EventClosed) = (\<not> observed_type (ev_Type e))" by (auto simp: observed_type_def)
  note run = assms [unfolded Daemon_Observe_def ty Let_def]
  consider "\<not> observed_type (ev_Type e)" | x where "observed_type (ev_Type e)" "d_fatal d = Some x"
    | "observed_type (ev_Type e)" "d_fatal d = None" "ev_Type e = EventClosed"
    | c where "observed_type (ev_Type e)" "d_fatal d = None" "ev_Type e \<noteq> EventClosed" "map_of (d_connections d) (ev_Token e) = Some c"
    | "observed_type (ev_Type e)" "d_fatal d = None" "ev_Type e \<noteq> EventClosed" "map_of (d_connections d) (ev_Token e) = None"
    by blast
  then show thesis
  proof cases
    case 1
    then show thesis using run by (intro ignored) simp_all
  next
    case (2 x)
    then show thesis using run by (intro refused [of x]) simp_all
  next
    case 3
    then show thesis using run by (intro closed) simp_all
  next
    case (4 c)
    then show thesis using run by (intro known) simp_all
  next
    case 5
    consider "ev_Type e = EventSubClosed" | "ev_Type e \<noteq> EventSubClosed" "length (d_connections d) \<ge> 4096"
      | "ev_Type e \<noteq> EventSubClosed" "length (d_connections d) < 4096" by linarith
    then show thesis
    proof cases
      case 1
      then show thesis using run 5 by (intro ignored) simp_all
    next
      case 2
      then show thesis using run 5 by (intro refused) auto
    next
      case 3
      then show thesis using run 5 by (intro fresh) simp_all
    qed
  qed
qed

lemma Daemon_Observe_cases:
  assumes inv: "daemon_inv d (pol w) (pth w)" and run: "Daemon_Observe s e d w = (r, d', w')"
  obtains (ignored) "\<not> observed_type (ev_Type e) \<or> ev_Type e = EventSubClosed \<and> map_of (d_connections d) (ev_Token e) = None"
        "d' = d" "r = Ok ()"
    | (refused) x where "r = Err x" "d' = d" "w' = w"
    | (closed) d1 where "ev_Type e = EventClosed"
        "d1 = (case map_of (d_connections d) (ev_Token e) of None \<Rightarrow> d
           | Some c \<Rightarrow> set_connection (ev_Token e) (c\<lparr>oc_closed := True\<rparr>) d)"
        "daemon_inv d1 (pol w) (pth w)" "reconcile_ignored s d1 w = (r, d', w')"
    | (opened) c where "observed_type (ev_Type e)" "ev_Type e \<noteq> EventClosed"
        "map_of (d_connections d) (ev_Token e) = Some c \<or> map_of (d_connections d) (ev_Token e) = None \<and> c = new_connection"
        "connection_ok (d_contexts d) c" "case map_of (d_connections d) (ev_Token e) of
          None \<Rightarrow> oc_owner c = [] \<and> length (d_connections d) < 4096 | Some c0 \<Rightarrow> oc_owner c = oc_owner c0"
        "observe_open s e c d w = (r, d', w')"
  using run
proof (cases rule: Daemon_Observe_split)
  case closed
  let ?found = "map_of (d_connections d) (ev_Token e)"
  have "daemon_inv (case ?found of None \<Rightarrow> d | Some c \<Rightarrow> set_connection (ev_Token e) (c\<lparr>oc_closed := True\<rparr>) d) (pol w) (pth w)"
  proof (cases ?found)
    case (Some x)
    have "daemon_inv (set_connection (ev_Token e) (x\<lparr>oc_closed := True\<rparr>) d) (pol w) (pth w)"
      by (rule replace_connection_inv [OF inv])
        (use inv_connection [OF inv Some] Some in \<open>simp_all add: connection_ok_def\<close>)
    with Some show ?thesis by simp
  qed (use inv in simp)
  from that(3) [OF closed(1) refl this closed(2)] show thesis .
next
  case (known c)
  from that(4) [of c] known inv_connection [OF inv known(3)] show thesis by simp
next
  case fresh
  from that(4) [of new_connection] fresh show thesis by simp
qed (use that in blast)+

lemma observe_open_contexts:
  assumes inv: "daemon_inv d (pol w) (pth w)" and ok: "connection_ok (d_contexts d) c"
    and old: "case map_of (d_connections d) (ev_Token e) of
        None \<Rightarrow> oc_owner c = [] \<and> length (d_connections d) < 4096 | Some c0 \<Rightarrow> oc_owner c = oc_owner c0"
    and run: "observe_open s e c d w = (r, d', w')"
  shows "swept (d_contexts d) (d_contexts d') \<and> d_fatal d' = d_fatal d \<and>
    (r = Ok () \<longrightarrow> (\<exists>c1 c2 c'. record_initial e c = Inr c1 \<and> record_flow e c1 = Inr c2 \<and>
       map_of (d_connections d') (ev_Token e) = Some c' \<and> same_observation c2 c'))"
proof -
  let ?t = "ev_Token e" and ?d0 = "set_connection (ev_Token e) c d"
  have i0: "daemon_inv ?d0 (pol w) (pth w)" by (rule replace_connection_inv [OF inv ok old])
  show ?thesis
  proof (cases "record_initial e c")
    case (Inl x)
    then show ?thesis using run by (auto simp: observe_open_def)
  next
    case c1: (Inr c1)
    note ok1 = record_initial_ok [OF c1 ok]
    show ?thesis
    proof (cases "record_flow e c1")
      case (Inl x)
      then show ?thesis using run c1 by (auto simp: observe_open_def)
    next
      case c2: (Inr c2)
      have ok2: "connection_ok (d_contexts d) c2 \<and> oc_owner c2 = oc_owner c"
        using record_flow_ok [OF c2, of "d_contexts d"] ok1 by simp
      have i2: "daemon_inv (set_connection ?t c2 ?d0) (pol w) (pth w)"
        by (rule replace_connection_inv [OF i0]) (simp_all add: ok2)
      have ri: "reconcile_ignored s (set_connection ?t c2 ?d0) w = (r, d', w')"
        using run c1 c2 by (simp add: observe_open_def)
      note t = reconcile_ignored_tables [OF i2 ri]
      have "\<not> oc_closed c" using c1 by (auto simp: record_initial_def split: if_splits)
      then have "\<not> oc_closed c2"
        using c1 c2 by (auto simp: record_initial_def record_flow_def split: if_splits)
      from observations_keptD [OF t(2) _ this, of ?t] obtain c'
        where "map_of (d_connections d') ?t = Some c'" "same_observation c2 c'" by auto
      then show ?thesis using t c1 c2 by (simp del: map_of_eq_Some_iff)
    qed
  qed
qed

lemma Daemon_Observe_contexts:
  assumes inv: "daemon_inv d (pol w) (pth w)" and run: "Daemon_Observe s e d w = (r, d', w')"
  shows "swept (d_contexts d) (d_contexts d') \<and> d_fatal d' = d_fatal d"
  using inv run
proof (cases rule: Daemon_Observe_cases)
  case (closed d1)
  then show ?thesis using reconcile_ignored_tables [OF closed(3,4)] by (simp split: option.splits)
next
  case (opened c)
  from observe_open_contexts [OF inv opened(4-6)] show ?thesis by simp
qed simp_all

end

section \<open>What the tables record\<close>

text \<open>Every recorded event is an establishment of its own connection, under the key of its flow.\<close>

definition flow_recorded :: "u32 \<Rightarrow> observed_flow \<Rightarrow> pm_event \<Rightarrow> bool" where
  "flow_recorded t f e \<longleftrightarrow>
     eventFlow e = f \<and> ev_Token e = t \<and> (ev_Type e = EventEstablished \<or> ev_Type e = EventSubEstablished)"

definition recorded_ok :: "u32 \<Rightarrow> observed_connection \<Rightarrow> bool" where
  "recorded_ok t c \<longleftrightarrow>
     (\<forall>f e. map_of (oc_flows c) f = Some e \<longrightarrow> flow_recorded t f e) \<and>
     (\<forall>e. oc_initial c = Some e \<longrightarrow> ev_Token e = t \<and> ev_Type e = EventEstablished)"

definition events_ok :: "daemon \<Rightarrow> bool" where
  "events_ok d \<longleftrightarrow> (\<forall>t c. map_of (d_connections d) t = Some c \<longrightarrow> recorded_ok t c)"

lemma events_ok_kept: "events_ok d \<Longrightarrow> observations_kept d d' \<Longrightarrow> events_ok d'"
  unfolding events_ok_def
proof (intro allI impI)
  fix t c'
  assume ok: "\<forall>t c. map_of (d_connections d) t = Some c \<longrightarrow> recorded_ok t c"
    and kept: "observations_kept d d'" and c': "map_of (d_connections d') t = Some c'"
  from observations_kept_origin [OF kept c'] obtain c where "map_of (d_connections d) t = Some c" "same_observation c c'" by blast
  with ok show "recorded_ok t c'" by (simp add: recorded_ok_def same_observation_def del: map_of_eq_Some_iff)
qed

lemma events_ok_set: "events_ok d \<Longrightarrow> recorded_ok t c \<Longrightarrow> events_ok (set_connection t c d)"
  by (simp add: events_ok_def del: map_of_eq_Some_iff)

lemma record_initial_recorded:
  "record_initial e c = Inr c1 \<Longrightarrow> recorded_ok (ev_Token e) c \<Longrightarrow> recorded_ok (ev_Token e) c1"
  by (auto simp: record_initial_def recorded_ok_def split: if_splits simp del: map_of_eq_Some_iff)

lemma record_flow_recorded:
  assumes run: "record_flow e c = Inr c1" and ty: "observed_type (ev_Type e)" "ev_Type e \<noteq> EventClosed"
    and ok: "recorded_ok (ev_Token e) c"
  shows "recorded_ok (ev_Token e) c1"
proof (cases "ev_Type e = EventSubClosed")
  case True
  then have "c1 = c\<lparr>oc_flows := go_delete (eventFlow e) (oc_flows c)\<rparr>" using run by (simp add: record_flow_def)
  with ok show ?thesis by (simp add: recorded_ok_def del: map_of_eq_Some_iff)
next
  case False
  then have "flow_recorded (ev_Token e) (eventFlow e) e" using ty by (auto simp: flow_recorded_def observed_type_def)
  moreover have "c1 = c\<lparr>oc_flows := go_set (eventFlow e) e (oc_flows c)\<rparr>"
    using run False by (simp add: record_flow_def split: if_splits)
  ultimately show ?thesis using ok by (simp add: recorded_ok_def del: map_of_eq_Some_iff)
qed

context daemon_laws
begin

lemma observe_open_events:
  assumes inv: "daemon_inv d (pol w) (pth w)" and ok: "connection_ok (d_contexts d) c"
    and old: "case map_of (d_connections d) (ev_Token e) of
        None \<Rightarrow> oc_owner c = [] \<and> length (d_connections d) < 4096 | Some c0 \<Rightarrow> oc_owner c = oc_owner c0"
    and ty: "observed_type (ev_Type e)" "ev_Type e \<noteq> EventClosed"
    and ev: "events_ok d" "recorded_ok (ev_Token e) c" and run: "observe_open s e c d w = (r, d', w')"
  shows "events_ok d'"
proof -
  let ?t = "ev_Token e" and ?d0 = "set_connection (ev_Token e) c d"
  have i0: "daemon_inv ?d0 (pol w) (pth w)" by (rule replace_connection_inv [OF inv ok old])
  note e0 = events_ok_set [OF ev]
  show ?thesis
  proof (cases "record_initial e c")
    case (Inl x)
    then show ?thesis using run e0 by (simp add: observe_open_def)
  next
    case c1: (Inr c1)
    note r1 = record_initial_recorded [OF c1 ev(2)] and ok1 = record_initial_ok [OF c1 ok]
    show ?thesis
    proof (cases "record_flow e c1")
      case (Inl x)
      then show ?thesis using run c1 events_ok_set [OF e0 r1] by (auto simp: observe_open_def)
    next
      case c2: (Inr c2)
      have "connection_ok (d_contexts d) c2 \<and> oc_owner c2 = oc_owner c"
        using record_flow_ok [OF c2, of "d_contexts d"] ok1 by simp
      then have i2: "daemon_inv (set_connection ?t c2 ?d0) (pol w) (pth w)"
        by (intro replace_connection_inv [OF i0]) simp_all
      have "reconcile_ignored s (set_connection ?t c2 ?d0) w = (r, d', w')"
        using run c1 c2 by (simp add: observe_open_def)
      from events_ok_kept [OF events_ok_set [OF e0 record_flow_recorded [OF c2 ty r1]] reconcile_ignored_tables(2) [OF i2 this]]
      show ?thesis .
    qed
  qed
qed

lemma run_command_events:
  assumes inv: "daemon_inv d (pol w) (pth w)" and ev: "events_ok d" and run: "run_command s cmd d w = (r, d', w')"
  shows "events_ok d'"
proof (cases cmd)
  case (CPut a)
  then have "Daemon_Put s a d w = (r, d', w')" using run by simp
  with inv show ?thesis
  proof (cases rule: Daemon_Put_cases)
    case (held w1 d1)
    have "events_ok d1" using ev by (simp add: held(4) events_ok_def)
    then show ?thesis by (rule events_ok_kept) (rule reconcileLocked_tables(2) [OF held(5,6)])
  qed (use ev in simp_all)
next
  case (CDelete cid)
  then have "Daemon_Delete s cid d w = (r, d', w')" using run by simp
  with inv show ?thesis
  proof (rule Daemon_Delete_tables, goal_cases)
    case (1 d1)
    have "d_connections d1 = d_connections d" using 1(3) by auto
    then have "events_ok d1" using ev by (simp add: events_ok_def)
    then show ?thesis by (rule events_ok_kept) (rule reconcileLocked_tables(2) [OF 1(1,2)])
  qed
next
  case (CObserve e)
  then have "Daemon_Observe s e d w = (r, d', w')" using run by simp
  with inv show ?thesis
  proof (cases rule: Daemon_Observe_cases)
    case (closed d1)
    have "events_ok d1"
    proof (cases "map_of (d_connections d) (ev_Token e)")
      case (Some c)
      then have "recorded_ok (ev_Token e) c" using ev by (simp add: events_ok_def del: map_of_eq_Some_iff)
      then have "recorded_ok (ev_Token e) (c\<lparr>oc_closed := True\<rparr>)" by (simp add: recorded_ok_def)
      then show ?thesis using closed(2) Some events_ok_set [OF ev] by simp
    qed (use closed(2) ev in simp)
    then show ?thesis by (rule events_ok_kept) (rule reconcile_ignored_tables(2) [OF closed(3,4)])
  next
    case (opened c)
    have "recorded_ok (ev_Token e) c"
      using opened(3) ev by (auto simp: events_ok_def recorded_ok_def new_connection_def simp del: map_of_eq_Some_iff)
    from observe_open_events [OF inv opened(4,5,1,2) ev this opened(6)] show ?thesis .
  qed (use ev in simp_all)
next
  case CRetry
  then have "reconcileLocked s d w = (r, d', w')" using run by (simp add: Daemon_Retry_def)
  from events_ok_kept [OF ev reconcileLocked_tables(2) [OF inv this]] show ?thesis .
next
  case (CFail x)
  then show ?thesis using run ev by (auto simp: events_ok_def)
qed

lemma reach_events: "daemon_reach s pol pth n d w \<Longrightarrow> events_ok d"
proof (induction rule: daemon_reach.induct)
  case (start w)
  then show ?case by (simp add: events_ok_def NewDaemon_def)
next
  case (command d w cmd r d' w')
  then show ?case using run_command_events reach_inv by blast
qed simp

end

end
