(* ===== verification/DaemonStatus.thy ===== *)
theory DaemonStatus
  imports DaemonInv "HOL-Library.Product_Lexorder"
begin

text \<open>
  \<open>Daemon.Status\<close> of \<open>dualsteer-agent/daemon.go\<close> and the types of its result. The lemmas show that
  it changes nothing, that its lists are complete and sorted whatever the order of the maps, and
  what a binding that is reported says of the kernel's maps.
\<close>

section \<open>The report\<close>

record bound_path =
  bp_LocalID :: u32
  bp_RemoteID :: u32
  bp_Access :: u32

record binding_status =
  bs_Token :: u32
  bs_NetNSInode :: u64
  bs_Generation :: u32
  bs_Ready :: bool
  bs_Paths :: "bound_path list"
  bs_Error :: "go_error option"

record context_status =
  cs_ID :: string
  cs_Generation :: u32
  cs_Deleting :: bool
  cs_Bindings :: "binding_status list"

record daemon_status =
  ds_Ready :: bool
  ds_RestartBehavior :: string
  ds_ObservedConnections :: nat
  ds_Contexts :: "context_status list"
  ds_Error :: "go_error option"

text \<open>The comparison of \<open>slices.SortFunc\<close>: by local, then by remote identifier.\<close>

definition path_ids :: "bound_path \<Rightarrow> u32 \<times> u32" where
  "path_ids b = (bp_LocalID b, bp_RemoteID b)"

definition bound_path_of :: "path_key \<times> map_path \<Rightarrow> bound_path" where
  "bound_path_of kv = \<lparr>bp_LocalID = pk_LocalID (fst kv), bp_RemoteID = pk_RemoteID (fst kv), bp_Access = path_Access (snd kv)\<rparr>"

text \<open>The policy part of a binding: its generation, whether it is ready, and its error.\<close>

definition binding_policy :: "desired_context \<Rightarrow> observed_connection \<Rightarrow> go_error + map_policy \<Rightarrow>
    u32 \<times> bool \<times> go_error option" where
  "binding_policy desired c r =
     (case r of
        Inr p \<Rightarrow> (mp_Generation p,
          mp_Generation p = cp_Generation (dc_assignment desired) \<and> oc_lastError c = None \<and> \<not> oc_closed c \<and>
            \<not> dc_deleting desired,
          oc_lastError c)
      | Inl e \<Rightarrow> (0, False, if \<not> errors_Is e ErrNotFound then Some e else oc_lastError c))"

definition binding_of :: "('w, 'z) runtime_scheme \<Rightarrow> daemon \<Rightarrow> desired_context \<Rightarrow> u32 \<Rightarrow> observed_connection \<Rightarrow> 'w \<Rightarrow>
    binding_status \<times> 'w" where
  "binding_of s d desired token c w =
     (let (r, w1) = LookupPolicy s (conn_of d token) w;
          (generation, ready, err) = binding_policy desired c r;
          ((ps, perr), w2) = Paths s (conn_of d token) w1;
          (ns, w3) = MapOrder s w2
      in (\<lparr>bs_Token = token, bs_NetNSInode = d_netns d, bs_Generation = generation,
           bs_Ready = ready \<and> perr = None,
           bs_Paths = sort_key path_ids (map bound_path_of (go_range ns ps)),
           bs_Error = (case perr of Some e \<Rightarrow> Some e | None \<Rightarrow> err)\<rparr>, w3))"

fun bindings_of :: "('w, 'z) runtime_scheme \<Rightarrow> daemon \<Rightarrow> string \<Rightarrow> desired_context \<Rightarrow> u32 list \<Rightarrow> 'w \<Rightarrow>
    binding_status list \<times> 'w" where
  "bindings_of s d cid desired [] w = ([], w)"
| "bindings_of s d cid desired (token # tokens) w =
     (case map_of (d_connections d) token of
        None \<Rightarrow> bindings_of s d cid desired tokens w
      | Some c \<Rightarrow>
          if oc_owner c \<noteq> cid then bindings_of s d cid desired tokens w
          else
            let (b, w1) = binding_of s d desired token c w; (bs, w2) = bindings_of s d cid desired tokens w1
            in (b # bs, w2))"

definition context_status_of :: "('w, 'z) runtime_scheme \<Rightarrow> daemon \<Rightarrow> string \<Rightarrow> desired_context \<Rightarrow> 'w \<Rightarrow>
    context_status \<times> 'w" where
  "context_status_of s d cid desired w =
     (let (bs, w1) = bindings_of s d cid desired (sort (map fst (d_connections d))) w
      in (\<lparr>cs_ID = cid, cs_Generation = cp_Generation (dc_assignment desired), cs_Deleting = dc_deleting desired,
           cs_Bindings = bs\<rparr>, w1))"

fun contexts_status :: "('w, 'z) runtime_scheme \<Rightarrow> daemon \<Rightarrow> string list \<Rightarrow> 'w \<Rightarrow> context_status list \<times> 'w" where
  "contexts_status s d [] w = ([], w)"
| "contexts_status s d (cid # cids) w =
     (case map_of (d_contexts d) cid of
        None \<Rightarrow> contexts_status s d cids w
      | Some desired \<Rightarrow>
          let (cs, w1) = context_status_of s d cid desired w; (css, w2) = contexts_status s d cids w1
          in (cs # css, w2))"

text \<open>\<open>Ready\<close> starts from the fatal error and is reset by any binding with an error.\<close>

definition Daemon_Status :: "('w, 'z) runtime_scheme \<Rightarrow> daemon \<Rightarrow> 'w \<Rightarrow> daemon_status \<times> 'w" where
  "Daemon_Status s d w =
     (let (css, w1) = contexts_status s d (sort (map fst (d_contexts d))) w
      in (\<lparr>ds_Ready = d_fatal d = None \<and> list_all (\<lambda>cs. list_all (\<lambda>b. bs_Error b = None) (cs_Bindings cs)) css,
           ds_RestartBehavior = ''fresh-connections-only; startup refuses nonempty namespace maps'',
           ds_ObservedConnections = length (d_connections d), ds_Contexts = css, ds_Error = d_fatal d\<rparr>, w1))"

section \<open>What the report says\<close>

lemma sorted_distinct_map_fst: "wf_map m \<Longrightarrow> distinct (sort (map fst m)) \<and> set (sort (map fst m)) = dom (map_of m)"
  by (simp add: dom_map_of_conv_image_fst)

lemma path_ids_bound_path_of: "path_ids (bound_path_of kv) = (pk_LocalID (fst kv), pk_RemoteID (fst kv))"
  by (simp add: path_ids_def bound_path_of_def)

text \<open>What a binding says of the maps it was read from.\<close>

definition binding_true :: "daemon \<Rightarrow> desired_context \<Rightarrow> (conn_key \<Rightarrow> map_policy option) \<Rightarrow> (path_key \<Rightarrow> map_path option) \<Rightarrow>
    binding_status \<Rightarrow> observed_connection \<Rightarrow> bool" where
  "binding_true d desired P T b c \<longleftrightarrow>
     bs_NetNSInode b = d_netns d \<and>
     (bs_Ready b \<longrightarrow> bs_Error b = None \<and> \<not> oc_closed c \<and> \<not> dc_deleting desired \<and>
        (\<exists>mp. P (conn_of d (bs_Token b)) = Some mp \<and> mp_Generation mp = cp_Generation (dc_assignment desired))) \<and>
     (bs_Error b = None \<longrightarrow> sorted (map path_ids (bs_Paths b)) \<and> distinct (map path_ids (bs_Paths b)) \<and>
        (\<forall>l r a. \<lparr>bp_LocalID = l, bp_RemoteID = r, bp_Access = a\<rparr> \<in> set (bs_Paths b) \<longleftrightarrow>
           (\<exists>g. T \<lparr>pk_Conn = conn_of d (bs_Token b), pk_LocalID = l, pk_RemoteID = r\<rparr> =
              Some \<lparr>path_Generation = g, path_Access = a\<rparr>)))"

context map_store_laws
begin

text \<open>The paths of a binding are those the map holds for its connection, each once, in order.\<close>

lemma bound_paths_true:
  assumes wf: "wf_map ps" and ps: "map_of ps = paths_of T k"
  shows "sorted (map path_ids (sort_key path_ids (map bound_path_of (go_range ns ps))))"
    "distinct (map path_ids (sort_key path_ids (map bound_path_of (go_range ns ps))))"
    "\<lparr>bp_LocalID = l, bp_RemoteID = r, bp_Access = a\<rparr> \<in> set (sort_key path_ids (map bound_path_of (go_range ns ps))) \<longleftrightarrow>
       (\<exists>g. T \<lparr>pk_Conn = k, pk_LocalID = l, pk_RemoteID = r\<rparr> = Some \<lparr>path_Generation = g, path_Access = a\<rparr>)"
proof -
  let ?bs = "sort_key path_ids (map bound_path_of (go_range ns ps))"
  show "sorted (map path_ids ?bs)" by simp
  have entry: "(q, v) \<in> set ps \<longleftrightarrow> pk_Conn q = k \<and> T q = Some v" for q v
  proof -
    have "(q, v) \<in> set ps \<longleftrightarrow> map_of ps q = Some v" using wf by simp
    then show ?thesis unfolding ps by (auto simp: restrict_map_def)
  qed
  have inj: "inj_on (path_ids \<circ> bound_path_of) (set ps)"
  proof (rule inj_onI, clarify)
    fix q v q' v'
    assume h: "(q, v) \<in> set ps" "(q', v') \<in> set ps" "(path_ids \<circ> bound_path_of) (q, v) = (path_ids \<circ> bound_path_of) (q', v')"
    then have "q = q'" by (cases q, cases q') (simp add: path_ids_bound_path_of entry)
    then show "q = q' \<and> v = v'" using h by (simp add: entry)
  qed
  have "distinct ps" using wf by (simp add: distinct_map)
  then have "distinct (map path_ids (map bound_path_of (go_range ns ps)))"
    using inj inj_on_imageI [OF inj] inj_on_imageI2 [OF inj] by (simp add: distinct_map)
  moreover have "mset (map path_ids ?bs) = mset (map path_ids (map bound_path_of (go_range ns ps)))"
    by (simp add: multiset.map_comp)
  ultimately show "distinct (map path_ids ?bs)" by (metis mset_eq_imp_distinct_iff)
  have "\<lparr>bp_LocalID = l, bp_RemoteID = r, bp_Access = a\<rparr> \<in> set ?bs \<longleftrightarrow>
      (\<exists>q v. (q, v) \<in> set ps \<and> \<lparr>bp_LocalID = l, bp_RemoteID = r, bp_Access = a\<rparr> = bound_path_of (q, v))" by force
  also have "\<dots> \<longleftrightarrow> (\<exists>g. T \<lparr>pk_Conn = k, pk_LocalID = l, pk_RemoteID = r\<rparr> = Some \<lparr>path_Generation = g, path_Access = a\<rparr>)"
    unfolding entry
  proof
    assume "\<exists>q v. (pk_Conn q = k \<and> T q = Some v) \<and> \<lparr>bp_LocalID = l, bp_RemoteID = r, bp_Access = a\<rparr> = bound_path_of (q, v)"
    then obtain q v where q: "pk_Conn q = k" "T q = Some v" "\<lparr>bp_LocalID = l, bp_RemoteID = r, bp_Access = a\<rparr> = bound_path_of (q, v)"
      by blast
    then show "\<exists>g. T \<lparr>pk_Conn = k, pk_LocalID = l, pk_RemoteID = r\<rparr> = Some \<lparr>path_Generation = g, path_Access = a\<rparr>"
      by (cases q, cases v) (auto simp: bound_path_of_def)
  next
    assume "\<exists>g. T \<lparr>pk_Conn = k, pk_LocalID = l, pk_RemoteID = r\<rparr> = Some \<lparr>path_Generation = g, path_Access = a\<rparr>"
    then show "\<exists>q v. (pk_Conn q = k \<and> T q = Some v) \<and> \<lparr>bp_LocalID = l, bp_RemoteID = r, bp_Access = a\<rparr> = bound_path_of (q, v)"
      by (force simp: bound_path_of_def)
  qed
  finally show "\<lparr>bp_LocalID = l, bp_RemoteID = r, bp_Access = a\<rparr> \<in> set ?bs \<longleftrightarrow>
       (\<exists>g. T \<lparr>pk_Conn = k, pk_LocalID = l, pk_RemoteID = r\<rparr> = Some \<lparr>path_Generation = g, path_Access = a\<rparr>)" .
qed

lemma binding_of_true:
  assumes "binding_of s d desired token c w = (b, w')"
  shows "pol w' = pol w \<and> pth w' = pth w \<and> bs_Token b = token \<and> binding_true d desired (pol w) (pth w) b c"
proof -
  let ?k = "conn_of d token"
  obtain r w1 where l: "LookupPolicy s ?k w = (r, w1)" by force
  obtain g rd er where bp: "binding_policy desired c r = (g, rd, er)" by (metis prod.exhaust)
  obtain ps pe w2 where p: "Paths s ?k w1 = ((ps, pe), w2)" by (metis prod.exhaust)
  obtain ns w3 where o: "MapOrder s w2 = (ns, w3)" by force
  have fr: "pol w1 = pol w" "pth w1 = pth w" "pol w2 = pol w" "pth w2 = pth w" "pol w3 = pol w" "pth w3 = pth w"
    using LookupPolicy_frame [OF l] Paths_frame [OF p] MapOrder_frame [OF o] by simp_all
  have b: "b = \<lparr>bs_Token = token, bs_NetNSInode = d_netns d, bs_Generation = g, bs_Ready = rd \<and> pe = None,
      bs_Paths = sort_key path_ids (map bound_path_of (go_range ns ps)), bs_Error = (case pe of Some e \<Rightarrow> Some e | None \<Rightarrow> er)\<rparr>"
    and w': "w' = w3"
    using assms l bp p o by (simp_all add: binding_of_def Let_def)
  have ready: "\<exists>mp. pol w ?k = Some mp \<and> mp_Generation mp = cp_Generation (dc_assignment desired)"
    "er = None" "\<not> oc_closed c" "\<not> dc_deleting desired" if "rd"
    using that bp l LookupPolicy_found by (auto simp: binding_policy_def split: sum.splits)
  have paths: "wf_map ps" "map_of ps = paths_of (pth w) ?k" if "pe = None"
    using Paths_ok [of ?k w1 ps w2] p that fr by simp_all
  show ?thesis
    unfolding binding_true_def b w'
    using ready bound_paths_true [OF paths] fr by (cases pe) auto
qed

lemma bindings_of_true:
  assumes "bindings_of s d cid desired tokens w = (bs, w')"
  shows "pol w' = pol w \<and> pth w' = pth w \<and>
    map bs_Token bs = filter (\<lambda>t. \<exists>c. map_of (d_connections d) t = Some c \<and> oc_owner c = cid) tokens \<and>
    (\<forall>b \<in> set bs. \<exists>c. map_of (d_connections d) (bs_Token b) = Some c \<and> oc_owner c = cid \<and>
       binding_true d desired (pol w) (pth w) b c)"
  using assms
proof (induction tokens arbitrary: w bs w')
  case Nil
  then show ?case by simp
next
  case (Cons t ts)
  show ?case
  proof (cases "\<exists>c. map_of (d_connections d) t = Some c \<and> oc_owner c = cid")
    case False
    then have "bindings_of s d cid desired ts w = (bs, w')"
      using Cons.prems by (auto split: option.splits if_splits)
    from Cons.IH [OF this] False show ?thesis by simp
  next
    case True
    then obtain c where c: "map_of (d_connections d) t = Some c" "oc_owner c = cid" by blast
    obtain b w1 where b: "binding_of s d desired t c w = (b, w1)" by force
    obtain bs1 w2 where r: "bindings_of s d cid desired ts w1 = (bs1, w2)" by force
    have bs: "bs = b # bs1" "w' = w2" using Cons.prems c b r by (simp_all add: Let_def del: map_of_eq_Some_iff)
    note h = binding_of_true [OF b]
    from Cons.IH [OF r] h c True show ?thesis by (simp add: bs del: map_of_eq_Some_iff)
  qed
qed

lemma contexts_status_true:
  assumes "contexts_status s d cids w = (css, w')" "\<And>cid. cid \<in> set cids \<Longrightarrow> map_of (d_contexts d) cid \<noteq> None"
  shows "pol w' = pol w \<and> pth w' = pth w \<and> map cs_ID css = cids \<and>
    (\<forall>cs \<in> set css. \<exists>dc. map_of (d_contexts d) (cs_ID cs) = Some dc \<and>
       cs_Generation cs = cp_Generation (dc_assignment dc) \<and> cs_Deleting cs = dc_deleting dc \<and>
       map bs_Token (cs_Bindings cs) =
         filter (\<lambda>t. \<exists>c. map_of (d_connections d) t = Some c \<and> oc_owner c = cs_ID cs) (sort (map fst (d_connections d))) \<and>
       (\<forall>b \<in> set (cs_Bindings cs). \<exists>c. map_of (d_connections d) (bs_Token b) = Some c \<and> oc_owner c = cs_ID cs \<and>
          binding_true d dc (pol w) (pth w) b c))"
  using assms
proof (induction cids arbitrary: w css w')
  case Nil
  then show ?case by simp
next
  case (Cons cid cids)
  then obtain dc where dc: "map_of (d_contexts d) cid = Some dc" by fastforce
  obtain bs w1 where b: "bindings_of s d cid dc (sort (map fst (d_connections d))) w = (bs, w1)" by force
  obtain css1 w2 where r: "contexts_status s d cids w1 = (css1, w2)" by force
  let ?cs = "\<lparr>cs_ID = cid, cs_Generation = cp_Generation (dc_assignment dc), cs_Deleting = dc_deleting dc, cs_Bindings = bs\<rparr>"
  have css: "css = ?cs # css1" "w' = w2"
    using Cons.prems(1) dc b r by (simp_all add: context_status_of_def Let_def del: map_of_eq_Some_iff)
  note h = bindings_of_true [OF b]
  have "\<And>c. c \<in> set cids \<Longrightarrow> map_of (d_contexts d) c \<noteq> None" using Cons.prems(2) by simp
  from Cons.IH [OF r this] h dc show ?case by (simp add: css del: map_of_eq_Some_iff)
qed

lemma Daemon_Status_true:
  assumes st: "state_ok d" and run: "Daemon_Status s d w = (st, w')"
  shows "pol w' = pol w \<and> pth w' = pth w \<and> ds_ObservedConnections st = length (d_connections d) \<and>
    ds_Error st = d_fatal d \<and>
    (ds_Ready st \<longleftrightarrow> d_fatal d = None \<and> (\<forall>cs \<in> set (ds_Contexts st). \<forall>b \<in> set (cs_Bindings cs). bs_Error b = None)) \<and>
    map cs_ID (ds_Contexts st) = sort (map fst (d_contexts d)) \<and>
    (\<forall>cs \<in> set (ds_Contexts st). \<exists>dc. map_of (d_contexts d) (cs_ID cs) = Some dc \<and>
       cs_Generation cs = cp_Generation (dc_assignment dc) \<and> cs_Deleting cs = dc_deleting dc \<and>
       map bs_Token (cs_Bindings cs) =
         filter (\<lambda>t. \<exists>c. map_of (d_connections d) t = Some c \<and> oc_owner c = cs_ID cs) (sort (map fst (d_connections d))) \<and>
       (\<forall>b \<in> set (cs_Bindings cs). \<exists>c. map_of (d_connections d) (bs_Token b) = Some c \<and> oc_owner c = cs_ID cs \<and>
          binding_true d dc (pol w) (pth w) b c))"
proof -
  obtain css w1 where c: "contexts_status s d (sort (map fst (d_contexts d))) w = (css, w1)" by force
  have dom: "map_of (d_contexts d) cid \<noteq> None" if "cid \<in> set (sort (map fst (d_contexts d)))" for cid
    using that by (simp add: map_of_eq_None_iff)
  show ?thesis
    using contexts_status_true [OF c dom] run c by (auto simp: Daemon_Status_def Let_def list_all_iff)
qed

end

end
