(* ===== verification/HistoryProperties.thy ===== *)
theory HistoryProperties
  imports DaemonHistory DaemonStatus
begin

text \<open>
  The properties of the daemon's operations over time: what a request to it can come to, how a
  context evolves, that an observed event is kept whatever the store answers, that a lost event
  stream stays fatal, and that the status report tells the truth about the kernel's maps.
\<close>

section \<open>The tables\<close>

text \<open>
  C15: in every reachable state the tables are well typed: contexts are keyed by their own identifier,
  hold an accepted assignment in canonical form and share no flow; connections are keyed by the
  token of every event recorded for them, flows by their own key; an owner is a held context.
\<close>

theorem daemon_well_formed:
  assumes "daemon_laws s pol pth" "daemon_reach s pol pth n d w"
  shows "d_netns d = n \<and> distinct (map fst (d_contexts d)) \<and> distinct (map fst (d_connections d)) \<and>
    distinct (map (\<lambda>(cid, dc). cp_Flow (cp_ContextSpec (dc_assignment dc))) (d_contexts d)) \<and>
    (\<forall>(cid, dc) \<in> set (d_contexts d). cp_ID (cp_ContextSpec (dc_assignment dc)) = cid \<and>
       (\<exists>a. Assignment_Validate a = None \<and> dc_assignment dc = canonical a)) \<and>
    (\<forall>(t, c) \<in> set (d_connections d). recorded_ok t c \<and> distinct (map fst (oc_flows c)) \<and>
       (oc_owner c = [] \<or> oc_owner c \<in> fst ` set (d_contexts d)))"
proof -
  have inv: "daemon_inv d (pol w) (pth w)" and n: "d_netns d = n" using daemon_laws.reach_inv [OF assms] by simp_all
  note ctx = inv_contexts [OF inv, unfolded contexts_ok_def]
  have wf: "wf_map (d_contexts d)" "wf_map (d_connections d)" using inv ctx by (simp_all add: daemon_inv_def state_ok_def)
  have "inj_on (\<lambda>(cid, dc). cp_Flow (cp_ContextSpec (dc_assignment dc))) (set (d_contexts d))"
  proof (rule inj_onI)
    fix x y
    assume xy: "x \<in> set (d_contexts d)" "y \<in> set (d_contexts d)"
      "(case x of (cid, dc) \<Rightarrow> cp_Flow (cp_ContextSpec (dc_assignment dc))) =
       (case y of (cid, dc) \<Rightarrow> cp_Flow (cp_ContextSpec (dc_assignment dc)))"
    obtain c1 dc1 c2 dc2 where p: "x = (c1, dc1)" "y = (c2, dc2)" by (metis prod.exhaust)
    with xy ctx wf(1) have "c1 = c2" by simp
    with xy(1,2) p show "x = y" using eq_key_imp_eq_value [OF wf(1)] by blast
  qed
  then have flows: "distinct (map (\<lambda>(cid, dc). cp_Flow (cp_ContextSpec (dc_assignment dc))) (d_contexts d))"
    using wf(1) by (simp add: distinct_map)
  have held: "context_ok cid dc" if "(cid, dc) \<in> set (d_contexts d)" for cid dc
    using that ctx wf(1) by simp
  have conns: "recorded_ok t c \<and> distinct (map fst (oc_flows c)) \<and> (oc_owner c = [] \<or> oc_owner c \<in> fst ` set (d_contexts d))"
    if "(t, c) \<in> set (d_connections d)" for t c
  proof -
    have c: "map_of (d_connections d) t = Some c" using that wf(2) by simp
    with daemon_laws.reach_events [OF assms] inv_connection [OF inv c] show ?thesis
      by (auto simp: events_ok_def connection_ok_def map_of_eq_None_iff simp del: map_of_eq_Some_iff)
  qed
  show ?thesis using n wf flows held conns by (auto simp: context_ok_def)
qed

lemma daemon_well_formed_witness:
  "recorded_ok 7 (the (map_of (d_connections ex_daemon) 7))"
proof -
  obtain c where c: "(7, c) \<in> set (d_connections ex_daemon)" "map_of (d_connections ex_daemon) 7 = Some c"
    by (simp add: ex_daemon_def)
  then show ?thesis using daemon_well_formed [OF bpf_env_laws ex_bound_reach] by auto
qed

section \<open>Requests\<close>

text \<open>
  C14: an assignment is refused with nothing changed, refused for good after a fatal error, or held in
  its canonical spelling; when it is held, the other contexts are those that were there before, and
  only contexts being deleted can have gone.
\<close>

theorem put_outcome:
  assumes "daemon_laws s pol pth" "daemon_reach s pol pth n d w" "Daemon_Put s a d w = (r, d', w')"
  shows "(\<exists>e. r = Err (rejectAssignment e) \<and> d' = d \<and> pol w' = pol w \<and> pth w' = pth w) \<or>
    (\<exists>e. d_fatal d = Some e \<and> r = Err e \<and> d' = d \<and> w' = w) \<or>
    (d_fatal d = None \<and> Assignment_Validate a = None \<and>
      map_of (d_contexts d') (cp_ID (cp_ContextSpec a)) = Some \<lparr>dc_assignment = canonical a, dc_deleting = False\<rparr> \<and>
      (\<forall>cid. cid = cp_ID (cp_ContextSpec a) \<or> map_of (d_contexts d') cid = map_of (d_contexts d) cid \<or>
         (\<exists>dc. map_of (d_contexts d) cid = Some dc \<and> dc_deleting dc \<and> map_of (d_contexts d') cid = None)))"
proof -
  have inv: "daemon_inv d (pol w) (pth w)" using daemon_laws.reach_inv [OF assms(1,2)] by simp
  show ?thesis
  proof (rule daemon_laws.Daemon_Put_cases [OF assms(1) inv assms(3)], goal_cases)
    case (4 w1 d1)
    have "d_contexts d1 = go_set (cp_ID (cp_ContextSpec a)) \<lparr>dc_assignment = canonical a, dc_deleting = False\<rparr> (d_contexts d)"
      by (simp add: 4(4))
    from swept_set [OF daemon_laws.reconcileLocked_tables(1) [OF assms(1) 4(5,6), unfolded this]] 4(1,2)
    show ?thesis by (auto simp: swept_at_def simp del: map_of_eq_Some_iff)
  qed blast+
qed

lemma put_outcome_witness:
  "map_of (d_contexts (fst (snd (Daemon_Put (bpf_env ex_ifs) (ex_assignment ''ctx2'' 8443 1) ex_daemon ex_bound)))) ''ctx2'' =
    Some \<lparr>dc_assignment = canonical (ex_assignment ''ctx2'' 8443 1), dc_deleting = False\<rparr>"
proof -
  let ?a = "ex_assignment ''ctx2'' 8443 1"
  obtain r d' w' where run: "Daemon_Put (bpf_env ex_ifs) ?a ex_daemon ex_bound = (r, d', w')" by (metis prod.exhaust)
  have "length (d_contexts (fst (snd (Daemon_Put (bpf_env ex_ifs) ?a ex_daemon ex_bound)))) = 2" by code_simp
  then have "d' \<noteq> ex_daemon" using run by (auto simp: ex_daemon_def)
  with put_outcome [OF bpf_env_laws ex_bound_reach run] show ?thesis
    unfolding run by (auto simp: ex_assignment_def)
qed

section \<open>Contexts over time\<close>

text \<open>
  C16: in one operation a held context keeps its flow, its DNN and its legs, its generation does not
  fall and stands for one policy, and a deletion that was asked for is not taken back; a context
  appears only by an accepted assignment and disappears only by a deletion.
\<close>

theorem context_history:
  assumes "daemon_laws s pol pth" "daemon_reach s pol pth n d w" "run_command s cmd d w = (r, d', w')"
  shows "case (map_of (d_contexts d) cid, map_of (d_contexts d') cid) of
      (Some dc, Some dc') \<Rightarrow>
        cp_ContextSpec (dc_assignment dc') = cp_ContextSpec (dc_assignment dc) \<and>
        (dc_assignment dc' = dc_assignment dc \<or> cp_Generation (dc_assignment dc) < cp_Generation (dc_assignment dc')) \<and>
        (dc_deleting dc \<longrightarrow> dc_deleting dc')
    | (Some dc, None) \<Rightarrow> dc_deleting dc \<or> cmd = CDelete cid
    | (None, Some dc') \<Rightarrow> \<exists>a. cmd = CPut a \<and> Assignment_Validate a = None \<and> cp_ID (cp_ContextSpec a) = cid \<and>
        dc' = \<lparr>dc_assignment = canonical a, dc_deleting = False\<rparr>
    | (None, None) \<Rightarrow> True"
proof -
  have inv: "daemon_inv d (pol w) (pth w)" using daemon_laws.reach_inv [OF assms(1,2)] by simp
  have here: ?thesis if "swept_at (d_contexts d) (d_contexts d') cid"
    using that unfolding swept_at_def by (elim disjE) (auto split: option.splits)
  show ?thesis
  proof (cases cmd)
    case (CPut a)
    then have run: "Daemon_Put s a d w = (r, d', w')" using assms(3) by simp
    from daemon_laws.Daemon_Put_contexts [OF assms(1) inv run, of cid] show ?thesis
    proof (elim disjE conjE)
      assume new: "cid = cp_ID (cp_ContextSpec a)" "Assignment_Validate a = None" "admission_error d (canonical a) = None"
        "map_of (d_contexts d') cid = Some \<lparr>dc_assignment = canonical a, dc_deleting = False\<rparr>"
      show ?thesis
        using admission_None(2) [OF new(3)] new CPut
        by (cases "map_of (d_contexts d) cid") (auto simp del: map_of_eq_Some_iff)
    qed (rule here)
  next
    case (CDelete c)
    then have run: "Daemon_Delete s c d w = (r, d', w')" using assms(3) by simp
    from daemon_laws.Daemon_Delete_contexts [OF assms(1) inv run, of cid] show ?thesis
      by (elim disjE conjE exE) (rule here, simp_all add: CDelete del: map_of_eq_Some_iff)
  next
    case (CObserve e)
    then show ?thesis
      using daemon_laws.Daemon_Observe_contexts [OF assms(1) inv, of e r d' w'] assms(3) here by (simp add: swept_def)
  next
    case CRetry
    then show ?thesis
      using daemon_laws.reconcileLocked_tables(1) [OF assms(1) inv, of r d' w'] assms(3) here
      by (simp add: Daemon_Retry_def swept_def)
  next
    case (CFail e)
    then have "d_contexts d' = d_contexts d" using assms(3) by auto
    then show ?thesis by (intro here) (simp add: swept_at_def)
  qed
qed

lemma context_history_witness:
  "map_of (d_contexts (fst (snd (run_command (bpf_env ex_ifs) (CPut (ex_assignment ''ctx1'' 9443 9)) ex_daemon ex_bound)))) ''ctx1'' =
    map_of (d_contexts ex_daemon) ''ctx1''"
proof -
  let ?cmd = "CPut (ex_assignment ''ctx1'' 9443 9)"
  obtain r d' w' where run: "run_command (bpf_env ex_ifs) ?cmd ex_daemon ex_bound = (r, d', w')" by (metis prod.exhaust)
  have g: "map_option (\<lambda>dc. cp_Generation (dc_assignment dc)) (map_of (d_contexts (fst (snd (run_command (bpf_env ex_ifs) ?cmd
      ex_daemon ex_bound)))) ''ctx1'') = Some 1"
    "map_option dc_deleting (map_of (d_contexts (fst (snd (run_command (bpf_env ex_ifs) ?cmd ex_daemon ex_bound)))) ''ctx1'') = Some False"
    by code_simp+
  then obtain dc' where dc': "map_of (d_contexts d') ''ctx1'' = Some dc'" "cp_Generation (dc_assignment dc') = 1" "\<not> dc_deleting dc'"
    unfolding run by auto
  have dc: "map_of (d_contexts ex_daemon) ''ctx1'' = Some \<lparr>dc_assignment = ex_assignment ''ctx1'' 443 1, dc_deleting = False\<rparr>"
    by (simp add: ex_daemon_def)
  from context_history [OF bpf_env_laws ex_bound_reach run, of "''ctx1''"] dc dc'
  have "dc_assignment dc' = ex_assignment ''ctx1'' 443 1" by (auto simp: ex_assignment_def simp del: map_of_eq_Some_iff)
  then have "dc' = \<lparr>dc_assignment = ex_assignment ''ctx1'' 443 1, dc_deleting = False\<rparr>" using dc'(3) by (cases dc') simp
  then show ?thesis unfolding run using dc dc'(1) by simp
qed

section \<open>Observations\<close>

lemma recorded:
  assumes "record_initial e c = Inr c1" "record_flow e c1 = Inr c2"
  shows "map_of (oc_flows c2) (eventFlow e) = (if ev_Type e = EventSubClosed then None else Some e)" "\<not> oc_closed c2"
    "ev_Type e = EventEstablished \<Longrightarrow> oc_initial c2 = Some e"
  using assms by (auto simp: record_initial_def record_flow_def split: if_splits)

text \<open>
  C17: an event the daemon accepts is never lost, whatever the store answers: after an established
  event the flow is recorded with it, after a subflow's end it is not, and after the end of the
  connection the connection is closed or forgotten.
\<close>

theorem observe_keeps_event:
  assumes "daemon_laws s pol pth" "daemon_reach s pol pth n d w" "Daemon_Observe s e d w = (Ok (), d', w')"
  shows "case map_of (d_connections d') (ev_Token e) of
      None \<Rightarrow> ev_Type e \<noteq> EventEstablished \<and> ev_Type e \<noteq> EventSubEstablished
    | Some c \<Rightarrow>
        (ev_Type e = EventEstablished \<longrightarrow> oc_initial c = Some e) \<and>
        (ev_Type e = EventEstablished \<or> ev_Type e = EventSubEstablished \<longrightarrow>
           map_of (oc_flows c) (eventFlow e) = Some e \<and> \<not> oc_closed c) \<and>
        (ev_Type e = EventSubClosed \<longrightarrow> map_of (oc_flows c) (eventFlow e) = None) \<and>
        (ev_Type e = EventClosed \<longrightarrow> oc_closed c)"
proof -
  let ?t = "ev_Token e"
  have inv: "daemon_inv d (pol w) (pth w)" using daemon_laws.reach_inv [OF assms(1,2)] by simp
  note types = EventEstablished_def EventSubEstablished_def EventSubClosed_def EventClosed_def
  show ?thesis
  proof (rule daemon_laws.Daemon_Observe_cases [OF assms(1) inv assms(3)], goal_cases)
    case 1
    then show ?thesis by (auto simp: observed_type_def types split: option.split)
  next
    case (3 d1)
    have "oc_closed c'" if "map_of (d_connections d') ?t = Some c'" for c'
      using observations_kept_origin [OF daemon_laws.reconcile_ignored_tables(2) [OF assms(1) 3(3,4)] that] 3(2)
      by (auto simp: same_observation_def set_connection_def split: option.splits)
    then show ?thesis using 3(1) by (simp add: types split: option.split)
  next
    case (4 c)
    from daemon_laws.observe_open_contexts [OF assms(1) inv 4(4-6)] obtain c1 c2 c'
      where c1: "record_initial e c = Inr c1" and c2: "record_flow e c1 = Inr c2"
        and c': "map_of (d_connections d') ?t = Some c'" "same_observation c2 c'" by blast
    from recorded [OF c1 c2] c' 4(2) show ?thesis by (simp add: same_observation_def types del: map_of_eq_Some_iff)
  qed simp
qed

text \<open>The event arrives while every call on the maps fails.\<close>

lemma observe_keeps_event_witness:
  "map_option (\<lambda>c. map_of (oc_flows c) (eventFlow (ex_event 2 8 0)))
     (map_of (d_connections (fst (snd (Daemon_Observe (bpf_env ex_ifs) (ex_event 2 8 0) ex_daemon
        (ex_bound\<lparr>bw_faults := replicate 20 (Some 5)\<rparr>))))) 8) = Some (Some (ex_event 2 8 0))"
proof -
  let ?w = "ex_bound\<lparr>bw_faults := replicate 20 (Some 5)\<rparr>" and ?e = "ex_event 2 8 0"
  have "namespace_same ex_netns (policies ex_bound) (paths ex_bound) (policies ?w) (paths ?w)"
    by (simp add: namespace_same_def policies_def paths_def)
  from daemon_reach.other_writers [OF ex_bound_reach this]
  have reach: "daemon_reach (bpf_env ex_ifs) policies paths ex_netns ex_daemon ?w" .
  obtain r d' w' where run: "Daemon_Observe (bpf_env ex_ifs) ?e ex_daemon ?w = (r, d', w')" by (metis prod.exhaust)
  have "fst (Daemon_Observe (bpf_env ex_ifs) ?e ex_daemon ?w) = Ok ()" by code_simp
  then have r: "Daemon_Observe (bpf_env ex_ifs) ?e ex_daemon ?w = (Ok (), d', w')" using run by simp
  from observe_keeps_event [OF bpf_env_laws reach r]
  show ?thesis unfolding run
    by (auto simp: ex_event_def EventEstablished_def split: option.splits simp del: map_of_eq_Some_iff)
qed

context daemon_laws
begin

lemma run_command_fatal:
  assumes inv: "daemon_inv d (pol w) (pth w)" and fatal: "d_fatal d = Some f"
    and run: "run_command s cmd d w = (r, d', w')"
  shows "(\<exists>g. d_fatal d' = Some g \<and> (g = f \<or> cmd = CFail g)) \<and>
    (case cmd of
       CPut a \<Rightarrow> (\<exists>e. r = Err e) \<and> d' = d \<and> w' = w
     | CObserve e \<Rightarrow> d' = d \<and> w' = w \<and> (observed_type (ev_Type e) = (r = Err f))
     | _ \<Rightarrow> True)"
proof (cases cmd)
  case (CPut a)
  then show ?thesis using fatal run
    by (cases "Assignment_Validate a") (auto simp: Daemon_Put_def Let_def)
next
  case (CDelete c)
  then have "Daemon_Delete s c d w = (r, d', w')" using run by simp
  then show ?thesis
  proof (rule Daemon_Delete_tables [OF inv], goal_cases)
    case (1 d1)
    have "d_fatal d' = d_fatal d1" by (rule reconcileLocked_tables(3) [OF 1(1,2)])
    moreover have "d_fatal d1 = d_fatal d" using 1(3) by auto
    ultimately show ?thesis using fatal CDelete by simp
  qed
next
  case (CObserve e)
  then show ?thesis using fatal run by (auto simp: Daemon_Observe_def observed_type_def split: if_splits)
next
  case CRetry
  then show ?thesis
    using reconcileLocked_tables(3) [OF inv, of r d' w'] fatal run by (simp add: Daemon_Retry_def)
next
  case (CFail e)
  then show ?thesis using run by (auto simp: Daemon_Fail_def)
qed

end

text \<open>
  C19: after the event stream is lost the daemon stays failed: no operation but another failure changes
  the fatal error, and as long as it is set no assignment is taken and no event recorded.
\<close>

theorem fatal_is_sticky:
  assumes "daemon_laws s pol pth" "daemon_reach s pol pth n d w" "d_fatal d = Some f"
    and "run_command s cmd d w = (r, d', w')"
  shows "(\<exists>g. d_fatal d' = Some g \<and> (g = f \<or> cmd = CFail g)) \<and>
    (case cmd of
       CPut a \<Rightarrow> r \<noteq> Ok () \<and> d' = d \<and> w' = w
     | CObserve e \<Rightarrow> d' = d \<and> w' = w \<and> (observed_type (ev_Type e) = (r = Err f))
     | _ \<Rightarrow> True)"
  using daemon_laws.run_command_fatal [OF assms(1) _ assms(3,4)] daemon_laws.reach_inv [OF assms(1,2)]
  by (auto split: daemon_command.splits)

lemma fatal_is_sticky_witness:
  "run_command (bpf_env ex_ifs) (CPut (ex_assignment ''ctx2'' 8443 1)) (Daemon_Fail (Some (Errno 105)) ex_daemon) ex_bound
    = (Err (Errno 105), Daemon_Fail (Some (Errno 105)) ex_daemon, ex_bound)"
proof -
  let ?d = "Daemon_Fail (Some (Errno 105)) ex_daemon" and ?cmd = "CPut (ex_assignment ''ctx2'' 8443 1)"
  have "run_command (bpf_env ex_ifs) (CFail (Errno 105)) ex_daemon ex_bound = (Ok (), ?d, ex_bound)" by simp
  from daemon_reach.command [OF ex_bound_reach this]
  have reach: "daemon_reach (bpf_env ex_ifs) policies paths ex_netns ?d ex_bound" .
  obtain r d' w' where run: "run_command (bpf_env ex_ifs) ?cmd ?d ex_bound = (r, d', w')" by (metis prod.exhaust)
  have "fst (run_command (bpf_env ex_ifs) ?cmd ?d ex_bound) = Err (Errno 105)" by code_simp
  with fatal_is_sticky [OF bpf_env_laws reach _ run, of "Errno 105"] show ?thesis
    unfolding run by (simp add: Daemon_Fail_def)
qed

section \<open>The status report\<close>

text \<open>
  C18: the report changes nothing and is complete and sorted whatever the order of the maps. A binding
  reported ready belongs to an open connection of a context that is not being deleted, and the
  kernel holds exactly the policy of that context's assignment; the paths of a binding without error
  are exactly the kernel's, in the order of their identifiers.
\<close>

theorem status_truth:
  assumes "daemon_laws s pol pth" "daemon_reach s pol pth n d w" "Daemon_Status s d w = (st, w')"
  shows "pol w' = pol w \<and> pth w' = pth w \<and> map cs_ID (ds_Contexts st) = sort (map fst (d_contexts d)) \<and>
    (\<forall>cs \<in> set (ds_Contexts st). \<exists>dc. map_of (d_contexts d) (cs_ID cs) = Some dc \<and>
       map bs_Token (cs_Bindings cs) =
         filter (\<lambda>t. \<exists>c. map_of (d_connections d) t = Some c \<and> oc_owner c = cs_ID cs) (sort (map fst (d_connections d))) \<and>
       (\<forall>b \<in> set (cs_Bindings cs).
          (bs_Ready b \<longrightarrow> \<not> dc_deleting dc \<and> pol w (conn_of d (bs_Token b)) = Some (assigned_policy (dc_assignment dc)) \<and>
             (\<exists>c. map_of (d_connections d) (bs_Token b) = Some c \<and> \<not> oc_closed c)) \<and>
          (bs_Error b = None \<longrightarrow> sorted (map path_ids (bs_Paths b)) \<and>
             (\<forall>l r a. \<lparr>bp_LocalID = l, bp_RemoteID = r, bp_Access = a\<rparr> \<in> set (bs_Paths b) \<longleftrightarrow>
                (\<exists>g. pth w \<lparr>pk_Conn = conn_of d (bs_Token b), pk_LocalID = l, pk_RemoteID = r\<rparr> =
                   Some \<lparr>path_Generation = g, path_Access = a\<rparr>)))))"
proof -
  have inv: "daemon_inv d (pol w) (pth w)" using daemon_laws.reach_inv [OF assms(1,2)] by simp
  have st: "state_ok d" using inv by (simp add: daemon_inv_def)
  have laws: "map_store_laws s pol pth" using assms(1) by (simp add: daemon_laws_def)
  note r = map_store_laws.Daemon_Status_true [OF laws st assms(3)]
  have entry: "(bs_Ready b \<longrightarrow> \<not> dc_deleting dc \<and> pol w (conn_of d (bs_Token b)) = Some (assigned_policy (dc_assignment dc)) \<and>
         (\<exists>c. map_of (d_connections d) (bs_Token b) = Some c \<and> \<not> oc_closed c)) \<and>
      (bs_Error b = None \<longrightarrow> sorted (map path_ids (bs_Paths b)) \<and>
         (\<forall>l r a. \<lparr>bp_LocalID = l, bp_RemoteID = r, bp_Access = a\<rparr> \<in> set (bs_Paths b) \<longleftrightarrow>
            (\<exists>g. pth w \<lparr>pk_Conn = conn_of d (bs_Token b), pk_LocalID = l, pk_RemoteID = r\<rparr> =
               Some \<lparr>path_Generation = g, path_Access = a\<rparr>)))"
    if c: "map_of (d_connections d) (bs_Token b) = Some c" "map_of (d_contexts d) (oc_owner c) = Some dc"
      and tr: "binding_true d dc (pol w) (pth w) b c" for b c dc
  proof -
    have "mp = assigned_policy (dc_assignment dc)"
      if "pol w (conn_of d (bs_Token b)) = Some mp" "mp_Generation mp = cp_Generation (dc_assignment dc)" for mp
      using inv_follows [OF inv c that(1)] that(2) by (simp add: policy_follows_def)
    then have "bs_Ready b \<longrightarrow> \<not> dc_deleting dc \<and> pol w (conn_of d (bs_Token b)) = Some (assigned_policy (dc_assignment dc)) \<and>
         (\<exists>c. map_of (d_connections d) (bs_Token b) = Some c \<and> \<not> oc_closed c)"
      using tr c(1) unfolding binding_true_def by blast
    with tr show ?thesis unfolding binding_true_def by blast
  qed
  show ?thesis
  proof (intro conjI ballI, goal_cases)
    case (4 cs)
    with r obtain dc where dc: "map_of (d_contexts d) (cs_ID cs) = Some dc"
      and toks: "map bs_Token (cs_Bindings cs) =
         filter (\<lambda>t. \<exists>c. map_of (d_connections d) t = Some c \<and> oc_owner c = cs_ID cs) (sort (map fst (d_connections d)))"
      and bs: "\<forall>b \<in> set (cs_Bindings cs). \<exists>c. map_of (d_connections d) (bs_Token b) = Some c \<and> oc_owner c = cs_ID cs \<and>
          binding_true d dc (pol w) (pth w) b c"
      by blast
    show ?case
    proof (rule exI [of _ dc], rule conjI [OF dc], rule conjI [OF toks], rule ballI, goal_cases)
      case (1 b)
      with bs obtain c where c: "map_of (d_connections d) (bs_Token b) = Some c" "oc_owner c = cs_ID cs"
        and tr: "binding_true d dc (pol w) (pth w) b c" by blast
      show ?case by (rule entry [OF c(1) _ tr]) (simp only: c(2) dc)
    qed
  qed (use r in simp_all)
qed

lemma status_truth_witness:
  "map cs_ID (ds_Contexts (fst (Daemon_Status (bpf_env ex_ifs) ex_daemon ex_bound))) = [''ctx1''] \<and>
   map (map bs_Ready \<circ> cs_Bindings) (ds_Contexts (fst (Daemon_Status (bpf_env ex_ifs) ex_daemon ex_bound))) = [[True]] \<and>
   policies ex_bound (conn_of ex_daemon 7) = Some (assigned_policy (ex_assignment ''ctx1'' 443 1))"
proof -
  obtain st w' where st: "Daemon_Status (bpf_env ex_ifs) ex_daemon ex_bound = (st, w')" by force
  have v: "map (\<lambda>cs. map (\<lambda>b. (bs_Token b, bs_Ready b)) (cs_Bindings cs))
      (ds_Contexts (fst (Daemon_Status (bpf_env ex_ifs) ex_daemon ex_bound))) = [[(7, True)]]" by code_simp
  note t = status_truth [OF bpf_env_laws ex_bound_reach st]
  then have ids: "map cs_ID (ds_Contexts st) = [''ctx1'']" by (simp add: ex_daemon_def)
  then obtain cs where cs: "ds_Contexts st = [cs]" "cs_ID cs = ''ctx1''" by auto
  with v st obtain b where b: "cs_Bindings cs = [b]" "bs_Token b = 7" "bs_Ready b" by auto
  have "map_of (d_contexts ex_daemon) ''ctx1'' = Some \<lparr>dc_assignment = ex_assignment ''ctx1'' 443 1, dc_deleting = False\<rparr>"
    by (simp add: ex_daemon_def)
  with t cs b have "policies ex_bound (conn_of ex_daemon 7) = Some (assigned_policy (ex_assignment ''ctx1'' 443 1))"
    by (auto simp del: map_of_eq_Some_iff)
  with st cs b ids show ?thesis by simp
qed

end
