(* ===== verification/HttpApi.thy ===== *)
theory HttpApi
  imports DaemonHistory DaemonStatus
begin

text \<open>
  The HTTP handler of \<open>dualsteer-agent/serve.go\<close>. Routing by \<open>http.ServeMux\<close> and the decoding of the
  body belong to the library: a request carries the route it matched, its path value and what the
  two calls of the JSON decoder returned. Between the two critical sections of a \<open>PUT\<close> other
  requests and events may be served, which is the parameter \<open>between\<close>.
\<close>

section \<open>Requests and responses\<close>

text \<open>What \<open>dec.Decode(&a)\<close> and then \<open>dec.Decode(&extra)\<close> return.\<close>

record put_body =
  pb_First :: "go_error + cp_assignment"
  pb_Second :: "go_error option"

datatype http_request =
    GetStatus
  | GetContext string
  | PutContext string put_body
  | DeleteContext string

datatype reply_body =
    StatusBody daemon_status
  | ContextBody context_status
  | DeletedBody
  | ErrorBody

record http_response =
  hr_Code :: nat
  hr_Body :: reply_body

definition StatusOK :: nat where "StatusOK = 200"
definition StatusAccepted :: nat where "StatusAccepted = 202"
definition StatusBadRequest :: nat where "StatusBadRequest = 400"
definition StatusNotFound :: nat where "StatusNotFound = 404"
definition StatusConflict :: nat where "StatusConflict = 409"
definition StatusServiceUnavailable :: nat where "StatusServiceUnavailable = 503"

definition respond :: "nat \<Rightarrow> reply_body \<Rightarrow> http_response" where
  "respond code body = \<lparr>hr_Code = code, hr_Body = body\<rparr>"

section \<open>The handler\<close>

definition zero_context :: context_status where
  "zero_context = \<lparr>cs_ID = [], cs_Generation = 0, cs_Deleting = False, cs_Bindings = []\<rparr>"

definition contextStatus :: "('w, 'z) runtime_scheme \<Rightarrow> string \<Rightarrow> daemon \<Rightarrow> 'w \<Rightarrow> (context_status \<times> bool) \<times> 'w" where
  "contextStatus s cid d w =
     (let (st, w1) = Daemon_Status s d w in
      case find (\<lambda>c. cs_ID c = cid) (ds_Contexts st) of
        Some c \<Rightarrow> ((c, True), w1)
      | None \<Rightarrow> ((zero_context, False), w1))"

definition put_error_code :: "go_error \<Rightarrow> nat" where
  "put_error_code e = (if errors_Is e ErrAssignmentRejected then StatusConflict else StatusServiceUnavailable)"

definition put_check :: "string \<Rightarrow> put_body \<Rightarrow> cp_assignment option" where
  "put_check cid body =
     (case pb_First body of
        Inl e \<Rightarrow> None
      | Inr a \<Rightarrow>
          if (case pb_Second body of None \<Rightarrow> True | Some e \<Rightarrow> \<not> errors_Is e io_EOF) then None
          else if cp_ID (cp_ContextSpec a) \<noteq> cid then None
          else if Assignment_Validate a \<noteq> None then None
          else Some a)"

definition handle_put :: "('w, 'z) daemon_env_scheme \<Rightarrow> (daemon \<times> 'w \<Rightarrow> daemon \<times> 'w) \<Rightarrow> string \<Rightarrow> put_body \<Rightarrow> daemon \<Rightarrow> 'w \<Rightarrow>
    http_response outcome \<times> daemon \<times> 'w" where
  "handle_put s between cid body d w =
     (case put_check cid body of
        None \<Rightarrow> (Ok (respond StatusBadRequest ErrorBody), d, w)
      | Some a \<Rightarrow>
          (case Daemon_Put s a d w of
             (Panic, d1, w1) \<Rightarrow> (Panic, d1, w1)
           | (Err e, d1, w1) \<Rightarrow> (Ok (respond (put_error_code e) ErrorBody), d1, w1)
           | (Ok _, d1, w1) \<Rightarrow>
               let (d2, w2) = between (d1, w1); ((c, ok), w3) = contextStatus s (cp_ID (cp_ContextSpec a)) d2 w2
               in (Ok (respond StatusAccepted (ContextBody c)), d2, w3)))"

fun Handler :: "('w, 'z) daemon_env_scheme \<Rightarrow> (daemon \<times> 'w \<Rightarrow> daemon \<times> 'w) \<Rightarrow> http_request \<Rightarrow> daemon \<Rightarrow> 'w \<Rightarrow>
    http_response outcome \<times> daemon \<times> 'w" where
  "Handler s between GetStatus d w =
     (let (st, w1) = Daemon_Status s d w in (Ok (respond StatusOK (StatusBody st)), d, w1))"
| "Handler s between (GetContext cid) d w =
     (let ((c, ok), w1) = contextStatus s cid d w in
      if \<not> ok then (Ok (respond StatusNotFound ErrorBody), d, w1)
      else (Ok (respond StatusOK (ContextBody c)), d, w1))"
| "Handler s between (PutContext cid body) d w = handle_put s between cid body d w"
| "Handler s between (DeleteContext cid) d w =
     (case Daemon_Delete s cid d w of
        (Panic, d1, w1) \<Rightarrow> (Panic, d1, w1)
      | (Err e, d1, w1) \<Rightarrow> (Ok (respond StatusServiceUnavailable ErrorBody), d1, w1)
      | (Ok _, d1, w1) \<Rightarrow> (Ok (respond StatusOK DeletedBody), d1, w1))"

section \<open>A request is a sequence of operations\<close>

context daemon_laws
begin

lemma reach_state: "daemon_reach s pol pth n d w \<Longrightarrow> daemon_inv d (pol w) (pth w)"
  using reach_inv by blast

lemma Status_reach:
  assumes "daemon_reach s pol pth n d w" "Daemon_Status s d w = (st, w')"
  shows "daemon_reach s pol pth n d w' \<and> pol w' = pol w \<and> pth w' = pth w"
proof -
  have "state_ok d" using reach_state [OF assms(1)] by (simp add: daemon_inv_def)
  from Daemon_Status_true [OF this assms(2)] have "pol w' = pol w" "pth w' = pth w" by simp_all
  then show ?thesis using daemon_reach.other_writers [OF assms(1), of w'] by (simp add: namespace_same_def)
qed

lemma contextStatus_reach:
  assumes "daemon_reach s pol pth n d w" "contextStatus s cid d w = (r, w')"
  shows "daemon_reach s pol pth n d w' \<and> pol w' = pol w \<and> pth w' = pth w"
proof -
  obtain st w1 where st: "Daemon_Status s d w = (st, w1)" by force
  then have "w' = w1" using assms(2) by (auto simp: contextStatus_def split: option.splits)
  then show ?thesis using Status_reach [OF assms(1) st] by simp
qed

text \<open>A context is found exactly when it is held.\<close>

lemma contextStatus_found:
  assumes reach: "daemon_reach s pol pth n d w" and run: "contextStatus s cid d w = ((c, ok), w')"
  shows "ok \<longleftrightarrow> map_of (d_contexts d) cid \<noteq> None"
    and "map_of (d_contexts d) cid = Some dc \<Longrightarrow> cs_ID c = cid \<and>
      cs_Generation c = cp_Generation (dc_assignment dc) \<and> cs_Deleting c = dc_deleting dc"
proof -
  obtain st w1 where st: "Daemon_Status s d w = (st, w1)" by force
  have "state_ok d" using reach_state [OF reach] by (simp add: daemon_inv_def)
  note t = Daemon_Status_true [OF this st]
  then have ids: "cs_ID ` set (ds_Contexts st) = dom (map_of (d_contexts d))"
    by (metis dom_map_of_conv_image_fst image_set set_sort)
  have "ok \<longleftrightarrow> cid \<in> cs_ID ` set (ds_Contexts st)"
    using run st find_in_set find_holds
    by (fastforce simp: contextStatus_def find_None_iff split: option.splits)
  then show ok: "ok \<longleftrightarrow> map_of (d_contexts d) cid \<noteq> None" using ids by (simp add: domIff)
  show "cs_ID c = cid \<and> cs_Generation c = cp_Generation (dc_assignment dc) \<and> cs_Deleting c = dc_deleting dc"
    if dc: "map_of (d_contexts d) cid = Some dc"
  proof -
    have "find (\<lambda>c. cs_ID c = cid) (ds_Contexts st) = Some c"
      using ok dc run st by (auto simp: contextStatus_def split: option.splits simp del: map_of_eq_Some_iff)
    then have c: "c \<in> set (ds_Contexts st)" "cs_ID c = cid" using find_in_set find_holds by fastforce+
    then obtain dc' where "map_of (d_contexts d) (cs_ID c) = Some dc'" "cs_Generation c = cp_Generation (dc_assignment dc')"
      "cs_Deleting c = dc_deleting dc'" using t by blast
    with c dc show ?thesis by simp
  qed
qed

lemma Handler_reach:
  assumes reach: "daemon_reach s pol pth n d w" and run: "Handler s between req d w = (r, d', w')"
    and env: "\<And>d w. daemon_reach s pol pth n d w \<Longrightarrow> daemon_reach s pol pth n (fst (between (d, w))) (snd (between (d, w)))"
  shows "(\<exists>resp. r = Ok resp) \<and> daemon_reach s pol pth n d' w'"
proof (cases req)
  case GetStatus
  obtain st w1 where st: "Daemon_Status s d w = (st, w1)" by force
  then show ?thesis using GetStatus run Status_reach [OF reach st] by auto
next
  case (GetContext cid)
  obtain c ok w1 where c: "contextStatus s cid d w = ((c, ok), w1)" by (metis prod.exhaust)
  then show ?thesis using GetContext run contextStatus_reach [OF reach c] by (auto split: if_splits)
next
  case (DeleteContext cid)
  obtain x d1 w1 where del: "Daemon_Delete s cid d w = (x, d1, w1)" by (metis prod.exhaust)
  have "x \<noteq> Panic" using Daemon_Delete_ok [OF reach_state [OF reach] del] by (simp add: op_ok_def)
  moreover have "daemon_reach s pol pth n d1 w1"
    by (rule daemon_reach.command [OF reach, of "CDelete cid" x]) (simp add: del)
  ultimately show ?thesis using DeleteContext run del by (cases x) auto
next
  case (PutContext cid body)
  show ?thesis
  proof (cases "put_check cid body")
    case None
    then show ?thesis using PutContext run reach by (auto simp: handle_put_def)
  next
    case (Some a)
    obtain x d1 w1 where put: "Daemon_Put s a d w = (x, d1, w1)" by (metis prod.exhaust)
    have np: "x \<noteq> Panic" using Daemon_Put_ok [OF reach_state [OF reach] put] by (simp add: op_ok_def)
    have r1: "daemon_reach s pol pth n d1 w1"
      by (rule daemon_reach.command [OF reach, of "CPut a" x]) (simp add: put)
    obtain d2 w2 where b: "between (d1, w1) = (d2, w2)" by force
    obtain c ok w3 where c: "contextStatus s (cp_ID (cp_ContextSpec a)) d2 w2 = ((c, ok), w3)" by (metis prod.exhaust)
    have "daemon_reach s pol pth n d2 w2" using env [OF r1] b by simp
    from contextStatus_reach [OF this c] have r3: "daemon_reach s pol pth n d2 w3" by simp
    show ?thesis
      using PutContext run Some put np r1 r3 b c by (cases x) (auto simp: handle_put_def)
  qed
qed

end

end
