(* ===== verification/PutErrors.thy ===== *)
theory PutErrors
  imports HttpApi
begin

text \<open>
  The errors a reconciliation returns are never \<open>ErrAssignmentRejected\<close>: that sentinel belongs to
  the agent, only \<open>rejectAssignment\<close> uses it, and the calls of the system and of the libraries do
  not return it. The locale \<open>foreign_errors\<close> states the last part of the environment.
\<close>

section \<open>Errors that are no rejection\<close>

definition no_rejection :: "go_error \<Rightarrow> bool" where
  "no_rejection e \<longleftrightarrow> \<not> errors_Is e ErrAssignmentRejected"

lemma no_rejection_simps [simp]:
  "no_rejection (Errno n)" "no_rejection (Errorf t es) \<longleftrightarrow> list_all no_rejection es"
  "no_rejection (Joined es) \<longleftrightarrow> list_all no_rejection es" "no_rejection ErrNotFound"
  by (simp_all add: no_rejection_def ErrAssignmentRejected_def ErrNotFound_def list_ex_iff list_all_iff)

lemma errors_Join_no_rejection:
  assumes "errors_Join os = Some e" "\<And>x. Some x \<in> set os \<Longrightarrow> no_rejection x"
  shows "no_rejection e"
proof -
  obtain y ys where ys: "List.map_filter (\<lambda>x. x) os = y # ys" "e = Joined (y # ys)"
    using assms(1) by (auto simp: errors_Join_def split: list.splits)
  have "set (y # ys) = {x. Some x \<in> set os}" unfolding ys(1) [symmetric]
    by (induction os) (auto simp: map_filter_simps split: option.splits)
  with assms(2) show ?thesis by (auto simp: ys(2) list_all_iff)
qed

lemma check_leg_no_rejection: "check_leg l = Some e \<Longrightarrow> no_rejection e"
  by (auto simp: check_leg_def split: if_splits option.splits)

lemma scan_endpoints_no_rejection: "scan_endpoints seen eps = Inl e \<Longrightarrow> no_rejection e"
  by (induction eps arbitrary: seen) (auto split: option.splits if_splits)

lemma Config_Validate_no_rejection: "Config_Validate c = Err e \<Longrightarrow> no_rejection e"
  by (auto simp: Config_Validate_def Let_def split: if_splits option.splits sum.splits
      dest: check_leg_no_rejection scan_endpoints_no_rejection)

lemma add_paths_no_rejection: "add_paths key gen access eps m = Inl e \<Longrightarrow> no_rejection e"
  by (induction eps arbitrary: m) (auto split: option.splits)

lemma DesiredPaths_no_rejection: "DesiredPaths p key = Inl e \<Longrightarrow> no_rejection e"
  by (auto simp: DesiredPaths_def split: if_splits sum.splits dest: add_paths_no_rejection)

lemma plan_flows_no_rejection: "plan_flows ls ia ib es seen as bs = Inl e \<Longrightarrow> no_rejection e"
  by (induction es arbitrary: seen as bs) (auto simp: Let_def split: if_splits option.splits)

section \<open>The environment\<close>

locale foreign_errors =
  fixes s :: "('w, 'z) daemon_env_scheme"
  assumes LookupPolicy_foreign: "LookupPolicy s k w = (Inl e, w') \<Longrightarrow> no_rejection e"
    and UpdatePolicy_foreign: "UpdatePolicy s k v w = (Some e, w') \<Longrightarrow> no_rejection e"
    and DeletePolicy_foreign: "DeletePolicy s k w = (Some e, w') \<Longrightarrow> no_rejection e"
    and Paths_foreign: "Paths s k w = ((ps, Some e), w') \<Longrightarrow> no_rejection e"
    and UpdatePath_foreign: "UpdatePath s q x w = (Some e, w') \<Longrightarrow> no_rejection e"
    and DeletePath_foreign: "DeletePath s q w = (Some e, w') \<Longrightarrow> no_rejection e"
    and ValidateAddr_foreign: "ValidateAddr s l w = (Inl e, w') \<Longrightarrow> no_rejection e"
begin

lemma stage_paths_no_rejection: "stage_paths s kvs st w = (Some e, st', w') \<Longrightarrow> no_rejection e"
  by (induction kvs arbitrary: st w) (auto split: prod.splits option.splits dest: UpdatePath_foreign)

lemma rollback_paths_no_rejection: "rollback_paths s before ks w = (fs, w') \<Longrightarrow> list_all no_rejection fs"
proof (induction ks arbitrary: w fs)
  case (Cons k ks)
  obtain u w1 where op: "(case map_of before k of Some v \<Rightarrow> UpdatePath s k v w | None \<Rightarrow> DeletePath s k w) = (u, w1)" by force
  obtain fs' where rest: "rollback_paths s before ks w1 = (fs', w')"
    using Cons.prems op by (auto simp: Let_def split: prod.splits option.splits if_splits)
  have "no_rejection e" if "u = Some e" for e
    using op that UpdatePath_foreign DeletePath_foreign by (auto split: option.splits)
  with Cons.IH [OF rest] Cons.prems op rest show ?case by (auto simp: Let_def split: option.splits if_splits)
qed simp

lemma delete_paths_no_rejection: "delete_paths s ks w = (fs, w') \<Longrightarrow> list_all no_rejection fs"
proof (induction ks arbitrary: w fs)
  case (Cons k ks)
  obtain u w1 where op: "DeletePath s k w = (u, w1)" by force
  obtain fs' where rest: "delete_paths s ks w1 = (fs', w')"
    using Cons.prems op by (auto simp: Let_def split: prod.splits option.splits if_splits)
  show ?case using Cons.IH [OF rest] Cons.prems op rest DeletePath_foreign
    by (auto simp: Let_def split: option.splits if_splits)
qed simp

lemma rollback_no_rejection: "rollback s before st c w = (Err e, w') \<Longrightarrow> no_rejection c \<Longrightarrow> no_rejection e"
  by (auto simp: rollback_def split: prod.splits dest: rollback_paths_no_rejection)

lemma cleanup_error_no_rejection: "cleanup_error fs = Err e \<Longrightarrow> list_all no_rejection fs \<Longrightarrow> no_rejection e"
  by (auto simp: cleanup_error_def errors_Join_map_Some split: if_splits)

lemma stage_and_commit_no_rejection:
  assumes "stage_and_commit s p key desired before w = (Err e, w')"
  shows "no_rejection e"
  using assms
  by (auto simp: stage_and_commit_def Let_def MapPolicy_not_Err
      split: prod.splits option.splits outcome.splits
      dest!: rollback_no_rejection cleanup_error_no_rejection
      dest: stage_paths_no_rejection UpdatePolicy_foreign delete_paths_no_rejection)

lemma generation_error_no_rejection:
  "generation_error gen old = Some e \<Longrightarrow> LookupPolicy s k w = (old, w') \<Longrightarrow> no_rejection e"
  by (auto simp: generation_error_def split: sum.splits if_splits dest: LookupPolicy_foreign)

lemma ApplyLive_no_rejection:
  assumes "ApplyLive s p key w = (Err e, w')"
  shows "no_rejection e"
  using assms
  by (auto simp: ApplyLive_def Let_def
      split: prod.splits option.splits outcome.splits sum.splits if_splits
      dest: Config_Validate_no_rejection DesiredPaths_no_rejection generation_error_no_rejection Paths_foreign
        stage_and_commit_no_rejection)

lemma DeleteLive_no_rejection:
  assumes "DeleteLive s key w = (Some e, w')"
  shows "no_rejection e"
  using assms
  by (auto simp: DeleteLive_def Let_def errors_Join_map_Some
      split: prod.splits option.splits if_splits
      dest: DeletePolicy_foreign Paths_foreign delete_paths_no_rejection)

lemma repair_updates_no_rejection: "repair_updates s before kvs w = (Some e, w') \<Longrightarrow> no_rejection e"
  by (induction kvs arbitrary: w) (auto split: prod.splits option.splits if_splits dest: UpdatePath_foreign)

lemma repair_deletes_no_rejection: "repair_deletes s want ks w = (Some e, w') \<Longrightarrow> no_rejection e"
  by (induction ks arbitrary: w) (auto split: prod.splits option.splits if_splits dest: DeletePath_foreign)

lemma repair_no_rejection: "repair s key want w = (Some e, w') \<Longrightarrow> no_rejection e"
  by (auto simp: repair_def Let_def split: prod.splits option.splits
      dest: Paths_foreign repair_updates_no_rejection repair_deletes_no_rejection)

lemma Daemon_plan_no_rejection: "Daemon_plan s c a w = (Inl e, w') \<Longrightarrow> no_rejection e"
  by (auto simp: Daemon_plan_def Let_def split: prod.splits sum.splits
      dest: ValidateAddr_foreign plan_flows_no_rejection)

lemma applyConnection_no_rejection:
  assumes "applyConnection s key c a w = (Err e, w')"
  shows "no_rejection e"
proof -
  have join: "no_rejection x" if "errors_Join [Some y, cleanup] = Some x" "no_rejection y"
    "\<And>z. cleanup = Some z \<Longrightarrow> no_rejection z" for x y cleanup
    using errors_Join_no_rejection [OF that(1)] that(2,3) by auto
  have error: "u = Some x" if "error_outcome u = Err x" for u x using that by (cases u) simp_all
  show ?thesis
    using assms
    by (auto simp: applyConnection_def Let_def MapPolicy_not_Err
        split: prod.splits sum.splits outcome.splits if_splits
        dest!: error
        dest: Daemon_plan_no_rejection DeleteLive_no_rejection DesiredPaths_no_rejection LookupPolicy_foreign
          ApplyLive_no_rejection repair_no_rejection join)
qed

lemma release_no_rejection: "release s t c d w = (fs, d', w') \<Longrightarrow> list_all no_rejection fs"
  by (auto simp: release_def Let_def split: prod.splits option.splits if_splits dest: DeleteLive_no_rejection)

lemma reconcile_connection_no_rejection:
  "reconcile_connection s t d w = (r, d', w') \<Longrightarrow>
     (\<forall>e. r = Err e \<longrightarrow> no_rejection e) \<and> (\<forall>fs. r = Ok fs \<longrightarrow> list_all no_rejection fs)"
  by (auto simp: reconcile_connection_def Let_def
      split: option.splits if_splits prod.splits outcome.splits
      dest: release_no_rejection applyConnection_no_rejection)

lemma reconcile_connections_no_rejection:
  "reconcile_connections s ts fs d w = (r, d', w') \<Longrightarrow> list_all no_rejection fs \<Longrightarrow>
     (\<forall>e. r = Err e \<longrightarrow> no_rejection e) \<and> (\<forall>fs. r = Ok fs \<longrightarrow> list_all no_rejection fs)"
proof (induction ts arbitrary: fs d w)
  case (Cons t ts)
  obtain x d1 w1 where x: "reconcile_connection s t d w = (x, d1, w1)" by (metis prod.exhaust)
  note own = reconcile_connection_no_rejection [OF x]
  show ?case
  proof (cases x)
    case (Ok gs)
    with Cons.prems x have "reconcile_connections s ts (fs @ gs) d1 w1 = (r, d', w')" by simp
    from Cons.IH [OF this] Cons.prems(2) own Ok show ?thesis by simp
  qed (use Cons.prems x own in auto)
qed auto

lemma reconcileLocked_no_rejection:
  assumes "reconcileLocked s d w = (Err e, d', w')"
  shows "no_rejection e"
proof -
  obtain ns w1 where mo: "MapOrder s w = (ns, w1)" by force
  obtain x d1 w2 where x: "reconcile_connections s (map fst (go_range ns (d_connections d))) [] d w1 = (x, d1, w2)"
    by (metis prod.exhaust)
  from reconcile_connections_no_rejection [OF x] assms mo x show ?thesis
    by (cases x) (auto simp: reconcileLocked_def errors_Join_map_Some split: if_splits)
qed

lemma validate_legs_no_rejection: "validate_legs s ls w = (Some e, w') \<Longrightarrow> no_rejection e"
  by (induction ls arbitrary: w) (auto split: prod.splits sum.splits dest: ValidateAddr_foreign)

end

section \<open>The kernel's maps\<close>

text \<open>The store over eBPF maps passes the errors of the library on, or makes them \<open>ErrNotFound\<close>.\<close>

lemma mapError_no_rejection: "mapError kne err = Some e \<Longrightarrow> (\<And>x. err = Some x \<Longrightarrow> no_rejection x) \<Longrightarrow> no_rejection e"
  by (auto simp: mapError_def split: option.splits if_splits)

locale foreign_map =
  fixes m :: "('k, 'v, 'w) ebpf_map"
  assumes Lookup_foreign: "Map_Lookup m k w = (Inl e, w') \<Longrightarrow> no_rejection e"
    and Update_foreign: "Map_Update m k v w = (Some e, w') \<Longrightarrow> no_rejection e"
    and Delete_foreign: "Map_Delete m k w = (Some e, w') \<Longrightarrow> no_rejection e"
    and Iterate_foreign: "Map_Iterate m w = ((es, Some e), w') \<Longrightarrow> no_rejection e"

lemma kernel_store_foreign:
  assumes pol: "foreign_map (km_policy m)" and pth: "foreign_map (km_path m)"
    and val: "\<And>l w e w'. v l w = (Inl e, w') \<Longrightarrow> no_rejection e"
  shows "foreign_errors (with_validator (kernel_store kne m order) v)"
proof
  note defs = with_validator_def kernel_store_def km_LookupPolicy_def km_UpdatePolicy_def km_DeletePolicy_def
    km_UpdatePath_def km_DeletePath_def km_Paths_def Let_def
  let ?s = "with_validator (kernel_store kne m order) v"
  show "LookupPolicy ?s k w = (Inl e, w') \<Longrightarrow> no_rejection e" for k w e w'
    using foreign_map.Lookup_foreign [OF pol, of k w]
    by (auto simp: defs mapError_def split: prod.splits sum.splits if_splits)
  show "UpdatePolicy ?s k x w = (Some e, w') \<Longrightarrow> no_rejection e" for k x w e w'
    using foreign_map.Update_foreign [OF pol, of k x w]
    by (auto simp: defs split: prod.splits dest!: mapError_no_rejection)
  show "DeletePolicy ?s k w = (Some e, w') \<Longrightarrow> no_rejection e" for k w e w'
    using foreign_map.Delete_foreign [OF pol, of k w]
    by (auto simp: defs split: prod.splits dest!: mapError_no_rejection)
  show "Paths ?s k w = ((ps, Some e), w') \<Longrightarrow> no_rejection e" for k w ps e w'
    using foreign_map.Iterate_foreign [OF pth, of w] by (auto simp: defs split: prod.splits)
  show "UpdatePath ?s q x w = (Some e, w') \<Longrightarrow> no_rejection e" for q x w e w'
    using foreign_map.Update_foreign [OF pth, of q x w]
    by (auto simp: defs split: prod.splits dest!: mapError_no_rejection)
  show "DeletePath ?s q w = (Some e, w') \<Longrightarrow> no_rejection e" for q w e w'
    using foreign_map.Delete_foreign [OF pth, of q w]
    by (auto simp: defs split: prod.splits dest!: mapError_no_rejection)
  show "ValidateAddr ?s l w = (Inl e, w') \<Longrightarrow> no_rejection e" for l w e w'
    using val [of l w] by (simp add: defs)
qed

interpretation bpf_policy_errors: foreign_map "km_policy bpf_handles"
  by unfold_locales (auto simp: bpf_handles_def hash_map_def ErrKeyNotExist_def no_rejection_def ErrAssignmentRejected_def
      split: prod.splits option.splits if_splits)

interpretation bpf_path_errors: foreign_map "km_path bpf_handles"
  by unfold_locales (auto simp: bpf_handles_def hash_map_def ErrKeyNotExist_def no_rejection_def ErrAssignmentRejected_def
      split: prod.splits option.splits if_splits)

lemma ValidateLegAddress_no_rejection:
  assumes "\<And>i e. i \<in> set ifs \<Longrightarrow> if_Addrs i = Inl e \<Longrightarrow> no_rejection e" "ValidateLegAddress ifs l = Inl e"
  shows "no_rejection e"
  using assms(2) assms(1) find_in_set [of "\<lambda>i. if_Name i = cp_IfName l" ifs]
  by (auto simp: ValidateLegAddress_def InterfaceByName_def ParseAddress_def
      split: option.splits sum.splits if_splits)

text \<open>Interfaces the system lists without an error.\<close>

definition listed :: "string \<times> int \<times> string list \<Rightarrow> iface" where
  "listed x = (case x of (name, index, as) \<Rightarrow> \<lparr>if_Name = name, if_Index = index, if_Addrs = Inr as\<rparr>)"

lemma bpf_env_foreign:
  assumes "\<And>i e. i \<in> set ifs \<Longrightarrow> if_Addrs i = Inl e \<Longrightarrow> no_rejection e"
  shows "foreign_errors (bpf_env ifs)"
  unfolding bpf_env_def bpf_store_def
  by (rule kernel_store_foreign [OF bpf_policy_errors.foreign_map_axioms bpf_path_errors.foreign_map_axioms])
    (use ValidateLegAddress_no_rejection [OF assms] in auto)

interpretation bpf_errors: foreign_errors "bpf_env (map listed xs)" for xs
  by (rule bpf_env_foreign) (auto simp: listed_def)

end
