(* ===== verification/HttpProperties.thy ===== *)
theory HttpProperties
  imports PutErrors
begin

text \<open>
  The properties of the HTTP interface: what each status code tells the client about the daemon's
  state and the kernel's maps.
\<close>

lemmas status_codes = StatusOK_def StatusAccepted_def StatusBadRequest_def StatusNotFound_def StatusConflict_def
  StatusServiceUnavailable_def respond_def

section \<open>The results of the two requests\<close>

context daemon_laws
begin

lemma Daemon_Put_results:
  assumes inv: "daemon_inv d (pol w) (pth w)" and run: "Daemon_Put s a d w = (r, d', w')" and valid: "Assignment_Validate a = None"
  obtains (refused) e where "r = Err (rejectAssignment e)" "d' = d" "pol w' = pol w" "pth w' = pth w"
    | (fatal) e where "r = Err e" "d_fatal d = Some e" "d' = d" "w' = w"
    | (held) "map_of (d_contexts d') (cp_ID (cp_ContextSpec a)) = Some \<lparr>dc_assignment = canonical a, dc_deleting = False\<rparr>"
        "r = Ok () \<and> (\<forall>t. conn_done d' (pol w') (pth w') t) \<or> (\<exists>e. r = Err e)"
  using inv run
proof (cases rule: Daemon_Put_cases)
  case (held w1 d1)
  have "d_contexts d1 = go_set (cp_ID (cp_ContextSpec a)) \<lparr>dc_assignment = canonical a, dc_deleting = False\<rparr> (d_contexts d)"
    by (simp add: held(4))
  from swept_set(2) [OF reconcileLocked_tables(1) [OF held(5,6), unfolded this]]
  have "map_of (d_contexts d') (cp_ID (cp_ContextSpec a)) = Some \<lparr>dc_assignment = canonical a, dc_deleting = False\<rparr>" by simp
  moreover have "r = Ok () \<and> (\<forall>t. conn_done d' (pol w') (pth w') t) \<or> (\<exists>e. r = Err e)"
    using reconcileLocked_done [OF held(5), of "()" d' w'] reconcileLocked_ok [OF held(5,6)] held(6)
    by (cases r) (simp_all add: op_ok_def)
  ultimately show thesis by (rule that(3))
qed (use valid that in auto)

lemma Daemon_Delete_results:
  assumes inv: "daemon_inv d (pol w) (pth w)" and run: "Daemon_Delete s cid d w = (r, d', w')"
  obtains (done') "r = Ok ()" "map_of (d_contexts d') cid = None" "\<forall>t. conn_done d' (pol w') (pth w') t"
      "\<And>t c. map_of (d_connections d') t = Some c \<Longrightarrow> cid \<noteq> [] \<Longrightarrow> oc_owner c \<noteq> cid"
    | (pending) e where "r = Err e" "map_of (d_contexts d') cid = None \<or> (\<exists>dc. map_of (d_contexts d') cid = Some dc \<and> dc_deleting dc)"
proof -
  have ok: "op_ok d (pol w) (pth w) r d' (pol w') (pth w')" by (rule Daemon_Delete_ok [OF inv run])
  then have inv': "daemon_inv d' (pol w') (pth w')" and np: "r \<noteq> Panic" by (simp_all add: op_ok_def)
  from inv run show thesis
  proof (rule Daemon_Delete_tables, goal_cases)
    case (1 d0)
    have sw: "swept (d_contexts d0) (d_contexts d')" by (rule reconcileLocked_tables(1) [OF 1(1,2)])
    have mark: "dc_deleting dc" if "map_of (d_contexts d') cid = Some dc" for dc
      using swept_origin [OF sw that] 1(3) by (auto simp del: map_of_eq_Some_iff)
    show thesis
    proof (cases r)
      case (Ok u)
      note dn = reconcileLocked_done [OF 1(1) 1(2) [unfolded Ok]]
      then have gone: "map_of (d_contexts d') cid = None" using mark by (cases "map_of (d_contexts d') cid") auto
      show thesis
      proof (rule done')
        show "oc_owner c \<noteq> cid" if "map_of (d_connections d') t = Some c" "cid \<noteq> []" for t c
          using inv_connection [OF inv' that(1)] gone that(2) by (auto simp: connection_ok_def)
      qed (use Ok gone dn in simp_all)
    next
      case (Err e)
      then show thesis using mark by (cases "map_of (d_contexts d') cid") (auto intro: pending)
    next
      case Panic
      then show thesis using np by simp
    qed
  qed
qed

end

section \<open>When an assignment is refused\<close>

text \<open>
  The tests of \<open>Put\<close> that lead to \<open>rejectAssignment\<close>: an address that is not on its interface, or
  what the held contexts forbid.
\<close>

definition put_refused :: "('w, 'z) daemon_env_scheme \<Rightarrow> daemon \<Rightarrow> cp_assignment \<Rightarrow> 'w \<Rightarrow> bool" where
  "put_refused s d a w \<longleftrightarrow>
     (let ls = cp_Legs (cp_ContextSpec (canonical a)) in
      fst (validate_legs s [cp_A ls, cp_B ls] w) \<noteq> None \<or> admission_error d (canonical a) \<noteq> None)"

lemma Daemon_Put_refused:
  assumes "Assignment_Validate a = None" "d_fatal d = None" "put_refused s d a w"
  obtains e w1 where "Daemon_Put s a d w = (Err (rejectAssignment e), d, w1)"
proof -
  let ?ls = "cp_Legs (cp_ContextSpec (canonical a))"
  obtain u w1 where u: "validate_legs s [cp_A ?ls, cp_B ?ls] w = (u, w1)" by force
  show thesis
  proof (cases u)
    case (Some e)
    then show thesis using assms(1,2) u
      by (intro that [of e w1]) (simp add: Daemon_Put_def Let_def del: validate_legs.simps)
  next
    case None
    then obtain e where "admission_error d (canonical a) = Some e"
      using assms(3) u by (auto simp: put_refused_def Let_def simp del: validate_legs.simps)
    then show thesis using assms(1,2) u None
      by (intro that [of e w1]) (simp add: Daemon_Put_def Let_def del: validate_legs.simps)
  qed
qed

lemma Daemon_Put_admitted:
  assumes "Assignment_Validate a = None" "d_fatal d = None" "\<not> put_refused s d a w"
  obtains d0 w0 where "Daemon_Put s a d w = reconcileLocked s d0 w0"
proof -
  let ?ls = "cp_Legs (cp_ContextSpec (canonical a))"
  obtain u w1 where u: "validate_legs s [cp_A ?ls, cp_B ?ls] w = (u, w1)" by force
  then have "u = None" "admission_error d (canonical a) = None"
    using assms(3) by (simp_all add: put_refused_def Let_def del: validate_legs.simps)
  then show thesis using assms(1,2) u that
    by (simp add: Daemon_Put_def Let_def del: validate_legs.simps)
qed

lemma contextStatus_missing: "contextStatus s cid d w = ((c, False), w') \<Longrightarrow> c = zero_context"
  by (auto simp: contextStatus_def split: prod.splits option.splits)

context daemon_laws
begin

lemma Daemon_Put_refused_same:
  assumes "daemon_inv d (pol w) (pth w)" "Daemon_Put s a d w = (Err (rejectAssignment e), d', w')"
    and "Assignment_Validate a = None" "d_fatal d = None" "put_refused s d a w"
  shows "d' = d \<and> pol w' = pol w \<and> pth w' = pth w"
proof -
  let ?ls = "cp_Legs (cp_ContextSpec (canonical a))"
  obtain u w1 where u: "validate_legs s [cp_A ?ls, cp_B ?ls] w = (u, w1)" by force
  have "d' = d" "w' = w1"
    using assms(2-5) u by (auto simp: Daemon_Put_def put_refused_def Let_def simp del: validate_legs.simps split: option.splits)
  with validate_legs_frame [OF u] show ?thesis by simp
qed

text \<open>An assignment that passed the tests is held whatever the reconciliation returns.\<close>

lemma Daemon_Put_held:
  assumes inv: "daemon_inv d (pol w) (pth w)" and run: "Daemon_Put s a d w = (r, d', w')"
    and foreign: "foreign_errors s"
    and valid: "Assignment_Validate a = None" "d_fatal d = None" "\<not> put_refused s d a w"
  shows "map_of (d_contexts d') (cp_ID (cp_ContextSpec a)) = Some \<lparr>dc_assignment = canonical a, dc_deleting = False\<rparr>"
    "r = Ok () \<and> (\<forall>t. conn_done d' (pol w') (pth w') t) \<or> (\<exists>e. r = Err e \<and> no_rejection e)"
proof -
  obtain d0 w0 where "Daemon_Put s a d w = reconcileLocked s d0 w0" by (rule Daemon_Put_admitted [OF valid])
  then have own: "no_rejection e" if "r = Err e" for e
    using foreign_errors.reconcileLocked_no_rejection [OF foreign, of d0 w0 e d' w'] run that by simp
  have "map_of (d_contexts d') (cp_ID (cp_ContextSpec a)) = Some \<lparr>dc_assignment = canonical a, dc_deleting = False\<rparr> \<and>
      (r = Ok () \<and> (\<forall>t. conn_done d' (pol w') (pth w') t) \<or> (\<exists>e. r = Err e))"
    using inv run valid(1)
  proof (cases rule: Daemon_Put_results)
    case (refused e)
    then show ?thesis using own [of "rejectAssignment e"] by (simp add: rejectAssignment_def no_rejection_def)
  next
    case (fatal e)
    then show ?thesis using valid(2) by simp
  next
    case held
    then show ?thesis by simp
  qed
  then show "map_of (d_contexts d') (cp_ID (cp_ContextSpec a)) = Some \<lparr>dc_assignment = canonical a, dc_deleting = False\<rparr>"
    "r = Ok () \<and> (\<forall>t. conn_done d' (pol w') (pth w') t) \<or> (\<exists>e. r = Err e \<and> no_rejection e)"
    using own by auto
qed

end

section \<open>Properties\<close>

text \<open>
  C35: a \<open>PUT\<close> is answered 400 with nothing changed when the body is not one valid assignment for the
  path. Otherwise a daemon with a fatal error answers 503 (409 only if that error is itself a
  rejection) and changes nothing; 409 means that the assignment was refused and nothing changed;
  one that is not refused is held when \<open>Put\<close> returns, with 202 if the maps then follow it for every
  connection and 503 if an error remains to be retried. The body of the 202 tells of the context as
  it is after whatever other requests and events did in between.
\<close>

theorem http_put_response:
  assumes "daemon_laws s pol pth" "daemon_reach s pol pth n d w" "foreign_errors s"
    and "\<And>d w. daemon_reach s pol pth n d w \<Longrightarrow> daemon_reach s pol pth n (fst (between (d, w))) (snd (between (d, w)))"
    and "Handler s between (PutContext cid body) d w = (Ok resp, d', w')"
  shows "case put_check cid body of
      None \<Rightarrow> hr_Code resp = 400 \<and> d' = d \<and> w' = w
    | Some a \<Rightarrow>
        (case d_fatal d of
           Some e \<Rightarrow> hr_Code resp = (if errors_Is e ErrAssignmentRejected then 409 else 503) \<and> d' = d \<and> w' = w
         | None \<Rightarrow>
             if put_refused s d a w then hr_Code resp = 409 \<and> d' = d \<and> pol w' = pol w \<and> pth w' = pth w
             else \<exists>d1 w1. map_of (d_contexts d1) cid = Some \<lparr>dc_assignment = canonical a, dc_deleting = False\<rparr> \<and>
               (hr_Code resp = 202 \<and> Daemon_Put s a d w = (Ok (), d1, w1) \<and> (\<forall>t. conn_done d1 (pol w1) (pth w1) t) \<and>
                  d' = fst (between (d1, w1)) \<and> pol w' = pol (snd (between (d1, w1))) \<and> pth w' = pth (snd (between (d1, w1))) \<and>
                  (\<exists>c. hr_Body resp = ContextBody c \<and>
                    (case map_of (d_contexts d') cid of
                       None \<Rightarrow> c = zero_context
                     | Some dc \<Rightarrow> cs_ID c = cid \<and> cs_Generation c = cp_Generation (dc_assignment dc) \<and>
                         cs_Deleting c = dc_deleting dc)) \<or>
                hr_Code resp = 503 \<and> (\<exists>e. Daemon_Put s a d w = (Err e, d1, w1)) \<and> d' = d1 \<and> w' = w1))"
proof (cases "put_check cid body")
  case None
  then show ?thesis using assms(5) by (auto simp: handle_put_def status_codes)
next
  case (Some a)
  then have id: "cp_ID (cp_ContextSpec a) = cid" and valid: "Assignment_Validate a = None"
    by (auto simp: put_check_def split: sum.splits if_splits option.splits)
  have inv: "daemon_inv d (pol w) (pth w)" using daemon_laws.reach_inv [OF assms(1,2)] by simp
  obtain x d1 w1 where put: "Daemon_Put s a d w = (x, d1, w1)" by (metis prod.exhaust)
  have failed: "d' = d1 \<and> w' = w1 \<and> hr_Code resp = put_error_code e" if "x = Err e" for e
    using assms(5) Some put that by (simp add: handle_put_def respond_def) auto
  consider (fatal) e where "d_fatal d = Some e" | (refused) "d_fatal d = None" "put_refused s d a w"
    | (admitted) "d_fatal d = None" "\<not> put_refused s d a w" by (cases "d_fatal d") auto
  then show ?thesis
  proof cases
    case (fatal e)
    then have "x = Err e" "d1 = d" "w1 = w" using put valid by (simp_all add: Daemon_Put_def Let_def)
    then show ?thesis using failed fatal Some by (simp add: put_error_code_def status_codes)
  next
    case refused
    obtain e where x: "x = Err (rejectAssignment e)" using put by (metis Daemon_Put_refused [OF valid refused] prod.inject)
    have "put_error_code (rejectAssignment e) = 409"
      by (simp add: put_error_code_def status_codes rejectAssignment_def)
    then show ?thesis
      using failed [OF x] daemon_laws.Daemon_Put_refused_same [OF assms(1) inv put [unfolded x] valid refused] refused Some by simp
  next
    case admitted
    note held = daemon_laws.Daemon_Put_held [OF assms(1) inv put assms(3) valid admitted, unfolded id]
    have r1: "daemon_reach s pol pth n d1 w1"
      by (rule daemon_reach.command [OF assms(2), of "CPut a" x]) (simp add: put)
    from held(2) show ?thesis
    proof (elim disjE exE conjE)
      fix e assume e: "x = Err e" "no_rejection e"
      then have "put_error_code e = 503" by (simp add: put_error_code_def status_codes no_rejection_def)
      then show ?thesis using failed [OF e(1)] put e(1) held(1) admitted Some by auto
    next
      assume x: "x = Ok ()" and dn: "\<forall>t. conn_done d1 (pol w1) (pth w1) t"
      obtain d2 w2 where b: "between (d1, w1) = (d2, w2)" by force
      obtain c ok w3 where c: "contextStatus s cid d2 w2 = ((c, ok), w3)" by (metis prod.exhaust)
      have res: "d' = d2" "w' = w3" "resp = \<lparr>hr_Code = 202, hr_Body = ContextBody c\<rparr>"
        using assms(5) Some put x c b id by (simp_all add: handle_put_def status_codes)
      have r2: "daemon_reach s pol pth n d2 w2" using assms(4) [OF r1] b by simp
      note found = daemon_laws.contextStatus_found [OF assms(1) r2 c]
      have "case map_of (d_contexts d2) cid of None \<Rightarrow> c = zero_context
        | Some dc \<Rightarrow> cs_ID c = cid \<and> cs_Generation c = cp_Generation (dc_assignment dc) \<and> cs_Deleting c = dc_deleting dc"
        using found contextStatus_missing [of s cid d2 w2 c w3] c by (cases ok) (auto split: option.split)
      then show ?thesis
        using x dn held(1) put b res admitted Some daemon_laws.contextStatus_reach [OF assms(1) r2 c] by auto
    qed
  qed
qed

text \<open>The context is deleted again between the two sections of the handler.\<close>

definition ex_between :: "daemon \<times> bpf_world \<Rightarrow> daemon \<times> bpf_world" where
  "ex_between dw = snd (run_command (bpf_env ex_ifs) (CDelete ''ctx2'') (fst dw) (snd dw))"

lemma http_put_response_witness:
  "\<exists>resp d' w'. Handler (bpf_env ex_ifs) ex_between (PutContext ''ctx2'' \<lparr>pb_First = Inr (ex_assignment ''ctx2'' 8443 1), pb_Second = Some io_EOF\<rparr>)
     ex_daemon ex_bound = (Ok resp, d', w') \<and> hr_Code resp = 202"
proof -
  let ?s = "bpf_env ex_ifs"
  let ?b = "\<lparr>pb_First = Inr (ex_assignment ''ctx2'' 8443 1), pb_Second = Some io_EOF\<rparr>"
  let ?h = "Handler ?s ex_between (PutContext ''ctx2'' ?b) ex_daemon ex_bound"
  have reach: "daemon_reach ?s policies paths n (fst (ex_between (d, w))) (snd (ex_between (d, w)))"
    if r: "daemon_reach ?s policies paths n d w" for n d w
  proof -
    obtain r d' w' where run: "run_command ?s (CDelete ''ctx2'') d w = (r, d', w')" by (metis prod.exhaust)
    from daemon_reach.command [OF r this] show ?thesis by (simp add: ex_between_def run del: run_command.simps)
  qed
  have "foreign_errors ?s" by (rule bpf_env_foreign) (auto simp: ex_ifs_def)
  note put = http_put_response [where between = ex_between, OF bpf_env_laws ex_bound_reach this reach]
  have check: "put_check ''ctx2'' ?b = Some (ex_assignment ''ctx2'' 8443 1)" "d_fatal ex_daemon = None"
    "\<not> put_refused ?s ex_daemon (ex_assignment ''ctx2'' 8443 1) ex_bound"
    "fst (Daemon_Put ?s (ex_assignment ''ctx2'' 8443 1) ex_daemon ex_bound) = Ok ()" by code_simp+
  obtain resp d' w' where h: "?h = (Ok resp, d', w')"
    using bpf_daemon.Handler_reach [where between = ex_between, OF ex_bound_reach _ reach] by (metis prod.exhaust)
  from put [OF _ h] check have "hr_Code resp = 202" by auto
  with h show ?thesis by blast
qed

text \<open>
  C36: a \<open>DELETE\<close> answered 200 has removed the context, left no connection with it, and left the maps
  in line with what remains; one answered 503 has left the context, if it was held, marked for
  deletion. A \<open>GET\<close> of a context is answered 200 exactly when the context is held.
\<close>

theorem http_delete_get_response:
  assumes "daemon_laws s pol pth" "daemon_reach s pol pth n d w"
    and "Handler s between (DeleteContext cid) d w = (Ok resp, d', w')"
    and "Handler s between (GetContext cid) d w = (Ok got, dg, wg)"
  shows "(hr_Code resp = 200 \<and> map_of (d_contexts d') cid = None \<and>
      (\<forall>t. conn_done d' (pol w') (pth w') t \<and>
        (cid = [] \<or> \<not> (\<exists>c. map_of (d_connections d') t = Some c \<and> oc_owner c = cid))) \<or>
     hr_Code resp = 503 \<and> (map_of (d_contexts d') cid = None \<or> (\<exists>dc. map_of (d_contexts d') cid = Some dc \<and> dc_deleting dc))) \<and>
    (hr_Code got = (if map_of (d_contexts d) cid = None then 404 else 200)) \<and> dg = d \<and> pol wg = pol w \<and> pth wg = pth w"
proof -
  have inv: "daemon_inv d (pol w) (pth w)" using daemon_laws.reach_inv [OF assms(1,2)] by simp
  obtain x d1 w1 where del: "Daemon_Delete s cid d w = (x, d1, w1)" by (metis prod.exhaust)
  have res: "d' = d1" "w' = w1" "x = Ok () \<Longrightarrow> hr_Code resp = 200" "\<And>e. x = Err e \<Longrightarrow> hr_Code resp = 503"
    using assms(3) del by (cases x; auto simp: status_codes)+
  from del have deleted: "(hr_Code resp = 200 \<and> map_of (d_contexts d') cid = None \<and>
      (\<forall>t. conn_done d' (pol w') (pth w') t \<and>
        (cid = [] \<or> \<not> (\<exists>c. map_of (d_connections d') t = Some c \<and> oc_owner c = cid))) \<or>
     hr_Code resp = 503 \<and> (map_of (d_contexts d') cid = None \<or> (\<exists>dc. map_of (d_contexts d') cid = Some dc \<and> dc_deleting dc)))"
  proof (rule daemon_laws.Daemon_Delete_results [OF assms(1) inv], goal_cases)
    case 1
    then show ?case using res by blast
  next
    case (2 e)
    then show ?case using res(1,4) by blast
  qed
  obtain c b w2 where g: "contextStatus s cid d w = ((c, b), w2)" by (metis prod.exhaust)
  have "b \<longleftrightarrow> map_of (d_contexts d) cid \<noteq> None" by (rule daemon_laws.contextStatus_found(1) [OF assms(1,2) g])
  moreover have "pol w2 = pol w" "pth w2 = pth w" using daemon_laws.contextStatus_reach [OF assms(1,2) g] by simp_all
  ultimately show ?thesis using deleted assms(4) g by (auto simp: status_codes split: if_splits)
qed

lemma http_delete_get_response_witness:
  "map_of (d_contexts (fst (snd (Handler (bpf_env ex_ifs) (\<lambda>x. x) (DeleteContext ''ctx1'') ex_daemon ex_bound)))) ''ctx1'' = None \<and>
   fst (Handler (bpf_env ex_ifs) (\<lambda>x. x) (DeleteContext ''ctx1'') ex_daemon ex_bound) = Ok \<lparr>hr_Code = 200, hr_Body = DeletedBody\<rparr>"
proof -
  let ?del = "Handler (bpf_env ex_ifs) (\<lambda>x. x) (DeleteContext ''ctx1'') ex_daemon ex_bound"
  let ?get = "Handler (bpf_env ex_ifs) (\<lambda>x. x) (GetContext ''ctx1'') ex_daemon ex_bound"
  have v: "fst ?del = Ok \<lparr>hr_Code = 200, hr_Body = DeletedBody\<rparr>" by code_simp
  obtain r d' w' where del: "?del = (r, d', w')" by (metis prod.exhaust)
  then have del: "?del = (Ok \<lparr>hr_Code = 200, hr_Body = DeletedBody\<rparr>, d', w')" using v by simp
  obtain g dg wg where get: "?get = (g, dg, wg)" by (metis prod.exhaust)
  obtain got where "g = Ok got"
    using get by (cases "contextStatus (bpf_env ex_ifs) ''ctx1'' ex_daemon ex_bound") (auto split: if_splits prod.splits)
  with get have get: "?get = (Ok got, dg, wg)" by simp
  from http_delete_get_response [OF bpf_env_laws ex_bound_reach del get] show ?thesis unfolding del by simp
qed

end
