(* ===== verification/KernelOpen.thy ===== *)
theory KernelOpen
  imports BpfWorld Netip
begin

text \<open>
  The part of \<open>dualsteer-agent/kernel_linux.go\<close> that acquires resources: \<open>openMap\<close>,
  \<open>OpenKernelMaps\<close>, \<open>Close\<close> and \<open>LockWriters\<close>, and \<open>CurrentNetNSInode\<close> of \<open>live.go\<close>. The
  constructors of \<open>github.com/cilium/ebpf\<close> and the system calls behind the lock are records of
  functions; what the code relies on are the locales \<open>map_library\<close> and \<open>writer_lock\<close>, which count
  the handles the process holds. The lemmas show that every failing path gives back what it took.
\<close>

section \<open>Opening maps\<close>

record map_info =
  mi_Name :: string
  mi_Type :: u32
  mi_KeySize :: u32
  mi_ValueSize :: u32

text \<open>The library's constant \<open>ebpf.Hash\<close>, the kernel's \<open>BPF_MAP_TYPE_HASH\<close>.\<close>

definition ebpf_Hash :: u32 where
  "ebpf_Hash = 1"

record ('m, 'w) ebpf_library =
  NewMapFromID :: "u32 \<Rightarrow> 'w \<Rightarrow> (go_error + 'm) \<times> 'w"
  LoadPinnedMap :: "string \<Rightarrow> 'w \<Rightarrow> (go_error + 'm) \<times> 'w"
  MapInfo :: "'m \<Rightarrow> 'w \<Rightarrow> (go_error + map_info) \<times> 'w"
  MapClose :: "'m \<Rightarrow> 'w \<Rightarrow> go_error option \<times> 'w"

text \<open>\<open>strconv.ParseUint(s, 10, 32)\<close>: one or more digits whose value fits in 32 bits.\<close>

definition ParseUint32 :: "string \<Rightarrow> u32 option" where
  "ParseUint32 s =
     (case decimal_value s of None \<Rightarrow> None | Some n \<Rightarrow> if n < 2 ^ 32 then Some (of_nat n) else None)"

definition select_map :: "('m, 'w) ebpf_library \<Rightarrow> string \<Rightarrow> go_error + ('w \<Rightarrow> (go_error + 'm) \<times> 'w)" where
  "select_map lib selector =
     (case CutPrefix selector ''id:'' of
        Some raw \<Rightarrow>
          (case ParseUint32 raw of
             None \<Rightarrow> Inl (errors_New ''invalid map ID'')
           | Some n \<Rightarrow> if n = 0 then Inl (errors_New ''invalid map ID'') else Inr (NewMapFromID lib n))
      | None \<Rightarrow>
          if \<not> HasPrefix selector ''/''
          then Inl (errors_New ''map selector must be an absolute pinned path or id:NUMBER'')
          else Inr (LoadPinnedMap lib selector))"

definition abi_matches :: "string \<Rightarrow> u32 \<Rightarrow> u32 \<Rightarrow> map_info \<Rightarrow> bool" where
  "abi_matches name keySize valueSize info \<longleftrightarrow>
     \<not> (mi_Name info \<noteq> name \<or> mi_Type info \<noteq> ebpf_Hash \<or> mi_KeySize info \<noteq> keySize \<or> mi_ValueSize info \<noteq> valueSize)"

definition openMap :: "('m, 'w) ebpf_library \<Rightarrow> string \<Rightarrow> string \<Rightarrow> u32 \<Rightarrow> u32 \<Rightarrow> 'w \<Rightarrow> (go_error + 'm) \<times> 'w" where
  "openMap lib selector name keySize valueSize w =
     (case select_map lib selector of
        Inl e \<Rightarrow> (Inl e, w)
      | Inr load \<Rightarrow>
          (case load w of
             (Inl e, w1) \<Rightarrow> (Inl (Errorf ''open map'' [e]), w1)
           | (Inr m, w1) \<Rightarrow>
               (case MapInfo lib m w1 of
                  (Inl e, w2) \<Rightarrow> (Inl e, snd (MapClose lib m w2))
                | (Inr info, w2) \<Rightarrow>
                    if \<not> abi_matches name keySize valueSize info
                    then (Inl (errors_New ''map ABI mismatch''), snd (MapClose lib m w2))
                    else (Inr m, w2))))"

definition OpenKernelMaps :: "('m, 'w) ebpf_library \<Rightarrow> string \<Rightarrow> string \<Rightarrow> 'w \<Rightarrow> (go_error + 'm \<times> 'm) \<times> 'w" where
  "OpenKernelMaps lib policySelector pathSelector w =
     (case openMap lib policySelector ''ds_policy_map'' 16 24 w of
        (Inl e, w1) \<Rightarrow> (Inl e, w1)
      | (Inr policy, w1) \<Rightarrow>
          (case openMap lib pathSelector ''ds_path_map'' 24 8 w1 of
             (Inl e, w2) \<Rightarrow> (Inl e, snd (MapClose lib policy w2))
           | (Inr path, w2) \<Rightarrow> (Inr (policy, path), w2)))"

definition KernelMaps_Close :: "('m, 'w) ebpf_library \<Rightarrow> 'm \<times> 'm \<Rightarrow> 'w \<Rightarrow> go_error option \<times> 'w" where
  "KernelMaps_Close lib ms w =
     (let (e1, w1) = MapClose lib (fst ms) w; (e2, w2) = MapClose lib (snd ms) w1 in (errors_Join [e1, e2], w2))"

text \<open>
  What the code relies on: a successful constructor adds one open handle, a failing one none,
  \<open>Info\<close> changes no handle, and \<open>Close\<close> gives its handle back even when it reports an error.
\<close>

locale map_library =
  fixes lib :: "('m, 'w) ebpf_library"
    and opened :: "'w \<Rightarrow> 'm multiset"
    and view :: "'w \<Rightarrow> 'r"
  assumes New_ok: "NewMapFromID lib n w = (Inr m, w') \<Longrightarrow> opened w' = add_mset m (opened w) \<and> view w' = view w"
    and New_err: "NewMapFromID lib n w = (Inl e, w') \<Longrightarrow> opened w' = opened w \<and> view w' = view w"
    and Load_ok: "LoadPinnedMap lib p w = (Inr m, w') \<Longrightarrow> opened w' = add_mset m (opened w) \<and> view w' = view w"
    and Load_err: "LoadPinnedMap lib p w = (Inl e, w') \<Longrightarrow> opened w' = opened w \<and> view w' = view w"
    and Info_frame: "MapInfo lib m w = (r, w') \<Longrightarrow> opened w' = opened w \<and> view w' = view w"
    and Close_frame: "MapClose lib m w = (u, w') \<Longrightarrow> opened w' = opened w - {#m#} \<and> view w' = view w"
begin

lemma select_map_ok:
  assumes "select_map lib sel = Inr load" "load w = (r, w')"
  shows "view w' = view w \<and> opened w' = (case r of Inl e \<Rightarrow> opened w | Inr m \<Rightarrow> add_mset m (opened w))"
proof -
  have "(\<exists>n. load = NewMapFromID lib n) \<or> (\<exists>p. load = LoadPinnedMap lib p)"
    using assms(1) by (auto simp: select_map_def split: option.splits if_splits)
  then show ?thesis
    using assms(2) by (cases r) (auto dest: New_ok New_err Load_ok Load_err)
qed

lemma MapClose_snd: "opened (snd (MapClose lib m w)) = opened w - {#m#}" "view (snd (MapClose lib m w)) = view w"
  using Close_frame [of m w "fst (MapClose lib m w)" "snd (MapClose lib m w)"] by simp_all

lemma openMap_handles:
  assumes "openMap lib sel name ks vs w = (r, w')"
  shows "view w' = view w \<and> opened w' = (case r of Inl e \<Rightarrow> opened w | Inr m \<Rightarrow> add_mset m (opened w))"
proof (cases "select_map lib sel")
  case (Inl e)
  then show ?thesis using assms by (auto simp: openMap_def)
next
  case (Inr load)
  obtain x w1 where l: "load w = (x, w1)" by force
  note h = select_map_ok [OF Inr l]
  show ?thesis
  proof (cases x)
    case (Inl e)
    then show ?thesis using assms Inr l h by (auto simp: openMap_def)
  next
    case m: (Inr m)
    obtain i w2 where i: "MapInfo lib m w1 = (i, w2)" by force
    show ?thesis
      using assms Inr l m i h Info_frame [OF i]
      by (auto simp: openMap_def MapClose_snd split: sum.splits if_splits)
  qed
qed

lemma OpenKernelMaps_handles:
  assumes "OpenKernelMaps lib polsel pathsel w = (r, w')"
  shows "view w' = view w \<and> opened w' = (case r of Inl e \<Rightarrow> opened w | Inr (m, q) \<Rightarrow> add_mset m (add_mset q (opened w)))"
proof -
  obtain x w1 where x: "openMap lib polsel ''ds_policy_map'' 16 24 w = (x, w1)" by force
  note hx = openMap_handles [OF x]
  show ?thesis
  proof (cases x)
    case (Inl e)
    then show ?thesis using assms x hx by (auto simp: OpenKernelMaps_def)
  next
    case (Inr m)
    obtain y w2 where y: "openMap lib pathsel ''ds_path_map'' 24 8 w1 = (y, w2)" by force
    show ?thesis
      using assms x Inr y hx openMap_handles [OF y]
      by (auto simp: OpenKernelMaps_def MapClose_snd split: sum.splits)
  qed
qed

lemma KernelMaps_Close_handles:
  "KernelMaps_Close lib ms w = (e, w') \<Longrightarrow> view w' = view w \<and> opened w' = opened w - {#fst ms, snd ms#}"
  by (auto simp: KernelMaps_Close_def Let_def add_mset_commute split: prod.splits dest!: Close_frame)

end

section \<open>The writer lock\<close>

record 'w lock_calls =
  LockOpen :: "'w \<Rightarrow> (go_error + int) \<times> 'w"
  LockFlock :: "int \<Rightarrow> 'w \<Rightarrow> go_error option \<times> 'w"
  LockClose :: "int \<Rightarrow> 'w \<Rightarrow> go_error option \<times> 'w"

text \<open>\<open>LockWriters\<close> returns the method \<open>Close\<close> of the file; here, its descriptor.\<close>

definition LockWriters :: "'w lock_calls \<Rightarrow> 'w \<Rightarrow> (go_error + int) \<times> 'w" where
  "LockWriters l w =
     (case LockOpen l w of
        (Inl e, w1) \<Rightarrow> (Inl (Errorf ''open writer lock'' [e]), w1)
      | (Inr fd, w1) \<Rightarrow>
          (case LockFlock l fd w1 of
             (Some e, w2) \<Rightarrow>
               (Inl (Errorf ''another agent operation holds the writer lock'' [e]), snd (LockClose l fd w2))
           | (None, w2) \<Rightarrow> (Inr fd, w2)))"

text \<open>
  \<open>fds\<close> are the descriptors of the process that are open on the lock file and \<open>holds\<close> those of them
  that hold the lock: a new descriptor is not open yet, a successful \<open>flock\<close> with \<open>LOCK_EX\<close> finds no
  other holder, and closing a descriptor releases the lock it holds.
\<close>

locale writer_lock =
  fixes l :: "'w lock_calls"
    and fds :: "'w \<Rightarrow> int set"
    and holds :: "'w \<Rightarrow> int set"
    and view :: "'w \<Rightarrow> 'r"
  assumes Open_ok: "LockOpen l w = (Inr fd, w') \<Longrightarrow>
      fd \<notin> fds w \<and> fds w' = insert fd (fds w) \<and> holds w' = holds w \<and> view w' = view w"
    and Open_err: "LockOpen l w = (Inl e, w') \<Longrightarrow> fds w' = fds w \<and> holds w' = holds w \<and> view w' = view w"
    and Flock_ok: "LockFlock l fd w = (None, w') \<Longrightarrow>
      holds w \<subseteq> {fd} \<and> holds w' = {fd} \<and> fds w' = fds w \<and> view w' = view w"
    and Flock_err: "LockFlock l fd w = (Some e, w') \<Longrightarrow> fds w' = fds w \<and> holds w' = holds w \<and> view w' = view w"
    and Close_frame: "LockClose l fd w = (u, w') \<Longrightarrow>
      fds w' = fds w - {fd} \<and> holds w' = holds w - {fd} \<and> view w' = view w"
    and holds_open: "holds w \<subseteq> fds w"
begin

lemma LockClose_snd:
  "fds (snd (LockClose l fd w)) = fds w - {fd}" "holds (snd (LockClose l fd w)) = holds w - {fd}"
  "view (snd (LockClose l fd w)) = view w"
  using Close_frame [of fd w "fst (LockClose l fd w)" "snd (LockClose l fd w)"] by simp_all

lemma LockWriters_effect:
  assumes "LockWriters l w = (r, w')"
  shows "view w' = view w \<and>
    (case r of
       Inl e \<Rightarrow> fds w' = fds w \<and> holds w' = holds w
     | Inr fd \<Rightarrow> fd \<notin> fds w \<and> holds w = {} \<and> fds w' = insert fd (fds w) \<and> holds w' = {fd})"
proof -
  obtain x w1 where x: "LockOpen l w = (x, w1)" by force
  show ?thesis
  proof (cases x)
    case (Inl e)
    then show ?thesis using assms x Open_err [of w e w1] by (auto simp: LockWriters_def)
  next
    case (Inr fd)
    note o = Open_ok [of w fd w1]
    have fresh: "fd \<notin> holds w" using o x Inr holds_open [of w] by auto
    obtain u w2 where u: "LockFlock l fd w1 = (u, w2)" by force
    show ?thesis
    proof (cases u)
      case None
      then show ?thesis using assms x Inr u o Flock_ok [of fd w1 w2] fresh by (auto simp: LockWriters_def)
    next
      case (Some e)
      then show ?thesis using assms x Inr u o Flock_err [of fd w1 e w2] fresh
        by (auto simp: LockWriters_def LockClose_snd)
    qed
  qed
qed

end

section \<open>The network namespace\<close>

text \<open>
  \<open>CurrentNetNSInode\<close> over the result of \<open>os.Stat\<close>: an error, or the inode when the system's part of
  the file information is a \<open>*syscall.Stat_t\<close>.
\<close>

definition CurrentNetNSInode :: "go_error + u64 option \<Rightarrow> go_error + u64" where
  "CurrentNetNSInode st =
     (case st of
        Inl e \<Rightarrow> Inl e
      | Inr None \<Rightarrow> Inl (errors_New ''network namespace stat unavailable'')
      | Inr (Some ino) \<Rightarrow> Inr ino)"

section \<open>A concrete system\<close>

text \<open>
  The maps of a system by number and by pinned path, the handles, lock descriptors, sockets and
  listeners the process has open, and whether another process holds the lock.
\<close>

record os_world =
  os_bpf :: bpf_world
  os_infos :: "(u32, map_info) gomap"
  os_pins :: "(string, u32) gomap"
  os_handles :: "u32 list"
  os_lock_fds :: "int list"
  os_lock_holder :: "int option"
  os_lock_busy :: bool
  os_sockets :: "int list"
  os_listeners :: "int list"

definition ENOENT :: nat where "ENOENT = 2"
definition EWOULDBLOCK :: nat where "EWOULDBLOCK = 11"

definition os_open :: "u32 \<Rightarrow> os_world \<Rightarrow> (go_error + u32) \<times> os_world" where
  "os_open n w =
     (case map_of (os_infos w) n of
        None \<Rightarrow> (Inl (Errno ENOENT), w)
      | Some info \<Rightarrow> (Inr n, w\<lparr>os_handles := n # os_handles w\<rparr>))"

definition os_library :: "(u32, os_world) ebpf_library" where
  "os_library =
     \<lparr>NewMapFromID = os_open,
      LoadPinnedMap = (\<lambda>p w. case map_of (os_pins w) p of None \<Rightarrow> (Inl (Errno ENOENT), w) | Some n \<Rightarrow> os_open n w),
      MapInfo = (\<lambda>m w. (case map_of (os_infos w) m of None \<Rightarrow> Inl (Errno ENOENT) | Some info \<Rightarrow> Inr info, w)),
      MapClose = (\<lambda>m w. (None, w\<lparr>os_handles := remove1 m (os_handles w)\<rparr>))\<rparr>"

interpretation os_maps: map_library os_library "\<lambda>w. mset (os_handles w)" "\<lambda>w. (os_bpf w, os_lock_fds w, os_lock_holder w, os_sockets w, os_listeners w)"
  by unfold_locales (auto simp: os_library_def os_open_def split: option.splits)

definition os_holders :: "os_world \<Rightarrow> int list" where
  "os_holders w = filter (\<lambda>fd. os_lock_holder w = Some fd) (os_lock_fds w)"

definition os_lock :: "os_world lock_calls" where
  "os_lock =
     \<lparr>LockOpen = (\<lambda>w.
        let fd = 3 + sum_list (map abs (case_option [] (\<lambda>h. [h]) (os_lock_holder w) @ os_lock_fds w))
        in (Inr fd, w\<lparr>os_lock_fds := fd # os_lock_fds w\<rparr>)),
      LockFlock = (\<lambda>fd w.
        if os_lock_busy w \<or> list_ex (\<lambda>h. h \<noteq> fd) (os_holders w) \<or> fd \<notin> set (os_lock_fds w)
        then (Some (Errno EWOULDBLOCK), w)
        else (None, w\<lparr>os_lock_holder := Some fd\<rparr>)),
      LockClose = (\<lambda>fd w. (None, w\<lparr>os_lock_fds := removeAll fd (os_lock_fds w)\<rparr>))\<rparr>"

lemma fresh_fd: "3 + sum_list (map abs fds) \<notin> set (fds :: int list)"
proof
  assume "3 + sum_list (map abs fds) \<in> set fds"
  then have "abs (3 + sum_list (map abs fds)) \<le> sum_list (map abs fds)"
    by (intro member_le_sum_list) auto
  moreover have "0 \<le> sum_list (map abs fds)" by (rule sum_list_nonneg) auto
  ultimately show False by simp
qed

interpretation os_writers: writer_lock os_lock "\<lambda>w. set (os_lock_fds w)" "\<lambda>w. set (os_holders w)"
  "\<lambda>w. (os_bpf w, os_handles w, os_sockets w, os_listeners w)"
proof (unfold_locales, goal_cases)
  case (1 w fd w')
  then show ?case using fresh_fd [of "case_option [] (\<lambda>h. [h]) (os_lock_holder w) @ os_lock_fds w"]
    by (auto simp: os_lock_def os_holders_def Let_def split: option.splits)
qed (auto simp: os_lock_def os_holders_def Let_def list_ex_iff split: if_splits)

end
