(* ===== verification/Serve.thy ===== *)
theory Serve
  imports HttpApi KernelOpen PMStreamFacts
begin

text \<open>
  \<open>Serve\<close> and \<open>runServe\<close> of \<open>dualsteer-agent/serve.go\<close>: the command line of the daemon, the start-up
  sequence with its deferred releases, the operations the goroutines perform on the daemon, and
  the shutdown with its final cleanup. The daemon's mutex makes every operation one step, so what
  the event worker, the HTTP server and the retry ticker do is any interleaving of such steps: the
  lists of a \<open>serve_run\<close>. The theory \<open>ServeLoop\<close> has the goroutines and their channel one by one.
\<close>

section \<open>The flags of serve\<close>

record serve_flags =
  sf_Listen :: string
  sf_PolicyMap :: string
  sf_PathMap :: string

definition default_flags :: serve_flags where
  "default_flags = \<lparr>sf_Listen = ''unix:/run/dualsteer-agent.sock'', sf_PolicyMap = [], sf_PathMap = []\<rparr>"

definition ErrHelp :: go_error where
  "ErrHelp = Sentinel ''flag: help requested''"

definition set_flag :: "string \<Rightarrow> string \<Rightarrow> serve_flags \<Rightarrow> serve_flags option" where
  "set_flag name v f =
     (if name = ''listen'' then Some (f\<lparr>sf_Listen := v\<rparr>)
      else if name = ''policy-map'' then Some (f\<lparr>sf_PolicyMap := v\<rparr>)
      else if name = ''path-map'' then Some (f\<lparr>sf_PathMap := v\<rparr>)
      else None)"

text \<open>
  The split of \<open>name=value\<close>; an equals sign cannot be the first character. \<open>None\<close> is an argument that
  is not a flag, and the empty name the bare \<open>--\<close>.
\<close>

definition flag_name :: "string \<Rightarrow> string option" where
  "flag_name s =
     (if length s < 2 \<or> hd s \<noteq> CHR ''-'' then None
      else if s ! 1 = CHR ''-'' then Some (drop 2 s) else Some (drop 1 s))"

definition split_value :: "string \<Rightarrow> string \<times> string option" where
  "split_value name =
     (let n = hd name # takeWhile (\<lambda>c. c \<noteq> CHR ''='') (tl name) in
      (n, if length n < length name then Some (drop (Suc (length n)) name) else None))"

text \<open>\<open>flag.FlagSet.Parse\<close>; the result has the arguments that are left.\<close>

fun parse_flags :: "string list \<Rightarrow> serve_flags \<Rightarrow> go_error + serve_flags \<times> string list" where
  "parse_flags [] f = Inr (f, [])"
| "parse_flags (s # args) f =
     (case flag_name s of
        None \<Rightarrow> Inr (f, s # args)
      | Some name \<Rightarrow>
          if s = ''--'' then Inr (f, args)
          else if name = [] \<or> hd name = CHR ''-'' \<or> hd name = CHR ''='' then Inl (errors_New ''bad flag syntax'')
          else
            (case split_value name of
               (n, given) \<Rightarrow>
                 if set_flag n [] f = None
                 then Inl (if n = ''help'' \<or> n = ''h'' then ErrHelp else errors_New ''flag provided but not defined'')
                 else
                   (case given of
                      Some v \<Rightarrow> parse_flags args (the (set_flag n v f))
                    | None \<Rightarrow>
                        (case args of
                           [] \<Rightarrow> Inl (errors_New ''flag needs an argument'')
                         | v # rest \<Rightarrow> parse_flags rest (the (set_flag n v f))))))"

section \<open>The listener\<close>

text \<open>\<open>netip.ParseAddrPort\<close>.\<close>

definition ParseAddrPort :: "string \<Rightarrow> (addr \<times> u16) option" where
  "ParseAddrPort s =
     (if CHR '':'' \<notin> set s then None
      else
        let port = rev (takeWhile (\<lambda>c. c \<noteq> CHR '':'') (rev s));
            ip = take (length s - Suc (length port)) s;
            bracketed = (ip \<noteq> [] \<and> hd ip = CHR ''['') in
        if ip = [] \<or> port = [] then None
        else if bracketed \<and> (length ip < 2 \<or> last ip \<noteq> CHR '']'') then None
        else case decimal_value port of None \<Rightarrow> None | Some n \<Rightarrow>
          if 2 ^ 16 \<le> n then None
          else case ParseAddr (if bracketed then tl (butlast ip) else ip) of None \<Rightarrow> None | Some a \<Rightarrow>
            (case a of
               IPv4 w \<Rightarrow> if bracketed then None else Some (a, of_nat n)
             | _ \<Rightarrow> if bracketed then Some (a, of_nat n) else None))"

record ('m, 'w) serve_env =
  sv_Lock :: "'w lock_calls"
  sv_Library :: "('m, 'w) ebpf_library"
  sv_PolicyMap :: "'m \<Rightarrow> (conn_key, map_policy, 'w) ebpf_map"
  sv_PathMap :: "'m \<Rightarrow> (path_key, map_path, 'w) ebpf_map"
  sv_KeyNotExist :: go_error
  sv_Stat :: "'w \<Rightarrow> (go_error + u64 option) \<times> 'w"
  sv_Endian :: endian
  sv_Netlink :: "'w netlink_calls"
  sv_Order :: "'w \<Rightarrow> nat list \<times> 'w"
  sv_Validate :: "cp_leg \<Rightarrow> 'w \<Rightarrow> (go_error + int) \<times> 'w"
  sv_Listen :: "string \<Rightarrow> string \<Rightarrow> 'w \<Rightarrow> (go_error + int) \<times> 'w"
  sv_Chmod :: "string \<Rightarrow> 'w \<Rightarrow> go_error option \<times> 'w"
  sv_CloseListener :: "int \<Rightarrow> 'w \<Rightarrow> go_error option \<times> 'w"

definition open_listener :: "('m, 'w) serve_env \<Rightarrow> string \<Rightarrow> 'w \<Rightarrow> (go_error + int) \<times> 'w" where
  "open_listener E listen w =
     (case CutPrefix listen ''unix:'' of
        Some path \<Rightarrow>
          if \<not> HasPrefix path ''/'' then (Inl (errors_New ''Unix listen path must be absolute''), w)
          else (case sv_Listen E ''unix'' path w of
            (Inl e, w1) \<Rightarrow> (Inl e, w1)
          | (Inr l, w1) \<Rightarrow>
              (case sv_Chmod E path w1 of
                 (Some e, w2) \<Rightarrow> (Inl e, snd (sv_CloseListener E l w2))
               | (None, w2) \<Rightarrow> (Inr l, w2)))
      | None \<Rightarrow>
          if (case ParseAddrPort listen of None \<Rightarrow> True | Some (a, port) \<Rightarrow> \<not> IsLoopback a)
          then (Inl (errors_New ''TCP listen must be a literal loopback IP:port''), w)
          else sv_Listen E ''tcp'' listen w)"

section \<open>What the goroutines do\<close>

datatype serve_step = Operation daemon_command | ReadStatus

fun run_step :: "('w, 'z) daemon_env_scheme \<Rightarrow> serve_step \<Rightarrow> daemon \<times> 'w \<Rightarrow> daemon \<times> 'w" where
  "run_step s (Operation c) (d, w) = snd (run_command s c d w)"
| "run_step s ReadStatus (d, w) = (d, snd (Daemon_Status s d w))"

definition run_steps :: "('w, 'z) daemon_env_scheme \<Rightarrow> serve_step list \<Rightarrow> daemon \<times> 'w \<Rightarrow> daemon \<times> 'w" where
  "run_steps s steps dw = fold (run_step s) steps dw"

definition ContextCanceled :: go_error where
  "ContextCanceled = Sentinel ''context canceled''"

definition ErrServerClosed :: go_error where
  "ErrServerClosed = Sentinel ''http: Server closed''"

text \<open>The event worker: \<open>Run\<close> with \<open>Observe\<close>, then \<open>Fail\<close> unless it was only canceled.\<close>

definition observe_handler :: "('w, 'z) daemon_env_scheme \<Rightarrow> pm_event \<Rightarrow> daemon \<times> 'w \<Rightarrow> unit outcome \<times> daemon \<times> 'w" where
  "observe_handler s e dw = Daemon_Observe s e (fst dw) (snd dw)"

definition event_worker :: "('w, 'z) daemon_env_scheme \<Rightarrow> endian \<Rightarrow> u16 \<Rightarrow> pm_tick list \<Rightarrow> daemon \<times> 'w \<Rightarrow>
    unit outcome option \<times> daemon \<times> 'w" where
  "event_worker s en family tks dw =
     (case pm_Run en family (observe_handler s) tks dw of
        (Some (Err e), d, w) \<Rightarrow>
          (Some (Err e), if \<not> errors_Is e ContextCanceled then Daemon_Fail (Some e) d else d, w)
      | (r, d, w) \<Rightarrow> (r, d, w))"

text \<open>
  One life of the server: the steps while the main loop runs, the failure that ended it if it was
  not a signal, the steps until the workers are done, the result of \<open>Shutdown\<close>, and the steps of
  handlers that \<open>Close\<close> did not wait for after \<open>Shutdown\<close> had timed out.
\<close>

record serve_run =
  sr_Running :: "serve_step list"
  sr_Cause :: "go_error option"
  sr_Draining :: "serve_step list"
  sr_Shutdown :: "go_error option"
  sr_Late :: "serve_step list"

definition serve_cause :: "go_error option \<Rightarrow> go_error option" where
  "serve_cause cause =
     (case cause of
        None \<Rightarrow> None
      | Some e \<Rightarrow> if errors_Is e ErrServerClosed \<or> errors_Is e ContextCanceled then None else Some e)"

definition serve_main :: "('w, 'z) daemon_env_scheme \<Rightarrow> serve_run \<Rightarrow> u64 \<Rightarrow> 'w \<Rightarrow> unit outcome \<times> 'w" where
  "serve_main s run inode w =
     (let (d1, w1) = run_steps s (sr_Running run) (NewDaemon inode, w);
          (d2, w2) = run_steps s (sr_Draining run) (d1, w1);
          (cleanupErr, w3) = Daemon_Cleanup s d2 w2;
          (d4, w4) = run_steps s (if sr_Shutdown run = None then [] else sr_Late run) (d2, w3)
      in (error_outcome (errors_Join [serve_cause (sr_Cause run), sr_Shutdown run, cleanupErr]), w4))"

section \<open>Start-up\<close>

definition serve_handles :: "('m, 'w) serve_env \<Rightarrow> 'm \<times> 'm \<Rightarrow> 'w kernel_handles" where
  "serve_handles E ms = \<lparr>km_policy = sv_PolicyMap E (fst ms), km_path = sv_PathMap E (snd ms)\<rparr>"

definition serve_daemon_env :: "('m, 'w) serve_env \<Rightarrow> 'm \<times> 'm \<Rightarrow> 'w daemon_env" where
  "serve_daemon_env E ms =
     with_validator (kernel_store (sv_KeyNotExist E) (serve_handles E ms) (sv_Order E)) (sv_Validate E)"

definition serve_subscribed :: "('m, 'w) serve_env \<Rightarrow> serve_run \<Rightarrow> string \<Rightarrow> 'm \<times> 'm \<Rightarrow> u64 \<Rightarrow> 'w \<Rightarrow> unit outcome \<times> 'w" where
  "serve_subscribed E run listen ms inode w =
     (case open_listener E listen w of
        (Inl e, w1) \<Rightarrow> (Err e, w1)
      | (Inr l, w1) \<Rightarrow>
          let (r, w2) = serve_main (serve_daemon_env E ms) run inode w1 in (r, snd (sv_CloseListener E l w2)))"

definition serve_opened :: "('m, 'w) serve_env \<Rightarrow> serve_run \<Rightarrow> string \<Rightarrow> 'm \<times> 'm \<Rightarrow> 'w \<Rightarrow> unit outcome \<times> 'w" where
  "serve_opened E run listen ms w =
     (let (st, w1) = sv_Stat E w in
      case CurrentNetNSInode st of
        Inl e \<Rightarrow> (Err e, w1)
      | Inr inode \<Rightarrow>
          (case RequireEmptyNamespace (serve_handles E ms) inode w1 of
             (Some e, w2) \<Rightarrow> (Err e, w2)
           | (None, w2) \<Rightarrow>
               (case SubscribePM (sv_Endian E) (sv_Netlink E) w2 of
                  (Panic, w3) \<Rightarrow> (Panic, w3)
                | (Err e, w3) \<Rightarrow> (Err (Errorf ''subscribe MPTCP PM before readiness'' [e]), w3)
                | (Ok (fd, family), w3) \<Rightarrow>
                    let (r, w4) = serve_subscribed E run listen ms inode w3
                    in (r, snd (CloseFd (sv_Netlink E) fd w4)))))"

definition Serve :: "('m, 'w) serve_env \<Rightarrow> serve_run \<Rightarrow> string \<Rightarrow> string \<Rightarrow> string \<Rightarrow> 'w \<Rightarrow> unit outcome \<times> 'w" where
  "Serve E run listen policySelector pathSelector w =
     (case LockWriters (sv_Lock E) w of
        (Inl e, w1) \<Rightarrow> (Err e, w1)
      | (Inr lockfd, w1) \<Rightarrow>
          let (r, w2) =
            (case OpenKernelMaps (sv_Library E) policySelector pathSelector w1 of
               (Inl e, w2) \<Rightarrow> (Err e, w2)
             | (Inr ms, w2) \<Rightarrow>
                 let (r, w3) = serve_opened E run listen ms w2
                 in (r, snd (KernelMaps_Close (sv_Library E) ms w3)))
          in (r, snd (LockClose (sv_Lock E) lockfd w2)))"

definition runServe :: "('m, 'w) serve_env \<Rightarrow> serve_run \<Rightarrow> string list \<Rightarrow> 'w \<Rightarrow> unit outcome \<times> 'w" where
  "runServe E run args w =
     (case parse_flags args default_flags of
        Inl e \<Rightarrow> if errors_Is e ErrHelp then (Ok (), w) else (Err e, w)
      | Inr (f, rest) \<Rightarrow>
          if rest \<noteq> [] then (Err (errors_New ''serve accepts only named flags''), w)
          else if sf_PolicyMap f = [] \<or> sf_PathMap f = []
          then (Err (errors_New ''serve requires --policy-map and --path-map''), w)
          else Serve E run (sf_Listen f) (sf_PolicyMap f) (sf_PathMap f) w)"

end
