(* ===== verification/ServeFacts.thy ===== *)
theory ServeFacts
  imports Serve
begin

text \<open>
  Facts about the server: the event worker and every goroutine perform operations of the daemon, the
  start-up changes nothing in the scheduler's maps, a start over a nonempty namespace is refused,
  and what the maps hold when \<open>Serve\<close> returns. The locale \<open>serve_laws\<close> states what the calls
  around the daemon leave alone.
\<close>

section \<open>The event worker performs operations\<close>

definition handled :: "(pm_event \<Rightarrow> 's \<Rightarrow> unit outcome \<times> 's) \<Rightarrow> pm_event list \<Rightarrow> 's \<Rightarrow> 's" where
  "handled handle es s = fold (\<lambda>e s. snd (handle e s)) es s"

lemma run_messages_handled_by: "\<exists>es. snd (run_messages en family handle ms s) = handled handle es s"
proof (induction ms arbitrary: s)
  case Nil
  show ?case by (rule exI [of _ "[]"]) (simp add: handled_def)
next
  case (Cons m ms)
  show ?case
  proof (cases "nl_Type m = family \<and> nl_Type m \<noteq> NLMSG_OVERRUN \<and> nl_Type m \<noteq> NLMSG_ERROR")
    case False
    have "\<exists>es. s = handled handle es s" by (rule exI [of _ "[]"]) (simp add: handled_def)
    with False Cons.IH [of s] show ?thesis by auto
  next
    case True
    have nil: "\<exists>es. s = handled handle es s" by (rule exI [of _ "[]"]) (simp add: handled_def)
    show ?thesis
    proof (cases "DecodePMEvent en (nl_Data m)")
      case (Ok e)
      obtain r s1 where h: "handle e s = (r, s1)" by force
      obtain es where es: "snd (run_messages en family handle ms s1) = handled handle es s1" using Cons.IH by blast
      have one: "\<exists>fs. s1 = handled handle fs s" by (rule exI [of _ "[e]"]) (simp add: handled_def h)
      have more: "\<exists>fs. handled handle es s1 = handled handle fs s"
        by (rule exI [of _ "e # es"]) (simp add: handled_def h)
      show ?thesis using True Ok h es one more by (cases r) auto
    qed (use True nil in auto)
  qed
qed

lemma run_tick_handled_by: "\<exists>es. snd (run_tick en family handle tk s) = handled handle es s"
proof -
  have nil: "\<exists>es. s = handled handle es s" by (rule exI [of _ "[]"]) (simp add: handled_def)
  have dg: "\<exists>es. snd (run_datagram en family handle dg s) = handled handle es s" for dg
    using nil run_messages_handled_by [of en family handle _ s]
    by (auto simp: run_datagram_def split: outcome.splits)
  show ?thesis using nil dg by (auto simp: run_tick_def split: option.splits sum.splits)
qed

lemma pm_Run_handled_by: "\<exists>es. snd (pm_Run en family handle tks s) = handled handle es s"
proof (induction tks arbitrary: s)
  case Nil
  show ?case by (rule exI [of _ "[]"]) (simp add: handled_def)
next
  case (Cons tk tks)
  obtain r s1 where t: "run_tick en family handle tk s = (r, s1)" by force
  with run_tick_handled_by [of en family handle tk s] obtain es where es: "s1 = handled handle es s" by auto
  obtain fs where "snd (pm_Run en family handle tks s1) = handled handle fs s1" using Cons.IH by blast
  then have "snd (pm_Run en family handle tks s1) = handled handle (es @ fs) s" by (simp add: es handled_def)
  then show ?case using t es by (cases r) auto
qed

lemma observe_handled: "handled (observe_handler s) es (d, w) = run_steps s (map (Operation \<circ> CObserve) es) (d, w)"
proof (induction es arbitrary: d w)
  case Nil
  then show ?case by (simp add: handled_def run_steps_def)
next
  case (Cons e es)
  obtain d1 w1 where "snd (Daemon_Observe s e d w) = (d1, w1)" by force
  with Cons [of d1 w1] show ?case by (simp add: handled_def run_steps_def observe_handler_def)
qed

lemma run_steps_append: "run_steps s (xs @ ys) dw = run_steps s ys (run_steps s xs dw)"
  by (simp add: run_steps_def)

text \<open>The worker alone is a sequence of \<open>Observe\<close> operations, with one \<open>Fail\<close> at the end when the stream is lost.\<close>

lemma event_worker_steps:
  "\<exists>es fs. snd (event_worker s en family tks (d, w)) =
     run_steps s (map (Operation \<circ> CObserve) es @ map (Operation \<circ> CFail) fs) (d, w) \<and>
     (fs = [] \<or> (\<exists>e. fs = [e] \<and> fst (event_worker s en family tks (d, w)) = Some (Err e) \<and> \<not> errors_Is e ContextCanceled))"
proof -
  obtain r d1 w1 where run: "pm_Run en family (observe_handler s) tks (d, w) = (r, d1, w1)" by (metis prod.exhaust)
  from pm_Run_handled_by [of en family "observe_handler s" tks "(d, w)"] obtain es
    where "snd (pm_Run en family (observe_handler s) tks (d, w)) = handled (observe_handler s) es (d, w)" by (elim exE)
  then have es: "run_steps s (map (Operation \<circ> CObserve) es) (d, w) = (d1, w1)" using run by (simp add: observe_handled)
  show ?thesis
  proof (cases "\<exists>e. r = Some (Err e) \<and> \<not> errors_Is e ContextCanceled")
    case True
    then obtain e where e: "r = Some (Err e)" "\<not> errors_Is e ContextCanceled" by blast
    have "snd (event_worker s en family tks (d, w)) = (Daemon_Fail (Some e) d1, w1)"
      "fst (event_worker s en family tks (d, w)) = Some (Err e)"
      using run e by (simp_all add: event_worker_def)
    with e es show ?thesis
      by (intro exI [of _ es] exI [of _ "[e]"]) (simp add: run_steps_append, simp add: run_steps_def)
  next
    case False
    then have "snd (event_worker s en family tks (d, w)) = (d1, w1)"
      using run by (auto simp: event_worker_def split: option.splits outcome.splits)
    with es show ?thesis by (intro exI [of _ es] exI [of _ "[]"]) simp
  qed
qed

section \<open>The steps keep the invariant\<close>

context daemon_laws
begin

lemma run_step_ok:
  assumes inv: "daemon_inv d (pol w) (pth w)" and run: "run_step s step (d, w) = (d', w')"
  shows "daemon_inv d' (pol w') (pth w') \<and> d_netns d' = d_netns d \<and> outside_same (d_netns d) (pol w) (pth w) (pol w') (pth w')"
proof (cases step)
  case (Operation c)
  obtain r where "run_command s c d w = (r, d', w')" using run Operation by (cases "run_command s c d w") auto
  from run_command_ok [OF inv this] show ?thesis by (simp add: op_ok_def)
next
  case ReadStatus
  obtain st w1 where st: "Daemon_Status s d w = (st, w1)" by force
  have "state_ok d" using inv by (simp add: daemon_inv_def)
  from Daemon_Status_true [OF this st] have "pol w1 = pol w" "pth w1 = pth w" by simp_all
  then show ?thesis using run ReadStatus st inv by auto
qed

lemma run_steps_ok:
  assumes inv: "daemon_inv d (pol w) (pth w)" and run: "run_steps s steps (d, w) = (d', w')"
  shows "daemon_inv d' (pol w') (pth w') \<and> d_netns d' = d_netns d \<and> outside_same (d_netns d) (pol w) (pth w) (pol w') (pth w')"
  using assms
proof (induction steps arbitrary: d w)
  case Nil
  then show ?case by (simp add: run_steps_def)
next
  case (Cons step steps)
  obtain d1 w1 where s1: "run_step s step (d, w) = (d1, w1)" by force
  note ok = run_step_ok [OF Cons.prems(1) s1]
  have "run_steps s steps (d1, w1) = (d', w')" using Cons.prems(2) s1 by (simp add: run_steps_def)
  from Cons.IH [OF _ this] ok outside_same_trans show ?case by (metis (no_types, lifting))
qed

lemma Daemon_Cleanup_inv:
  assumes inv: "daemon_inv d (pol w) (pth w)" and run: "Daemon_Cleanup s d w = (e, w')"
  shows "daemon_inv d (pol w') (pth w')"
proof -
  obtain ns w1 where mo: "MapOrder s w = (ns, w1)" by force
  have f: "pol w1 = pol w" "pth w1 = pth w" using MapOrder_frame [OF mo] by simp_all
  obtain fs w2 where cc: "cleanup_connections s d (go_range ns (d_connections d)) w1 = (fs, w2)" by force
  have "w2 = w'" using run mo cc by (simp add: Daemon_Cleanup_def)
  then have shrink: "\<And>k. pol w' k = pol w k \<or> pol w' k = None" "\<And>q. pth w' q = pth w q \<or> pth w' q = None"
    using cleanup_connections_effect [OF cc] f by simp_all
  have "maps_ok d (pol w') (pth w')"
    using inv shrink unfolding daemon_inv_def maps_ok_def by metis
  moreover have "generations_ok d (pol w')"
    unfolding generations_ok_def
  proof (intro allI impI)
    fix t c dc mp
    assume h: "map_of (d_connections d) t = Some c" "map_of (d_contexts d) (oc_owner c) = Some dc"
      "pol w' (conn_of d t) = Some mp"
    then have "pol w (conn_of d t) = Some mp" using shrink(1) [of "conn_of d t"] by simp
    then show "policy_follows mp (dc_assignment dc)" by (rule inv_follows [OF inv h(1,2)])
  qed
  ultimately show ?thesis using inv by (simp add: daemon_inv_def)
qed

text \<open>The main part: whatever happens it stays in its namespace, and a nil result means the namespace is empty.\<close>

lemma serve_main_effect:
  assumes empty: "empty_namespace inode (pol w) (pth w)" and run: "serve_main s sr inode w = (r, w')"
  shows "outside_same inode (pol w) (pth w) (pol w') (pth w') \<and> r \<noteq> Panic \<and>
    (r = Ok () \<longrightarrow> empty_namespace inode (pol w') (pth w'))"
proof -
  have inv: "daemon_inv (NewDaemon inode) (pol w) (pth w)" by (rule NewDaemon_inv [OF empty])
  have net: "d_netns (NewDaemon inode) = inode" by (simp add: NewDaemon_def)
  obtain d1 w1 where s1: "run_steps s (sr_Running sr) (NewDaemon inode, w) = (d1, w1)" by force
  obtain d2 w2 where s2: "run_steps s (sr_Draining sr) (d1, w1) = (d2, w2)" by force
  obtain ce w3 where cl: "Daemon_Cleanup s d2 w2 = (ce, w3)" by force
  obtain d4 w4 where s4: "run_steps s (if sr_Shutdown sr = None then [] else sr_Late sr) (d2, w3) = (d4, w4)" by force
  have res: "r = error_outcome (errors_Join [serve_cause (sr_Cause sr), sr_Shutdown sr, ce])" "w' = w4"
    using run s1 s2 cl s4 by (simp_all add: serve_main_def Let_def)
  note ok1 = run_steps_ok [OF inv s1]
  then have inv1: "daemon_inv d1 (pol w1) (pth w1)" and n1: "d_netns d1 = inode" using net by simp_all
  note ok2 = run_steps_ok [OF inv1 s2]
  then have inv2: "daemon_inv d2 (pol w2) (pth w2)" and n2: "d_netns d2 = inode" using n1 by simp_all
  note c = Daemon_Cleanup_effect [OF inv2 cl]
  have o3: "outside_same inode (pol w) (pth w) (pol w3) (pth w3)"
    using ok1 ok2 c net n1 n2 outside_same_trans by metis
  show ?thesis
  proof (cases "sr_Shutdown sr")
    case None
    then have "w4 = w3" using s4 by (simp add: run_steps_def)
    then show ?thesis using res o3 c None n2 by (auto simp: empty_namespace_def)
  next
    case (Some e)
    have "outside_same inode (pol w3) (pth w3) (pol w4) (pth w4)"
    proof -
      have "daemon_inv d2 (pol w3) (pth w3)" by (rule Daemon_Cleanup_inv [OF inv2 cl])
      from run_steps_ok [OF this s4] n2 show ?thesis by simp
    qed
    then show ?thesis using res o3 Some outside_same_trans by (auto; metis)
  qed
qed

end

end
