(* ===== verification/StoreFrame.thy ===== *)
theory StoreFrame
  imports HttpApi
begin

text \<open>
  What the operations of the daemon leave alone: whatever no call of the store, of the run-time and
  of the address validator changes, no operation changes. The server uses it for the handles and
  locks of the process.
\<close>

locale store_frame =
  fixes s :: "('w, 'z) daemon_env_scheme"
    and v :: "'w \<Rightarrow> 'r"
  assumes LookupPolicy_view: "LookupPolicy s k w = (r, w') \<Longrightarrow> v w' = v w"
    and UpdatePolicy_view: "UpdatePolicy s k p w = (u, w') \<Longrightarrow> v w' = v w"
    and DeletePolicy_view: "DeletePolicy s k w = (u, w') \<Longrightarrow> v w' = v w"
    and Paths_view: "Paths s k w = (me, w') \<Longrightarrow> v w' = v w"
    and UpdatePath_view: "UpdatePath s q x w = (u, w') \<Longrightarrow> v w' = v w"
    and DeletePath_view: "DeletePath s q w = (u, w') \<Longrightarrow> v w' = v w"
    and MapOrder_view: "MapOrder s w = (ns, w') \<Longrightarrow> v w' = v w"
    and ValidateAddr_view: "ValidateAddr s l w = (ra, w') \<Longrightarrow> v w' = v w"
begin

lemmas call_views = LookupPolicy_view UpdatePolicy_view DeletePolicy_view Paths_view UpdatePath_view DeletePath_view
  MapOrder_view ValidateAddr_view

lemma stage_paths_view: "stage_paths s kvs staged w = (e, ks, w') \<Longrightarrow> v w' = v w"
  by (induction kvs arbitrary: staged w) (auto dest!: call_views split: prod.splits option.splits; metis call_views)+

lemma rollback_paths_view: "rollback_paths s before ks w = (fs, w') \<Longrightarrow> v w' = v w"
  by (induction ks arbitrary: w fs)
    (auto simp: Let_def dest!: call_views split: prod.splits option.splits if_splits; metis)+

lemma rollback_view: "rollback s before staged e w = (r, w') \<Longrightarrow> v w' = v w"
  by (auto simp: rollback_def dest!: rollback_paths_view split: prod.splits)

lemma delete_paths_view: "delete_paths s ks w = (fs, w') \<Longrightarrow> v w' = v w"
  by (induction ks arbitrary: w fs)
    (auto simp: Let_def dest!: call_views split: prod.splits option.splits if_splits; metis)+

lemmas path_views = stage_paths_view rollback_view delete_paths_view

lemma stage_and_commit_view: "stage_and_commit s p key want before w = (r, w') \<Longrightarrow> v w' = v w"
  by (auto simp: stage_and_commit_def Let_def dest!: call_views path_views
      split: prod.splits option.splits outcome.splits)

lemma ApplyLive_view: "ApplyLive s p key w = (r, w') \<Longrightarrow> v w' = v w"
  by (auto simp: ApplyLive_def Let_def dest!: call_views stage_and_commit_view
      split: prod.splits option.splits outcome.splits sum.splits if_splits)

lemma DeleteLive_view: "DeleteLive s key w = (r, w') \<Longrightarrow> v w' = v w"
  by (auto simp: DeleteLive_def Let_def dest!: call_views path_views split: prod.splits option.splits if_splits)

lemma Daemon_plan_view: "Daemon_plan s c a w = (r, w') \<Longrightarrow> v w' = v w"
  by (auto simp: Daemon_plan_def Let_def dest!: call_views split: prod.splits sum.splits)

lemma repair_updates_view: "repair_updates s before kvs w = (e, w') \<Longrightarrow> v w' = v w"
  by (induction kvs arbitrary: w) (auto dest!: call_views split: prod.splits option.splits if_splits; metis)+

lemma repair_deletes_view: "repair_deletes s want ks w = (e, w') \<Longrightarrow> v w' = v w"
  by (induction ks arbitrary: w) (auto dest!: call_views split: prod.splits option.splits if_splits; metis)+

lemma repair_view: "repair s key want w = (e, w') \<Longrightarrow> v w' = v w"
  by (auto simp: repair_def Let_def dest!: call_views repair_updates_view repair_deletes_view
      split: prod.splits option.splits)

lemmas live_views = ApplyLive_view DeleteLive_view Daemon_plan_view repair_view

lemma applyConnection_view: "applyConnection s key c a w = (r, w') \<Longrightarrow> v w' = v w"
  by (auto simp: applyConnection_def Let_def dest!: call_views live_views
      split: prod.splits sum.splits outcome.splits if_splits)

lemma find_owner_view: "find_owner s d e w = (r, w') \<Longrightarrow> v w' = v w"
  by (auto simp: find_owner_def Let_def dest!: call_views split: prod.splits)

lemma assign_owner_view: "assign_owner s d c w = (c1, x, w') \<Longrightarrow> v w' = v w"
  by (auto simp: assign_owner_def dest!: find_owner_view split: prod.splits option.splits if_splits)

lemma release_view: "release s t c d w = (fs, d', w') \<Longrightarrow> v w' = v w"
  by (auto simp: release_def Let_def dest!: live_views split: prod.splits option.splits if_splits)

lemma reconcile_connection_view: "reconcile_connection s t d w = (r, d', w') \<Longrightarrow> v w' = v w"
  by (auto simp: reconcile_connection_def Let_def dest!: release_view assign_owner_view applyConnection_view
      split: prod.splits option.splits outcome.splits if_splits)

lemma reconcile_connections_view: "reconcile_connections s ts fs d w = (r, d', w') \<Longrightarrow> v w' = v w"
  by (induction ts arbitrary: fs d w)
    (auto dest!: reconcile_connection_view split: prod.splits outcome.splits; metis)+

lemma reconcileLocked_view: "reconcileLocked s d w = (r, d', w') \<Longrightarrow> v w' = v w"
  by (auto simp: reconcileLocked_def Let_def dest!: call_views reconcile_connections_view
      split: prod.splits outcome.splits)

lemma reconcile_ignored_view: "reconcile_ignored s d w = (r, d', w') \<Longrightarrow> v w' = v w"
  by (auto simp: reconcile_ignored_def dest!: reconcileLocked_view split: prod.splits outcome.splits)

lemma validate_legs_view: "validate_legs s ls w = (e, w') \<Longrightarrow> v w' = v w"
  by (induction ls arbitrary: w) (auto dest!: call_views split: prod.splits sum.splits; metis)+

lemma Daemon_Put_view: "Daemon_Put s a d w = (r, d', w') \<Longrightarrow> v w' = v w"
  by (auto simp: Daemon_Put_def Let_def simp del: validate_legs.simps dest!: validate_legs_view reconcileLocked_view
      split: prod.splits option.splits)

lemma Daemon_Observe_view: "Daemon_Observe s e d w = (r, d', w') \<Longrightarrow> v w' = v w"
  by (auto simp: Daemon_Observe_def observe_open_def Let_def dest!: reconcile_ignored_view
      split: option.splits sum.splits if_splits)

lemma run_command_view: "run_command s cmd d w = (r, d', w') \<Longrightarrow> v w' = v w"
  by (cases cmd) (auto simp: Daemon_Delete_def Daemon_Retry_def dest!: Daemon_Put_view Daemon_Observe_view reconcileLocked_view)

lemma cleanup_connections_view: "cleanup_connections s d cs w = (fs, w') \<Longrightarrow> v w' = v w"
proof (induction cs arbitrary: w fs)
  case Nil
  then show ?case by simp
next
  case (Cons c cs)
  then show ?case
    by (cases c) (auto simp: Let_def dest!: live_views split: prod.splits if_splits)
qed

lemma Daemon_Cleanup_view: "Daemon_Cleanup s d w = (e, w') \<Longrightarrow> v w' = v w"
  by (auto simp: Daemon_Cleanup_def Let_def dest!: call_views cleanup_connections_view split: prod.splits)

lemma bindings_of_view: "bindings_of s d cid dc ts w = (bs, w') \<Longrightarrow> v w' = v w"
proof (induction ts arbitrary: w bs)
  case Nil
  then show ?case by simp
next
  case (Cons t ts)
  then show ?case
    by (auto simp: binding_of_def Let_def dest!: call_views split: prod.splits option.splits if_splits; metis)
qed

lemma contexts_status_view: "contexts_status s d cids w = (css, w') \<Longrightarrow> v w' = v w"
proof (induction cids arbitrary: w css)
  case Nil
  then show ?case by simp
next
  case (Cons cid cids)
  then show ?case
    by (auto simp: context_status_of_def Let_def dest!: bindings_of_view split: prod.splits option.splits; metis)
qed

lemma Daemon_Status_view: "Daemon_Status s d w = (st, w') \<Longrightarrow> v w' = v w"
  by (auto simp: Daemon_Status_def Let_def dest!: contexts_status_view split: prod.splits)

end

end
