(* ===== verification/ServeLaws.thy ===== *)
theory ServeLaws
  imports ServeFacts StoreFrame
begin

text \<open>
  What \<open>Serve\<close> relies on outside the daemon, one locale per interface, and what the whole of \<open>Serve\<close>
  does to the kernel maps and to the resources of its process: the map handles, the lock file, the
  netlink sockets and the listeners.
\<close>

section \<open>The resources of the process\<close>

record 'm process =
  pr_Maps :: "'m multiset"
  pr_LockFds :: "int set"
  pr_Holds :: "int set"
  pr_Sockets :: "int multiset"
  pr_Listeners :: "int multiset"

text \<open>Two processes are equal when they agree on one kind of resource and on all the others.\<close>

lemma process_same:
  "pr_Maps a = pr_Maps b \<Longrightarrow> pr_Maps_update (\<lambda>_. {#}) a = pr_Maps_update (\<lambda>_. {#}) b \<Longrightarrow> a = b"
  "pr_LockFds a = pr_LockFds b \<Longrightarrow> pr_Holds a = pr_Holds b \<Longrightarrow>
    pr_LockFds_update (\<lambda>_. {}) (pr_Holds_update (\<lambda>_. {}) a) = pr_LockFds_update (\<lambda>_. {}) (pr_Holds_update (\<lambda>_. {}) b) \<Longrightarrow> a = b"
  "pr_Sockets a = pr_Sockets b \<Longrightarrow> pr_Sockets_update (\<lambda>_. {#}) a = pr_Sockets_update (\<lambda>_. {#}) b \<Longrightarrow> a = b"
  "pr_Listeners a = pr_Listeners b \<Longrightarrow> pr_Listeners_update (\<lambda>_. {#}) a = pr_Listeners_update (\<lambda>_. {#}) b \<Longrightarrow> a = b"
  for a b :: "'m process"
  by (cases a; cases b; simp)+

text \<open>A map whose methods leave a view of the world alone.\<close>

locale ebpf_frame =
  fixes m :: "('k, 'v, 'w) ebpf_map"
    and v :: "'w \<Rightarrow> 'r"
  assumes Lookup_view: "Map_Lookup m k w = (r, w') \<Longrightarrow> v w' = v w"
    and Update_view: "Map_Update m k x w = (u, w') \<Longrightarrow> v w' = v w"
    and Delete_view: "Map_Delete m k w = (u, w') \<Longrightarrow> v w' = v w"
    and Iterate_view: "Map_Iterate m w = (it, w') \<Longrightarrow> v w' = v w"

locale kernel_frame =
  policy_map: ebpf_frame "km_policy h" v + path_map: ebpf_frame "km_path h" v
  for h :: "'w kernel_handles" and v :: "'w \<Rightarrow> 'r" +
  fixes kne :: go_error
    and order :: "'w \<Rightarrow> nat list \<times> 'w"
    and validate :: "cp_leg \<Rightarrow> 'w \<Rightarrow> (go_error + int) \<times> 'w"
  assumes order_view: "order w = (ns, w') \<Longrightarrow> v w' = v w"
    and validate_view: "validate l w = (ra, w') \<Longrightarrow> v w' = v w"
begin

lemma RequireEmptyNamespace_view: "RequireEmptyNamespace h inode w = (e, w') \<Longrightarrow> v w' = v w"
  by (auto simp: RequireEmptyNamespace_def Let_def dest!: policy_map.Iterate_view path_map.Iterate_view
      split: prod.splits option.splits)

end

sublocale kernel_frame \<subseteq> store: store_frame "with_validator (kernel_store kne h order) validate" v
proof (unfold_locales, unfold with_validator_simps kernel_store_simps km_write_unfold, goal_cases)
  case (1 k w r w')
  then show ?case
    by (auto simp: km_LookupPolicy_def dest: policy_map.Lookup_view split: prod.splits sum.splits)
next
  case (4 k w me w')
  then show ?case by (auto simp: km_Paths_def Let_def dest: path_map.Iterate_view split: prod.splits)
qed (auto dest: policy_map.Update_view policy_map.Delete_view path_map.Update_view path_map.Delete_view
    order_view validate_view)

context kernel_frame
begin

lemma daemon_frame: "store_frame (with_validator (kernel_store kne h order) validate) v"
  by (rule store.store_frame_axioms)

end

text \<open>The netlink calls: a new socket is open until it is closed, and nothing else is touched.\<close>

locale netlink_sockets =
  fixes u :: "('w, 'z) netlink_calls_scheme"
    and socks :: "'w \<Rightarrow> int multiset"
    and view :: "'w \<Rightarrow> 'r"
  assumes Socket_ok: "Socket u w = (Inr fd, w') \<Longrightarrow> socks w' = add_mset fd (socks w) \<and> view w' = view w"
    and Socket_err: "Socket u w = (Inl e, w') \<Longrightarrow> socks w' = socks w \<and> view w' = view w"
    and Bind_frame: "Bind u fd w = (x, w') \<Longrightarrow> socks w' = socks w \<and> view w' = view w"
    and Setsockopt_frame: "SetsockoptInt u fd lv opt val w = (x, w') \<Longrightarrow> socks w' = socks w \<and> view w' = view w"
    and Timeout_frame: "SetRecvTimeout u fd sec w = (x, w') \<Longrightarrow> socks w' = socks w \<and> view w' = view w"
    and Sendto_frame: "Sendto u fd b w = (x, w') \<Longrightarrow> socks w' = socks w \<and> view w' = view w"
    and Recvfrom_frame: "Recvfrom u fd n w = (y, w') \<Longrightarrow> socks w' = socks w \<and> view w' = view w"
    and Nonblock_frame: "SetNonblock u fd w = (x, w') \<Longrightarrow> socks w' = socks w \<and> view w' = view w"
    and Range_frame: "RangeOrder u w = (ns, w') \<Longrightarrow> socks w' = socks w \<and> view w' = view w"
    and CloseFd_frame: "CloseFd u fd w = (x, w') \<Longrightarrow> socks w' = socks w - {#fd#} \<and> view w' = view w"
begin

lemma CloseFd_snd: "socks (snd (CloseFd u fd w)) = socks w - {#fd#}" "view (snd (CloseFd u fd w)) = view w"
  using CloseFd_frame [of fd w "fst (CloseFd u fd w)" "snd (CloseFd u fd w)"] by simp_all

text \<open>From the world \<open>w\<close> after the socket \<open>fd\<close> was opened: a success keeps it, a failure gives it back.\<close>

definition settles :: "int \<Rightarrow> 'w \<Rightarrow> (int \<times> u16) outcome \<times> 'w \<Rightarrow> bool" where
  "settles fd w rw \<longleftrightarrow> view (snd rw) = view w \<and>
     (case fst rw of Ok (fd', family) \<Rightarrow> fd' = fd \<and> socks (snd rw) = socks w
      | Err e \<Rightarrow> socks (snd rw) = socks w - {#fd#} | Panic \<Rightarrow> True)"

lemma settles_fail: "socks w1 = socks w \<Longrightarrow> view w1 = view w \<Longrightarrow> settles fd w (subscribe_fail u fd e w1)"
  by (simp add: settles_def subscribe_fail_def CloseFd_snd)

lemma settles_or_fail:
  assumes "socks w1 = socks w \<and> view w1 = view w"
    and "x = None \<Longrightarrow> settles fd w (next w1)"
  shows "settles fd w (or_fail u fd (x, w1) next)"
  using assms settles_fail [of w1 w] by (cases x) (simp_all add: or_fail_def)

lemma resolve_messages_frame:
  "resolve_messages en u ms found w = (r, w') \<Longrightarrow> socks w' = socks w \<and> view w' = view w"
proof (induction ms arbitrary: found w)
  case Nil
  then show ?case by simp
next
  case (Cons m ms)
  obtain ns w1 where r: "RangeOrder u w = (ns, w1)" by force
  show ?case using Cons r Range_frame [OF r] by (auto split: outcome.splits)
qed

lemma join_group_settles: "socks w1 = socks w \<and> view w1 = view w \<Longrightarrow> settles fd w (join_group u fd found w1)"
proof -
  assume w1: "socks w1 = socks w \<and> view w1 = view w"
  obtain x w2 where s: "SetsockoptInt u fd SOL_NETLINK NETLINK_ADD_MEMBERSHIP (int (unat (snd found))) w1 = (x, w2)" by force
  obtain y w3 where n: "SetNonblock u fd w2 = (y, w3)" by force
  have w2: "socks w2 = socks w \<and> view w2 = view w" using Setsockopt_frame [OF s] w1 by simp
  have w3: "socks w3 = socks w \<and> view w3 = view w" using Nonblock_frame [OF n] w2 by simp
  have "settles fd w (or_fail u fd (y, w3) (\<lambda>w4. (Ok (fd, fst found), w4)))"
    by (rule settles_or_fail [OF w3]) (simp add: settles_def w3)
  then have "settles fd w (or_fail u fd (x, w2) (\<lambda>w2. or_fail u fd (SetNonblock u fd w2) (\<lambda>w4. (Ok (fd, fst found), w4))))"
    by (intro settles_or_fail [OF w2]) (simp add: n)
  then show ?thesis using settles_fail [of w1 w] w1 unfolding join_group_def s by simp
qed

lemma resolve_and_join_settles: "socks w1 = socks w \<and> view w1 = view w \<Longrightarrow> settles fd w (resolve_and_join en u fd w1)"
proof -
  assume w1: "socks w1 = socks w \<and> view w1 = view w"
  obtain x w2 where r: "Recvfrom u fd 65536 w1 = (x, w2)" by force
  have w2: "socks w2 = socks w \<and> view w2 = view w" using Recvfrom_frame [OF r] w1 by simp
  note bad = settles_fail [of w2 w fd]
  show ?thesis
  proof (cases x)
    case (Inl e)
    then show ?thesis using r w2 bad by (simp add: resolve_and_join_def)
  next
    case (Inr data)
    show ?thesis
    proof (cases "ParseNetlinkMessage en data")
      case (Ok msgs)
      obtain y w3 where m: "resolve_messages en u msgs (0, 0) w2 = (y, w3)" by force
      have w3: "socks w3 = socks w \<and> view w3 = view w" using resolve_messages_frame [OF m] w2 by simp
      then have "settles fd w (join_group u fd found w3)" for found by (rule join_group_settles)
      with w3 show ?thesis using r Inr Ok m settles_fail [of w3 w fd]
        by (cases y) (simp_all add: resolve_and_join_def, simp add: settles_def)
    next
      case (Err e)
      then show ?thesis using r Inr w2 bad by (simp add: resolve_and_join_def)
    next
      case Panic
      then show ?thesis using r Inr w2 by (simp add: resolve_and_join_def settles_def)
    qed
  qed
qed

lemma SubscribePM_sockets:
  assumes "SubscribePM en u w = (r, w')"
  shows "view w' = view w \<and>
    (case r of Ok (fd, family) \<Rightarrow> socks w' = add_mset fd (socks w) | Err e \<Rightarrow> socks w' = socks w | Panic \<Rightarrow> False)"
proof -
  obtain x w1 where so: "Socket u w = (x, w1)" by force
  show ?thesis
  proof (cases x)
    case (Inl e)
    then show ?thesis using assms so Socket_err [of w e w1] by (simp add: SubscribePM_def) auto
  next
    case (Inr fd)
    have new: "socks w1 = add_mset fd (socks w) \<and> view w1 = view w" using Socket_ok so Inr by simp
    let ?k5 = "\<lambda>w5. resolve_and_join en u fd w5"
    let ?k4 = "\<lambda>w4. or_fail u fd (Sendto u fd (family_request en) w4) ?k5"
    let ?k3 = "\<lambda>w3. or_fail u fd (SetRecvTimeout u fd 3 w3) ?k4"
    let ?k2 = "\<lambda>w2. or_fail u fd (SetsockoptInt u fd SOL_SOCKET SO_RCVBUF (4 * 2 ^ 20) w2) ?k3"
    have same: "socks w5 = socks w1 \<and> view w5 = view w1 \<Longrightarrow> settles fd w1 (?k5 w5)" for w5
      by (rule resolve_and_join_settles)
    have s4: "settles fd w1 (?k4 w4)" if "socks w4 = socks w1 \<and> view w4 = view w1" for w4
    proof -
      obtain y w5 where y: "Sendto u fd (family_request en) w4 = (y, w5)" by force
      then have "socks w5 = socks w1 \<and> view w5 = view w1" using Sendto_frame [OF y] that by simp
      then show ?thesis unfolding y by (intro settles_or_fail same)
    qed
    have s3: "settles fd w1 (?k3 w3)" if "socks w3 = socks w1 \<and> view w3 = view w1" for w3
    proof -
      obtain y w4 where y: "SetRecvTimeout u fd 3 w3 = (y, w4)" by force
      then have "socks w4 = socks w1 \<and> view w4 = view w1" using Timeout_frame [OF y] that by simp
      then show ?thesis unfolding y by (intro settles_or_fail s4)
    qed
    have s2: "settles fd w1 (?k2 w2)" if "socks w2 = socks w1 \<and> view w2 = view w1" for w2
    proof -
      obtain y w3 where y: "SetsockoptInt u fd SOL_SOCKET SO_RCVBUF (4 * 2 ^ 20) w2 = (y, w3)" by force
      then have "socks w3 = socks w1 \<and> view w3 = view w1" using Setsockopt_frame [OF y] that by simp
      then show ?thesis unfolding y by (intro settles_or_fail s3)
    qed
    obtain y w2 where y: "Bind u fd w1 = (y, w2)" by force
    then have "socks w2 = socks w1 \<and> view w2 = view w1" using Bind_frame [OF y] by simp
    then have "settles fd w1 (or_fail u fd (y, w2) ?k2)" by (intro settles_or_fail s2)
    moreover have "or_fail u fd (y, w2) ?k2 = (r, w')" using assms so Inr y by (simp add: SubscribePM_def)
    ultimately have "settles fd w1 (r, w')" by simp
    then show ?thesis using new SubscribePM_no_panic [of en u w w'] assms
      by (auto simp: settles_def split: outcome.splits)
  qed
qed

end

text \<open>The listeners: a successful \<open>net.Listen\<close> opens one, \<open>Close\<close> gives it back.\<close>

locale listener_calls =
  fixes E :: "('m, 'w) serve_env"
    and lst :: "'w \<Rightarrow> int multiset"
    and view :: "'w \<Rightarrow> 'r"
  assumes Listen_ok: "sv_Listen E net a w = (Inr l, w') \<Longrightarrow> lst w' = add_mset l (lst w) \<and> view w' = view w"
    and Listen_err: "sv_Listen E net a w = (Inl e, w') \<Longrightarrow> lst w' = lst w \<and> view w' = view w"
    and Chmod_frame: "sv_Chmod E p w = (x, w') \<Longrightarrow> lst w' = lst w \<and> view w' = view w"
    and Close_frame: "sv_CloseListener E l w = (x, w') \<Longrightarrow> lst w' = lst w - {#l#} \<and> view w' = view w"
begin

lemma Close_snd: "lst (snd (sv_CloseListener E l w)) = lst w - {#l#}" "view (snd (sv_CloseListener E l w)) = view w"
  using Close_frame [of l w "fst (sv_CloseListener E l w)" "snd (sv_CloseListener E l w)"] by simp_all

lemma open_listener_effect:
  assumes "open_listener E listen w = (r, w')"
  shows "view w' = view w \<and> lst w' = (case r of Inl e \<Rightarrow> lst w | Inr l \<Rightarrow> add_mset l (lst w))"
proof -
  have l: "view w1 = view w \<and> lst w1 = (case r of Inl e \<Rightarrow> lst w | Inr l \<Rightarrow> add_mset l (lst w))"
    if "sv_Listen E net a w = (r, w1)" for net a r w1
    using that Listen_ok Listen_err by (cases r) auto
  show ?thesis
  proof (cases "CutPrefix listen ''unix:''")
    case None
    then show ?thesis using assms l [of "''tcp''" listen] by (auto simp: open_listener_def split: if_splits)
  next
    case (Some path)
    obtain x w1 where x: "sv_Listen E ''unix'' path w = (x, w1)" by force
    obtain y w2 where y: "sv_Chmod E path w1 = (y, w2)" if "True" by force
    show ?thesis
      using assms Some x l [OF x] y Chmod_frame [of path w1 y w2]
      by (cases x; cases y) (auto simp: open_listener_def Close_snd split: if_splits)
  qed
qed

end

section \<open>The steps of the server leave the resources alone\<close>

context store_frame
begin

lemma run_steps_view: "run_steps s steps (d, w) = (d', w') \<Longrightarrow> v w' = v w"
proof (induction steps arbitrary: d w)
  case Nil
  then show ?case by (simp add: run_steps_def)
next
  case (Cons step steps)
  obtain d1 w1 where s1: "run_step s step (d, w) = (d1, w1)" by force
  have "v w1 = v w"
  proof (cases step)
    case (Operation c)
    obtain r where "run_command s c d w = (r, d1, w1)" using s1 Operation by (cases "run_command s c d w") auto
    then show ?thesis by (rule run_command_view)
  next
    case ReadStatus
    obtain st w2 where st: "Daemon_Status s d w = (st, w2)" by force
    then show ?thesis using s1 ReadStatus Daemon_Status_view [OF st] by simp
  qed
  moreover have "run_steps s steps (d1, w1) = (d', w')" using Cons.prems s1 by (simp add: run_steps_def)
  ultimately show ?case using Cons.IH by metis
qed

lemma serve_main_view:
  assumes "serve_main s run inode w = (r, w')"
  shows "v w' = v w"
proof -
  obtain d1 w1 where s1: "run_steps s (sr_Running run) (NewDaemon inode, w) = (d1, w1)" by force
  obtain d2 w2 where s2: "run_steps s (sr_Draining run) (d1, w1) = (d2, w2)" by force
  obtain ce w3 where cl: "Daemon_Cleanup s d2 w2 = (ce, w3)" by force
  obtain d4 w4 where s4: "run_steps s (if sr_Shutdown run = None then [] else sr_Late run) (d2, w3) = (d4, w4)" by force
  have "w' = w4" using assms s1 s2 cl s4 by (simp add: serve_main_def Let_def)
  then show ?thesis
    using run_steps_view [OF s1] run_steps_view [OF s2] Daemon_Cleanup_view [OF cl] run_steps_view [OF s4] by simp
qed

end

lemma serve_main_result: "serve_main s run inode w = (Ok (), w') \<Longrightarrow> serve_cause (sr_Cause run) = None \<and> sr_Shutdown run = None"
  by (auto simp: serve_main_def Let_def split: prod.splits if_splits)

section \<open>Starting over an empty namespace\<close>

context kernel_maps
begin

lemma store_laws: "map_store_laws (kernel_store kne h order) pol pth"
  by (rule store.map_store_laws_axioms)

lemma RequireEmptyNamespace_result:
  assumes "RequireEmptyNamespace h inode w = (e, w')"
  shows "pol w' = pol w \<and> pth w' = pth w" "e = None \<Longrightarrow> empty_namespace inode (pol w) (pth w)"
proof -
  obtain ps perr w1 where p: "Map_Iterate (km_policy h) w = ((ps, perr), w1)" by (metis prod.exhaust)
  obtain qs qerr w2 where q: "Map_Iterate (km_path h) w1 = ((qs, qerr), w2)" by (metis prod.exhaust)
  have f: "pol w1 = pol w" "pth w1 = pth w" "pol w2 = pol w" "pth w2 = pth w"
    using policy_map.Iterate_frame [OF p] path_map.Iterate_frame [OF q] by simp_all
  show "pol w' = pol w \<and> pth w' = pth w"
    using assms p q f by (auto simp: RequireEmptyNamespace_def split: option.splits)
  assume "e = None"
  then have r: "find (\<lambda>(k, _). ck_NetNSInode k = inode) ps = None" "perr = None"
    "find (\<lambda>(k, _). ck_NetNSInode (pk_Conn k) = inode) qs = None" "qerr = None"
    using assms p q by (auto simp: RequireEmptyNamespace_def split: option.splits)
  have "pol w k = None" if "ck_NetNSInode k = inode" for k
    by (rule policy_map.Iterate_find(2) [OF p r(1,2), of k]) (use that in simp)
  moreover have "pth w1 q = None" if "ck_NetNSInode (pk_Conn q) = inode" for q
    by (rule path_map.Iterate_find(2) [OF q r(3,4), of q]) (use that in simp)
  ultimately show "empty_namespace inode (pol w) (pth w)" by (auto simp: empty_namespace_def unmapped_def f)
qed

end

section \<open>The whole server\<close>

text \<open>
  The selectors \<open>psel\<close> and \<open>qsel\<close> name the two maps whose contents are \<open>pol\<close> and \<open>pth\<close>; the methods
  of their handles touch no resource of the process, and the other calls touch no map.
\<close>

locale serve_laws =
  maps: map_library "sv_Library E" "\<lambda>w. pr_Maps (pr w)" "\<lambda>w. (pol w, pth w, pr_Maps_update (\<lambda>_. {#}) (pr w))" +
  lock: writer_lock "sv_Lock E" "\<lambda>w. pr_LockFds (pr w)" "\<lambda>w. pr_Holds (pr w)"
    "\<lambda>w. (pol w, pth w, pr_LockFds_update (\<lambda>_. {}) (pr_Holds_update (\<lambda>_. {}) (pr w)))" +
  netlink: netlink_sockets "sv_Netlink E" "\<lambda>w. pr_Sockets (pr w)"
    "\<lambda>w. (pol w, pth w, pr_Sockets_update (\<lambda>_. {#}) (pr w))" +
  listeners: listener_calls E "\<lambda>w. pr_Listeners (pr w)" "\<lambda>w. (pol w, pth w, pr_Listeners_update (\<lambda>_. {#}) (pr w))"
  for E :: "('m, 'w) serve_env"
    and pr :: "'w \<Rightarrow> 'm process"
    and pol :: "'w \<Rightarrow> conn_key \<Rightarrow> map_policy option"
    and pth :: "'w \<Rightarrow> path_key \<Rightarrow> map_path option" +
  fixes psel qsel :: string
  assumes selected_maps: "OpenKernelMaps (sv_Library E) psel qsel w = (Inr ms, w') \<Longrightarrow>
      kernel_maps (serve_handles E ms) pol pth (sv_KeyNotExist E) (sv_Order E)"
    and selected_frame: "OpenKernelMaps (sv_Library E) psel qsel w = (Inr ms, w') \<Longrightarrow>
      kernel_frame (serve_handles E ms) pr (sv_Order E) (sv_Validate E)"
    and Validate_frame: "sv_Validate E l w = (ra, w') \<Longrightarrow> pol w' = pol w \<and> pth w' = pth w"
    and Stat_frame: "sv_Stat E w = (st, w') \<Longrightarrow> pol w' = pol w \<and> pth w' = pth w \<and> pr w' = pr w"
begin

lemma selected_daemon:
  assumes "OpenKernelMaps (sv_Library E) psel qsel w = (Inr ms, w')"
  shows "daemon_laws (serve_daemon_env E ms) pol pth" "store_frame (serve_daemon_env E ms) pr"
  unfolding serve_daemon_env_def
  using kernel_maps.store_laws [OF selected_maps [OF assms]] kernel_frame.daemon_frame [OF selected_frame [OF assms]]
  by (auto intro!: daemon_laws.intro with_validator_laws daemon_laws_axioms.intro dest: Validate_frame)

text \<open>The three stages of \<open>Serve\<close> after the lock is taken, from the inside out.\<close>

definition stage_ok :: "'w \<Rightarrow> unit outcome \<times> 'w \<Rightarrow> serve_run \<Rightarrow> u64 \<Rightarrow> bool" where
  "stage_ok w rw run inode \<longleftrightarrow>
     outside_same inode (pol w) (pth w) (pol (snd rw)) (pth (snd rw)) \<and> fst rw \<noteq> Panic \<and>
     (fst rw = Ok () \<longrightarrow> empty_namespace inode (pol (snd rw)) (pth (snd rw)) \<and>
        serve_cause (sr_Cause run) = None \<and> sr_Shutdown run = None)"

lemma serve_subscribed_stage:
  assumes open': "OpenKernelMaps (sv_Library E) psel qsel w0 = (Inr ms, w0')"
    and empty: "empty_namespace inode (pol w) (pth w)"
    and run: "serve_subscribed E run listen ms inode w = rw"
  shows "stage_ok w rw run inode \<and> pr (snd rw) = pr w"
proof -
  obtain x w1 where x: "open_listener E listen w = (x, w1)" by force
  note l = listeners.open_listener_effect [OF x]
  show ?thesis
  proof (cases x)
    case (Inl e)
    then show ?thesis using run x l by (auto simp: serve_subscribed_def stage_ok_def intro: process_same(4))
  next
    case (Inr lst)
    obtain r w2 where m: "serve_main (serve_daemon_env E ms) run inode w1 = (r, w2)" by force
    have rw: "rw = (r, snd (sv_CloseListener E lst w2))" using run x Inr m by (simp add: serve_subscribed_def)
    have e1: "empty_namespace inode (pol w1) (pth w1)" using empty l by simp
    have eff: "outside_same inode (pol w1) (pth w1) (pol w2) (pth w2)" "r \<noteq> Panic"
      "r = Ok () \<Longrightarrow> empty_namespace inode (pol w2) (pth w2)"
      using daemon_laws.serve_main_effect [OF selected_daemon(1) [OF open'] e1 m] by simp_all
    have p2: "pr w2 = pr w1" by (rule store_frame.serve_main_view [OF selected_daemon(2) [OF open'] m])
    have c: "pr_Listeners (pr (snd rw)) = pr_Listeners (pr w)" "pol (snd rw) = pol w2" "pth (snd rw) = pth w2"
      "pr_Listeners_update (\<lambda>_. {#}) (pr (snd rw)) = pr_Listeners_update (\<lambda>_. {#}) (pr w)"
      using listeners.Close_snd [of lst w2] l Inr p2 by (simp_all add: rw)
    have "pr (snd rw) = pr w" using c(1,4) by (rule process_same(4))
    moreover have "stage_ok w rw run inode"
      using eff c(2,3) l m by (auto simp: stage_ok_def rw dest: serve_main_result)
    ultimately show ?thesis by simp
  qed
qed

definition started :: "'w \<Rightarrow> unit outcome \<times> 'w \<Rightarrow> serve_run \<Rightarrow> bool" where
  "started w rw run \<longleftrightarrow>
     (pol (snd rw) = pol w \<and> pth (snd rw) = pth w \<and> (\<exists>e. fst rw = Err e)) \<or>
     (\<exists>inode w1. CurrentNetNSInode (fst (sv_Stat E w1)) = Inr inode \<and> empty_namespace inode (pol w) (pth w) \<and>
        stage_ok w rw run inode)"

lemma serve_received_stage:
  assumes open': "OpenKernelMaps (sv_Library E) psel qsel w0 = (Inr ms, w0')"
    and empty: "empty_namespace inode (pol w) (pth w)"
    and sub: "SubscribePM (sv_Endian E) (sv_Netlink E) w = (Ok (fd, family), w3)"
    and main: "serve_subscribed E run listen ms inode w3 = (r, w4)"
  shows "stage_ok w (r, snd (CloseFd (sv_Netlink E) fd w4)) run inode \<and>
    pr (snd (CloseFd (sv_Netlink E) fd w4)) = pr w"
proof -
  let ?w = "snd (CloseFd (sv_Netlink E) fd w4)"
  note s = netlink.SubscribePM_sockets [OF sub]
  have "empty_namespace inode (pol w3) (pth w3)" using empty s by simp
  note m = serve_subscribed_stage [OF open' this main]
  have c: "pr_Sockets (pr ?w) = pr_Sockets (pr w)" "pol ?w = pol w4" "pth ?w = pth w4"
    "pr_Sockets_update (\<lambda>_. {#}) (pr ?w) = pr_Sockets_update (\<lambda>_. {#}) (pr w)"
    using netlink.CloseFd_snd [of fd w4] s m by simp_all
  have "pr ?w = pr w" using c(1,4) by (rule process_same(3))
  then show ?thesis using m c(2,3) s by (simp add: stage_ok_def)
qed

lemma serve_opened_stage:
  assumes open': "OpenKernelMaps (sv_Library E) psel qsel w0 = (Inr ms, w0')"
    and run: "serve_opened E run listen ms w = rw"
  shows "started w rw run \<and> pr (snd rw) = pr w"
proof -
  obtain st w1 where st: "sv_Stat E w = (st, w1)" by force
  note f1 = Stat_frame [OF st]
  show ?thesis
  proof (cases "CurrentNetNSInode st")
    case (Inl e)
    then show ?thesis using run st f1 by (auto simp: serve_opened_def started_def)
  next
    case inode: (Inr inode)
    obtain u w2 where req: "RequireEmptyNamespace (serve_handles E ms) inode w1 = (u, w2)" by force
    note k = kernel_maps.RequireEmptyNamespace_result [OF selected_maps [OF open'] req]
    have f2: "pol w2 = pol w" "pth w2 = pth w" "pr w2 = pr w"
      using k(1) f1 kernel_frame.RequireEmptyNamespace_view [OF selected_frame [OF open'] req] by simp_all
    show ?thesis
    proof (cases u)
      case (Some e)
      then show ?thesis using run st inode req f2 by (auto simp: serve_opened_def started_def)
    next
      case None
      then have empty: "empty_namespace inode (pol w2) (pth w2)" using k f1 f2 by simp
      obtain x w3 where sub: "SubscribePM (sv_Endian E) (sv_Netlink E) w2 = (x, w3)" by force
      note s = netlink.SubscribePM_sockets [OF sub]
      show ?thesis
      proof (cases x)
        case (Err e)
        have "pr w3 = pr w2" using s Err by - (rule process_same(3), simp_all)
        moreover have "rw = (Err (Errorf ''subscribe MPTCP PM before readiness'' [e]), w3)"
          using run st inode req None sub Err by (simp add: serve_opened_def)
        moreover have "pol w3 = pol w" "pth w3 = pth w" using s f2 by simp_all
        ultimately show ?thesis using f2(3) by (simp add: started_def)
      next
        case (Ok y)
        obtain fd family where y: "y = (fd, family)" by force
        obtain r w4 where main: "serve_subscribed E run listen ms inode w3 = (r, w4)" by force
        have rw: "rw = (r, snd (CloseFd (sv_Netlink E) fd w4))"
          using run st inode req None sub Ok y main by (simp add: serve_opened_def)
        have "stage_ok w2 rw run inode \<and> pr (snd rw) = pr w2"
          using serve_received_stage [OF open' empty sub [unfolded Ok y] main] by (simp add: rw)
        then have "stage_ok w rw run inode" "pr (snd rw) = pr w" using f2 by (simp_all add: stage_ok_def)
        moreover have "CurrentNetNSInode (fst (sv_Stat E w)) = Inr inode" using st inode by simp
        ultimately show ?thesis using empty f2 by (auto simp: started_def)
      next
        case Panic
        then show ?thesis using s by simp
      qed
    qed
  qed
qed

lemma Serve_effect:
  assumes run: "Serve E run listen psel qsel w = rw"
  shows "started w rw run" "pr (snd rw) = pr w"
    "pr_Holds (pr w) \<noteq> {} \<Longrightarrow> (\<exists>e. fst rw = Err e) \<and> pol (snd rw) = pol w \<and> pth (snd rw) = pth w"
proof -
  obtain x w1 where x: "LockWriters (sv_Lock E) w = (x, w1)" by force
  note l = lock.LockWriters_effect [OF x]
  have "started w rw run \<and> pr (snd rw) = pr w \<and>
    (pr_Holds (pr w) \<noteq> {} \<longrightarrow> (\<exists>e. fst rw = Err e) \<and> pol (snd rw) = pol w \<and> pth (snd rw) = pth w)"
  proof (cases x)
    case (Inl e)
    have "pr w1 = pr w" using l Inl by - (rule process_same(2), simp_all)
    moreover have "rw = (Err e, w1)" using run x Inl by (simp add: Serve_def)
    moreover have "pol w1 = pol w" "pth w1 = pth w" using l by simp_all
    ultimately show ?thesis by (simp add: started_def)
  next
    case (Inr fd)
    have free: "pr_Holds (pr w) = {}" "fd \<notin> pr_LockFds (pr w)" using l Inr by simp_all
    obtain y w2 where y: "OpenKernelMaps (sv_Library E) psel qsel w1 = (y, w2)" by force
    note o = maps.OpenKernelMaps_handles [OF y]
    have inner: "\<exists>r w3. rw = (r, snd (LockClose (sv_Lock E) fd w3)) \<and> started w1 (r, w3) run \<and> pr w3 = pr w1"
    proof (cases y)
      case (Inl e)
      have "pr w2 = pr w1" using o Inl by (cases "pr w1"; cases "pr w2") simp
      moreover have "started w1 (Err e, w2) run" using o by (simp add: started_def)
      ultimately show ?thesis using run x Inr y Inl by (auto simp: Serve_def)
    next
      case ms: (Inr ms)
      obtain r w3 where r: "serve_opened E run listen ms w2 = (r, w3)" by force
      note m = serve_opened_stage [OF y [unfolded ms] r]
      obtain ce w4 where c: "KernelMaps_Close (sv_Library E) ms w3 = (ce, w4)" by force
      note cl = maps.KernelMaps_Close_handles [OF c]
      have "pr_Maps (pr w4) = pr_Maps (pr w1)" "pr_Maps_update (\<lambda>_. {#}) (pr w4) = pr_Maps_update (\<lambda>_. {#}) (pr w1)"
        using cl o m ms by (auto split: prod.splits)
      then have "pr w4 = pr w1" by (rule process_same(1))
      moreover have "started w1 (r, w4) run" using m cl o ms by (simp add: started_def stage_ok_def)
      moreover have "rw = (r, snd (LockClose (sv_Lock E) fd w4))" using run x Inr y ms r c by (simp add: Serve_def)
      ultimately show ?thesis by blast
    qed
    then obtain r w3 where w3: "rw = (r, snd (LockClose (sv_Lock E) fd w3))" "started w1 (r, w3) run" "pr w3 = pr w1" by blast
    note c = lock.LockClose_snd [of fd w3]
    have "pr_LockFds (pr (snd rw)) = pr_LockFds (pr w)" "pr_Holds (pr (snd rw)) = pr_Holds (pr w)"
      "pr_LockFds_update (\<lambda>_. {}) (pr_Holds_update (\<lambda>_. {}) (pr (snd rw))) =
        pr_LockFds_update (\<lambda>_. {}) (pr_Holds_update (\<lambda>_. {}) (pr w))"
      using c l Inr w3(1,3) free by auto
    then have "pr (snd rw) = pr w" by (rule process_same(2))
    moreover have "started w rw run" using w3(1,2) c l by (simp add: started_def stage_ok_def)
    ultimately show ?thesis using free by simp
  qed
  then show "started w rw run" "pr (snd rw) = pr w"
    "pr_Holds (pr w) \<noteq> {} \<Longrightarrow> (\<exists>e. fst rw = Err e) \<and> pol (snd rw) = pol w \<and> pth (snd rw) = pth w" by simp_all
qed

end

end
