(* ===== verification/ServeWorld.thy ===== *)
theory ServeWorld
  imports ServeLaws PMProperties
begin

text \<open>
  The concrete system of \<open>KernelOpen\<close> with the BPF maps of \<open>BpfWorld\<close>, a netlink peer that answers
  with the sample reply of \<open>PMProperties\<close>, and listeners. The locales of \<open>ServeLaws\<close> are interpreted
  on it, so every fact about \<open>Serve\<close> holds of the model over these maps.
\<close>

section \<open>The maps inside the system\<close>

definition on_bpf :: "(bpf_world \<Rightarrow> 'r \<times> bpf_world) \<Rightarrow> os_world \<Rightarrow> 'r \<times> os_world" where
  "on_bpf f w = (let (r, b) = f (os_bpf w) in (r, w\<lparr>os_bpf := b\<rparr>))"

definition os_map :: "('k, 'v, bpf_world) ebpf_map \<Rightarrow> ('k, 'v, os_world) ebpf_map" where
  "os_map m =
     \<lparr>Map_Lookup = \<lambda>k. on_bpf (Map_Lookup m k), Map_Update = \<lambda>k v. on_bpf (Map_Update m k v),
      Map_Delete = \<lambda>k. on_bpf (Map_Delete m k), Map_Iterate = on_bpf (Map_Iterate m)\<rparr>"

lemma on_bpf_iff: "on_bpf f w = (r, w') \<longleftrightarrow> (\<exists>b. f (os_bpf w) = (r, b) \<and> w' = w\<lparr>os_bpf := b\<rparr>)"
  by (cases "f (os_bpf w)") (auto simp: on_bpf_def)

lemma os_map_simps [simp]:
  "Map_Lookup (os_map m) k = on_bpf (Map_Lookup m k)" "Map_Update (os_map m) k v = on_bpf (Map_Update m k v)"
  "Map_Delete (os_map m) k = on_bpf (Map_Delete m k)" "Map_Iterate (os_map m) = on_bpf (Map_Iterate m)"
  by (simp_all add: os_map_def)

lemma os_map_laws:
  assumes "ebpf_hash m cont rest kne"
  shows "ebpf_hash (os_map m) (\<lambda>w. cont (os_bpf w)) (\<lambda>w. rest (os_bpf w)) kne"
proof (unfold_locales, unfold os_map_simps on_bpf_iff, goal_cases)
  case (10 w it w')
  then show ?case using ebpf_hash.Iterate_frame [OF assms] by (cases it) auto
qed ((elim exE conjE)?, simp?;
    blast dest: ebpf_hash.Lookup_frame [OF assms] ebpf_hash.Lookup_found [OF assms] ebpf_hash.Lookup_error [OF assms]
      ebpf_hash.Update_frame [OF assms] ebpf_hash.Update_ok [OF assms] ebpf_hash.Update_error [OF assms]
      ebpf_hash.Delete_frame [OF assms] ebpf_hash.Delete_ok [OF assms] ebpf_hash.Delete_error [OF assms]
      ebpf_hash.Iterate_frame [OF assms] ebpf_hash.Iterate_sound [OF assms] ebpf_hash.Iterate_complete [OF assms])+

section \<open>The process\<close>

definition os_process :: "os_world \<Rightarrow> u32 process" where
  "os_process w =
     \<lparr>pr_Maps = mset (os_handles w), pr_LockFds = set (os_lock_fds w), pr_Holds = set (os_holders w),
      pr_Sockets = mset (os_sockets w), pr_Listeners = mset (os_listeners w)\<rparr>"

lemma os_process_simps [simp]:
  "pr_Maps (os_process w) = mset (os_handles w)" "pr_LockFds (os_process w) = set (os_lock_fds w)"
  "pr_Holds (os_process w) = set (os_holders w)" "pr_Sockets (os_process w) = mset (os_sockets w)"
  "pr_Listeners (os_process w) = mset (os_listeners w)"
  by (simp_all add: os_process_def)

definition os_policies :: "os_world \<Rightarrow> conn_key \<Rightarrow> map_policy option" where
  "os_policies w = policies (os_bpf w)"

definition os_paths :: "os_world \<Rightarrow> path_key \<Rightarrow> map_path option" where
  "os_paths w = paths (os_bpf w)"

text \<open>Opening a descriptor takes a number no open one has.\<close>

definition os_netlink :: "os_world netlink_calls" where
  "os_netlink =
     \<lparr>Socket = \<lambda>w. let fd = 3 + sum_list (map abs (os_sockets w)) in (Inr fd, w\<lparr>os_sockets := fd # os_sockets w\<rparr>),
      Bind = \<lambda>fd w. (None, w), SetsockoptInt = \<lambda>fd lv opt v w. (None, w), SetRecvTimeout = \<lambda>fd sec w. (None, w),
      Sendto = \<lambda>fd b w. (None, w), Recvfrom = \<lambda>fd n w. (Inr (family_reply Little sample_family), w),
      SetNonblock = \<lambda>fd w. (None, w), CloseFd = \<lambda>fd w. (None, w\<lparr>os_sockets := remove1 fd (os_sockets w)\<rparr>),
      RangeOrder = \<lambda>w. ([], w)\<rparr>"

definition os_env :: "iface list \<Rightarrow> u64 \<Rightarrow> (u32, os_world) serve_env" where
  "os_env ifs inode =
     \<lparr>sv_Lock = os_lock, sv_Library = os_library,
      sv_PolicyMap = \<lambda>m. os_map (km_policy bpf_handles), sv_PathMap = \<lambda>m. os_map (km_path bpf_handles),
      sv_KeyNotExist = ErrKeyNotExist, sv_Stat = \<lambda>w. (Inr (Some inode), w), sv_Endian = Little,
      sv_Netlink = os_netlink, sv_Order = on_bpf next_order, sv_Validate = \<lambda>leg w. (ValidateLegAddress ifs leg, w),
      sv_Listen = \<lambda>net addr w.
        let l = 3 + sum_list (map abs (os_listeners w)) in (Inr l, w\<lparr>os_listeners := l # os_listeners w\<rparr>),
      sv_Chmod = \<lambda>path w. (None, w),
      sv_CloseListener = \<lambda>l w. (None, w\<lparr>os_listeners := remove1 l (os_listeners w)\<rparr>)\<rparr>"

lemma os_env_simps [simp]:
  "sv_Lock (os_env ifs inode) = os_lock" "sv_Library (os_env ifs inode) = os_library"
  "sv_KeyNotExist (os_env ifs inode) = ErrKeyNotExist" "sv_Stat (os_env ifs inode) = (\<lambda>w. (Inr (Some inode), w))"
  "sv_Netlink (os_env ifs inode) = os_netlink" "sv_Order (os_env ifs inode) = on_bpf next_order"
  "sv_Validate (os_env ifs inode) = (\<lambda>leg w. (ValidateLegAddress ifs leg, w))"
  "serve_handles (os_env ifs inode) ms = \<lparr>km_policy = os_map (km_policy bpf_handles), km_path = os_map (km_path bpf_handles)\<rparr>"
  by (simp_all add: os_env_def serve_handles_def)

interpretation os_socks: netlink_sockets os_netlink "\<lambda>w. mset (os_sockets w)"
  "\<lambda>w. (os_bpf w, os_handles w, os_lock_fds w, os_lock_holder w, os_listeners w)"
  by unfold_locales (auto simp: os_netlink_def Let_def)

interpretation os_listen: listener_calls "os_env ifs inode" "\<lambda>w. mset (os_listeners w)"
  "\<lambda>w. (os_bpf w, os_handles w, os_lock_fds w, os_lock_holder w, os_sockets w)" for ifs inode
  by unfold_locales (auto simp: os_env_def Let_def)

interpretation os_kernel: kernel_maps "\<lparr>km_policy = os_map (km_policy bpf_handles), km_path = os_map (km_path bpf_handles)\<rparr>"
  os_policies os_paths ErrKeyNotExist "on_bpf next_order"
proof (intro kernel_maps.intro kernel_maps_axioms.intro, unfold kernel_handles.simps)
  show "ebpf_hash (os_map (km_policy bpf_handles)) os_policies os_paths ErrKeyNotExist"
    "ebpf_hash (os_map (km_path bpf_handles)) os_paths os_policies ErrKeyNotExist"
    using os_map_laws [OF bpf_maps_laws(1)] os_map_laws [OF bpf_maps_laws(2)]
    unfolding os_policies_def [abs_def] os_paths_def [abs_def] by simp_all
  show "os_policies w' = os_policies w \<and> os_paths w' = os_paths w" if "on_bpf next_order w = (ns, w')" for w ns w'
    using that bpf.order_frame by (auto simp: on_bpf_iff os_policies_def os_paths_def)
qed

lemma os_process_bpf [simp]: "os_process (w\<lparr>os_bpf := b\<rparr>) = os_process w"
  by (simp add: os_process_def os_holders_def)

interpretation os_frame: kernel_frame "\<lparr>km_policy = os_map (km_policy bpf_handles), km_path = os_map (km_path bpf_handles)\<rparr>"
  os_process ErrKeyNotExist "on_bpf next_order" "\<lambda>leg w. (ValidateLegAddress ifs leg, w)" for ifs
  by unfold_locales (auto simp: on_bpf_iff simp del: bpf_handles_simps)

lemma os_process_others:
  "os_process w\<lparr>pr_Maps := {#}\<rparr> = \<lparr>pr_Maps = {#}, pr_LockFds = set (os_lock_fds w), pr_Holds = set (os_holders w),
     pr_Sockets = mset (os_sockets w), pr_Listeners = mset (os_listeners w)\<rparr>"
  "os_process w\<lparr>pr_Holds := {}, pr_LockFds := {}\<rparr> = \<lparr>pr_Maps = mset (os_handles w), pr_LockFds = {}, pr_Holds = {},
     pr_Sockets = mset (os_sockets w), pr_Listeners = mset (os_listeners w)\<rparr>"
  by (simp_all add: os_process_def)

interpretation os_serve: serve_laws "os_env ifs inode" os_process os_policies os_paths psel qsel for ifs inode psel qsel
proof (intro serve_laws.intro serve_laws_axioms.intro)
  show "map_library (sv_Library (os_env ifs inode)) (\<lambda>w. pr_Maps (os_process w))
      (\<lambda>w. (os_policies w, os_paths w, os_process w\<lparr>pr_Maps := {#}\<rparr>))"
    by unfold_locales (auto simp: os_process_def os_holders_def os_policies_def os_paths_def
        dest!: os_maps.New_ok os_maps.New_err os_maps.Load_ok os_maps.Load_err os_maps.Info_frame os_maps.Close_frame)
  show "writer_lock (sv_Lock (os_env ifs inode)) (\<lambda>w. pr_LockFds (os_process w)) (\<lambda>w. pr_Holds (os_process w))
      (\<lambda>w. (os_policies w, os_paths w, os_process w\<lparr>pr_Holds := {}, pr_LockFds := {}\<rparr>))"
  proof (unfold_locales, unfold os_env_simps os_process_others os_process_simps os_policies_def os_paths_def, goal_cases)
    case (1 w fd w')
    from os_writers.Open_ok [OF this] show ?case by auto
  next
    case (2 w e w')
    from os_writers.Open_err [OF this] show ?case by auto
  next
    case (3 fd w w')
    from os_writers.Flock_ok [OF this] show ?case by auto
  next
    case (4 fd w e w')
    from os_writers.Flock_err [OF this] show ?case by auto
  next
    case (5 fd w u w')
    from os_writers.Close_frame [OF this] show ?case by auto
  next
    case (6 w)
    show ?case by (rule os_writers.holds_open)
  qed
  show "netlink_sockets (sv_Netlink (os_env ifs inode)) (\<lambda>w. pr_Sockets (os_process w))
      (\<lambda>w. (os_policies w, os_paths w, os_process w\<lparr>pr_Sockets := {#}\<rparr>))"
    by unfold_locales (auto simp: os_netlink_def os_process_def os_holders_def os_policies_def os_paths_def Let_def)
  show "listener_calls (os_env ifs inode) (\<lambda>w. pr_Listeners (os_process w))
      (\<lambda>w. (os_policies w, os_paths w, os_process w\<lparr>pr_Listeners := {#}\<rparr>))"
    by unfold_locales (auto simp: os_env_def os_process_def os_holders_def os_policies_def os_paths_def Let_def)
next
  fix w :: os_world and ms w'
  assume "OpenKernelMaps (sv_Library (os_env ifs inode)) psel qsel w = (Inr ms, w')"
  show "kernel_maps (serve_handles (os_env ifs inode) ms) os_policies os_paths (sv_KeyNotExist (os_env ifs inode))
      (sv_Order (os_env ifs inode))"
    using os_kernel.kernel_maps_axioms by simp
  show "kernel_frame (serve_handles (os_env ifs inode) ms) os_process (sv_Order (os_env ifs inode))
      (sv_Validate (os_env ifs inode))"
    using os_frame.kernel_frame_axioms by simp
qed (auto simp: os_env_def)

lemma os_serve_laws: "serve_laws (os_env ifs inode) os_process os_policies os_paths psel qsel"
  by (rule os_serve.serve_laws_axioms)

end
