(* ===== verification/ServeLoop.thy ===== *)
theory ServeLoop
  imports ServeFacts
begin

text \<open>
  The three goroutines of \<open>Serve\<close> in \<open>dualsteer-agent/serve.go\<close> and their channel: the event worker
  with its receive loop, the HTTP server, and the main goroutine with its \<open>select\<close>. A schedule is
  the list of what happens next; a step that is not enabled changes nothing. Each step is one
  critical section of the daemon's mutex, one send, one receive or one private action, so that the
  schedules are the interleavings of the goroutines.
\<close>

section \<open>The receive loop in steps\<close>

text \<open>
  An iteration of \<open>Run\<close> up to the loop over the messages of the datagram; no message means that the
  loop goes on.
\<close>

definition receive_messages :: "endian \<Rightarrow> pm_datagram \<Rightarrow> nl_message list outcome" where
  "receive_messages en dg =
     (if and (dg_Flags dg) MSG_TRUNC \<noteq> 0 then Err (errors_New ''PM event datagram truncated'')
      else if dg_From dg \<noteq> Some 0 then Err (errors_New ''PM event not from kernel'')
      else ParseNetlinkMessage en (dg_Data dg))"

definition poll_messages :: "endian \<Rightarrow> pm_tick \<Rightarrow> nl_message list outcome" where
  "poll_messages en tk =
     (case tk_ctx tk of Some e \<Rightarrow> Err e | None \<Rightarrow>
      (case tk_poll tk of
         Inl e \<Rightarrow> if errors_Is e (Errno EINTR) then Ok [] else Err e
       | Inr n \<Rightarrow>
           if n = 0 then Ok []
           else (case tk_recv tk of
             Inl e \<Rightarrow>
               if errors_Is e (Errno EAGAIN) \<or> errors_Is e (Errno EINTR) then Ok []
               else Err (Errorf ''PM event stream lost'' [e])
           | Inr dg \<Rightarrow> receive_messages en dg)))"

text \<open>This is the iteration of the receive loop, split before its first event is handled.\<close>

lemma run_tick_poll:
  "run_tick en family handle tk s =
     (case poll_messages en tk of
        Ok ms \<Rightarrow> run_messages en family handle ms s
      | Err e \<Rightarrow> (Err e, s)
      | Panic \<Rightarrow> (Panic, s))"
  by (simp add: run_tick_def poll_messages_def run_datagram_def receive_messages_def split: option.split sum.split outcome.split)

section \<open>The state\<close>

text \<open>
  The event worker: at the head of its loop, before the next of the messages it has received, before
  the report to the daemon of the error \<open>Run\<close> returned, before the send, and ended.
\<close>

datatype worker_phase =
    Polling
  | Handling "nl_message list"
  | Lost go_error
  | Reporting go_error
  | Exited go_error
  | Crashed

text \<open>The main goroutine: in the \<open>select\<close>, or out of the loop with the cause it received, if any.\<close>

datatype main_phase = Selecting | Leaving "go_error option"

record 'w server =
  sy_Daemon :: daemon
  sy_World :: 'w
  sy_Ctx :: "go_error option"
  sy_Worker :: worker_phase
  sy_Accepting :: bool
  sy_Failures :: "go_error list"
  sy_Main :: main_phase

definition serve_start :: "u64 \<Rightarrow> 'w \<Rightarrow> 'w server" where
  "serve_start inode w =
     \<lparr>sy_Daemon = NewDaemon inode, sy_World = w, sy_Ctx = None, sy_Worker = Polling, sy_Accepting = True,
      sy_Failures = [], sy_Main = Selecting\<rparr>"

section \<open>The steps\<close>

text \<open>
  A signal cancels the context, and so does the main goroutine when it leaves its loop. The server
  returns an error of its listener at any time, and \<open>ErrServerClosed\<close> once \<open>Shutdown\<close> was called; the
  send of the result is part of the step. The channel holds two errors.
\<close>

datatype sched_step =
    HandlerPut cp_assignment
  | HandlerDelete string
  | HandlerStatus
  | Signal
  | SelectDone
  | SelectFailure
  | SelectRetry
  | Poll pm_tick
  | NextMessage
  | ReportFatal
  | SendFailure
  | AcceptFails go_error
  | ServerStops

definition perform :: "('w, 'z) daemon_env_scheme \<Rightarrow> serve_step \<Rightarrow> 'w server \<Rightarrow> 'w server" where
  "perform s op st =
     (let (d, w) = run_step s op (sy_Daemon st, sy_World st) in st\<lparr>sy_Daemon := d, sy_World := w\<rparr>)"

definition poll_step :: "endian \<Rightarrow> pm_tick \<Rightarrow> 'w server \<Rightarrow> 'w server" where
  "poll_step en tk st =
     (case poll_messages en (tk\<lparr>tk_ctx := sy_Ctx st\<rparr>) of
        Ok ms \<Rightarrow> st\<lparr>sy_Worker := Handling ms\<rparr>
      | Err e \<Rightarrow> st\<lparr>sy_Worker := Lost e\<rparr>
      | Panic \<Rightarrow> st\<lparr>sy_Worker := Crashed\<rparr>)"

fun message_step :: "('w, 'z) daemon_env_scheme \<Rightarrow> endian \<Rightarrow> u16 \<Rightarrow> nl_message list \<Rightarrow> 'w server \<Rightarrow> 'w server" where
  "message_step s en family [] st = st\<lparr>sy_Worker := Polling\<rparr>"
| "message_step s en family (m # ms) st =
     (case run_messages en family (observe_handler s) [m] (sy_Daemon st, sy_World st) of
        (Ok _, d, w) \<Rightarrow> st\<lparr>sy_Daemon := d, sy_World := w, sy_Worker := Handling ms\<rparr>
      | (Err e, d, w) \<Rightarrow> st\<lparr>sy_Daemon := d, sy_World := w, sy_Worker := Lost e\<rparr>
      | (Panic, d, w) \<Rightarrow> st\<lparr>sy_Daemon := d, sy_World := w, sy_Worker := Crashed\<rparr>)"

definition worker_step :: "('w, 'z) daemon_env_scheme \<Rightarrow> endian \<Rightarrow> u16 \<Rightarrow> sched_step \<Rightarrow> 'w server \<Rightarrow> 'w server" where
  "worker_step s en family step st =
     (case (step, sy_Worker st) of
        (Poll tk, Polling) \<Rightarrow> poll_step en tk st
      | (NextMessage, Handling ms) \<Rightarrow> message_step s en family ms st
      | (ReportFatal, Lost e) \<Rightarrow>
          (if \<not> errors_Is e ContextCanceled then perform s (Operation (CFail e)) st else st)\<lparr>sy_Worker := Reporting e\<rparr>
      | (SendFailure, Reporting e) \<Rightarrow>
          if length (sy_Failures st) < 2 then st\<lparr>sy_Failures := sy_Failures st @ [e], sy_Worker := Exited e\<rparr> else st
      | _ \<Rightarrow> st)"

definition http_step :: "go_error \<Rightarrow> 'w server \<Rightarrow> 'w server" where
  "http_step e st =
     (if sy_Accepting st \<and> length (sy_Failures st) < 2
      then st\<lparr>sy_Failures := sy_Failures st @ [e], sy_Accepting := False\<rparr> else st)"

definition leave_loop :: "go_error option \<Rightarrow> 'w server \<Rightarrow> 'w server" where
  "leave_loop cause st =
     st\<lparr>sy_Main := Leaving cause, sy_Ctx := (case sy_Ctx st of None \<Rightarrow> Some ContextCanceled | Some e \<Rightarrow> Some e)\<rparr>"

definition select_step :: "('w, 'z) daemon_env_scheme \<Rightarrow> sched_step \<Rightarrow> 'w server \<Rightarrow> 'w server" where
  "select_step s step st =
     (if sy_Main st \<noteq> Selecting then st
      else case step of
        SelectDone \<Rightarrow> if sy_Ctx st \<noteq> None then leave_loop None st else st
      | SelectFailure \<Rightarrow> (case sy_Failures st of [] \<Rightarrow> st | e # es \<Rightarrow> leave_loop (Some e) (st\<lparr>sy_Failures := es\<rparr>))
      | SelectRetry \<Rightarrow> perform s (Operation CRetry) st
      | _ \<Rightarrow> st)"

fun server_step :: "('w, 'z) daemon_env_scheme \<Rightarrow> endian \<Rightarrow> u16 \<Rightarrow> sched_step \<Rightarrow> 'w server \<Rightarrow> 'w server" where
  "server_step s en family (HandlerPut a) st = perform s (Operation (CPut a)) st"
| "server_step s en family (HandlerDelete cid) st = perform s (Operation (CDelete cid)) st"
| "server_step s en family HandlerStatus st = perform s ReadStatus st"
| "server_step s en family Signal st = (if sy_Ctx st = None then st\<lparr>sy_Ctx := Some ContextCanceled\<rparr> else st)"
| "server_step s en family (AcceptFails e) st = http_step e st"
| "server_step s en family ServerStops st = (if sy_Main st \<noteq> Selecting then http_step ErrServerClosed st else st)"
| "server_step s en family step st = select_step s step (worker_step s en family step st)"

definition server_run :: "('w, 'z) daemon_env_scheme \<Rightarrow> endian \<Rightarrow> u16 \<Rightarrow> sched_step list \<Rightarrow> 'w server \<Rightarrow> 'w server" where
  "server_run s en family sched st = fold (server_step s en family) sched st"

text \<open>
  What follows \<open>workers.Wait()\<close>. The result is \<open>None\<close> while the main goroutine is in its loop or waits
  for the two others; \<open>shutdown\<close> is the result of \<open>Shutdown\<close>, and \<open>late\<close> what handlers still do after
  \<open>Shutdown\<close> had timed out.
\<close>

definition serve_return :: "('w, 'z) daemon_env_scheme \<Rightarrow> go_error option \<Rightarrow> serve_step list \<Rightarrow> 'w server \<Rightarrow>
    (unit outcome \<times> 'w) option" where
  "serve_return s shutdown late st =
     (case (sy_Main st, sy_Worker st) of
        (Leaving cause, Exited e) \<Rightarrow>
          if sy_Accepting st then None
          else
            let (cleanupErr, w1) = Daemon_Cleanup s (sy_Daemon st) (sy_World st);
                (d2, w2) = run_steps s (if shutdown = None then [] else late) (sy_Daemon st, w1)
            in Some (error_outcome (errors_Join [serve_cause cause, shutdown, cleanupErr]), w2)
      | _ \<Rightarrow> None)"

end
