(* ===== verification/ServeLoopFacts.thy ===== *)
theory ServeLoopFacts
  imports ServeLoop HistoryProperties PMProperties "HOL-Library.Sublist"
begin

text \<open>
  Facts about the goroutines of \<open>Serve\<close>: what a step leaves alone, that a schedule performs
  operations of the daemon, that the channel never blocks a send, that a worker which has lost the
  stream only goes forward and is heard, that the waits of the shutdown end, and that the schedule
  of the worker alone is the receive loop.
\<close>

section \<open>Schedules\<close>

lemma server_run_simps [simp]:
  "server_run s en family [] st = st"
  "server_run s en family (x # xs) st = server_run s en family xs (server_step s en family x st)"
  "server_run s en family (xs @ ys) st = server_run s en family ys (server_run s en family xs st)"
  by (simp_all add: server_run_def)

lemma server_run_stable:
  assumes "P st" "\<And>st step. P st \<Longrightarrow> step \<in> set sched \<Longrightarrow> P (server_step s en family step st)"
  shows "P (server_run s en family sched st)"
  using assms by (induction sched arbitrary: st) simp_all

abbreviation state_of :: "'w server \<Rightarrow> daemon \<times> 'w" where
  "state_of st \<equiv> (sy_Daemon st, sy_World st)"

lemma perform_fields [simp]:
  "sy_Ctx (perform s op st) = sy_Ctx st" "sy_Worker (perform s op st) = sy_Worker st"
  "sy_Accepting (perform s op st) = sy_Accepting st" "sy_Failures (perform s op st) = sy_Failures st"
  "sy_Main (perform s op st) = sy_Main st" "state_of (perform s op st) = run_step s op (state_of st)"
  by (simp_all add: perform_def split: prod.split)

lemma leave_loop_fields [simp]:
  "sy_Daemon (leave_loop c st) = sy_Daemon st" "sy_World (leave_loop c st) = sy_World st"
  "sy_Worker (leave_loop c st) = sy_Worker st" "sy_Accepting (leave_loop c st) = sy_Accepting st"
  "sy_Failures (leave_loop c st) = sy_Failures st" "sy_Main (leave_loop c st) = Leaving c" "\<exists>e. sy_Ctx (leave_loop c st) = Some e"
  by (simp_all add: leave_loop_def split: option.split)

lemma message_step_fields [simp]:
  "sy_Ctx (message_step s en family ms st) = sy_Ctx st" "sy_Accepting (message_step s en family ms st) = sy_Accepting st"
  "sy_Failures (message_step s en family ms st) = sy_Failures st" "sy_Main (message_step s en family ms st) = sy_Main st"
  by (cases ms; simp split: prod.split outcome.split)+

lemma poll_step_fields [simp]:
  "sy_Ctx (poll_step en tk st) = sy_Ctx st" "sy_Accepting (poll_step en tk st) = sy_Accepting st"
  "sy_Failures (poll_step en tk st) = sy_Failures st" "sy_Main (poll_step en tk st) = sy_Main st"
  "sy_Daemon (poll_step en tk st) = sy_Daemon st" "sy_World (poll_step en tk st) = sy_World st"
  by (simp_all add: poll_step_def split: outcome.split)

lemmas step_defs = worker_step_def select_step_def http_step_def
lemmas step_splits = sched_step.splits worker_phase.splits list.splits if_splits

section \<open>A schedule performs operations of the daemon\<close>

lemma message_step_ops:
  "\<exists>es. state_of (message_step s en family ms st) = run_steps s (map (Operation \<circ> CObserve) es) (state_of st)"
proof (cases ms)
  case Nil
  then show ?thesis by (intro exI [of _ "[]"]) (simp add: run_steps_def)
next
  case (Cons m rest)
  obtain es where "snd (run_messages en family (observe_handler s) [m] (state_of st)) = handled (observe_handler s) es (state_of st)"
    using run_messages_handled_by [of en family "observe_handler s" "[m]" "state_of st"] by (elim exE)
  then have es: "snd (run_messages en family (observe_handler s) [m] (state_of st)) =
      run_steps s (map (Operation \<circ> CObserve) es) (state_of st)" by (simp only: observe_handled)
  have "state_of (message_step s en family ms st) = snd (run_messages en family (observe_handler s) [m] (state_of st))"
    by (simp add: Cons del: run_messages.simps split: prod.split outcome.split)
  with es show ?thesis by metis
qed

text \<open>Only the report of a lost stream is a \<open>Fail\<close>.\<close>

lemma server_step_cases:
  obtains (same) "state_of (server_step s en family step st) = state_of st"
    | (operation) op where "state_of (server_step s en family step st) = run_step s op (state_of st)"
        "\<And>x. op = Operation (CFail x) \<Longrightarrow> step = ReportFatal \<and> sy_Worker st = Lost x"
    | (messages) ms where "sy_Worker st = Handling ms"
        "state_of (server_step s en family step st) = state_of (message_step s en family ms st)"
proof (cases step)
  case (HandlerPut a)
  then show thesis by (intro operation [of "Operation (CPut a)"]) simp_all
next
  case (HandlerDelete cid)
  then show thesis by (intro operation [of "Operation (CDelete cid)"]) simp_all
next
  case HandlerStatus
  then show thesis by (intro operation [of ReadStatus]) simp_all
next
  case SelectRetry
  show thesis
  proof (cases "sy_Main st = Selecting")
    case True
    with SelectRetry show thesis by (intro operation [of "Operation CRetry"]) (simp_all add: step_defs)
  next
    case False
    with SelectRetry show thesis by (intro same) (simp add: step_defs)
  qed
next
  case ReportFatal
  show thesis
  proof (cases "\<exists>e. sy_Worker st = Lost e \<and> \<not> errors_Is e ContextCanceled")
    case True
    then obtain e where "sy_Worker st = Lost e" "\<not> errors_Is e ContextCanceled" by blast
    then show thesis using ReportFatal
      by (intro operation [of "Operation (CFail e)"]) (simp_all add: step_defs perform_def split: prod.split)
  next
    case False
    then show thesis using ReportFatal by (intro same) (auto simp: step_defs split: worker_phase.split)
  qed
next
  case NextMessage
  show thesis
  proof (cases "sy_Worker st")
    case (Handling ms)
    then show thesis using NextMessage by (intro messages [of ms]) (simp_all add: step_defs)
  qed (rule same, simp add: NextMessage step_defs)+
qed (rule same, auto simp: step_defs split: worker_phase.split list.split)+

lemma server_step_ops:
  "\<exists>ops. state_of (server_step s en family step st) = run_steps s ops (state_of st) \<and>
     (\<forall>x. Operation (CFail x) \<in> set ops \<longrightarrow> step = ReportFatal \<and> sy_Worker st = Lost x)"
proof (cases rule: server_step_cases [of s en family step st])
  case same
  then show ?thesis by (intro exI [of _ "[]"]) (simp add: run_steps_def)
next
  case (operation op)
  then show ?thesis by (intro exI [of _ "[op]"]) (auto simp: run_steps_def)
next
  case (messages ms)
  obtain es where "state_of (message_step s en family ms st) = run_steps s (map (Operation \<circ> CObserve) es) (state_of st)"
    using message_step_ops by blast
  with messages show ?thesis by (intro exI [of _ "map (Operation \<circ> CObserve) es"]) auto
qed

lemma server_run_ops: "\<exists>ops. state_of (server_run s en family sched st) = run_steps s ops (state_of st)"
proof (induction sched arbitrary: st)
  case Nil
  show ?case by (rule exI [of _ "[]"]) (simp add: run_steps_def)
next
  case (Cons step sched)
  obtain xs where xs: "state_of (server_step s en family step st) = run_steps s xs (state_of st)"
    using server_step_ops by blast
  obtain ys where "state_of (server_run s en family sched (server_step s en family step st)) =
      run_steps s ys (state_of (server_step s en family step st))" using Cons by blast
  then show ?case by (intro exI [of _ "xs @ ys"]) (simp add: xs run_steps_append)
qed

section \<open>The phases and the channel\<close>

text \<open>A worker that has lost the stream stays in the phases that report the error, in their order.\<close>

lemma lost_forward:
  assumes "sy_Worker st \<in> {Lost e, Reporting e, Exited e}"
  shows "sy_Worker (server_step s en family step st) =
    (case (step, sy_Worker st) of
       (ReportFatal, Lost x) \<Rightarrow> Reporting x
     | (SendFailure, Reporting x) \<Rightarrow> if length (sy_Failures st) < 2 then Exited x else Reporting x
     | (_, p) \<Rightarrow> p)"
  using assms by (cases step) (auto simp: step_defs split: list.split)

lemma main_forward:
  "sy_Main (server_step s en family step st) =
     (case (sy_Main st, step) of
        (Selecting, SelectDone) \<Rightarrow> if sy_Ctx st \<noteq> None then Leaving None else Selecting
      | (Selecting, SelectFailure) \<Rightarrow> (case sy_Failures st of [] \<Rightarrow> Selecting | e # es \<Rightarrow> Leaving (Some e))
      | (m, _) \<Rightarrow> m)"
  by (cases step) (auto simp: step_defs split: list.split worker_phase.split main_phase.split)

lemma leaving_stays: "sy_Main st = Leaving c \<Longrightarrow> sy_Main (server_run s en family sched st) = Leaving c"
  by (rule server_run_stable) (simp_all add: main_forward)

text \<open>
  The channel holds what the two goroutines have sent, but for what the main goroutine has received:
  one error each at most, so that a send never blocks.
\<close>

definition sent :: "'w server \<Rightarrow> nat" where
  "sent st = (if \<exists>e. sy_Worker st = Exited e then 1 else 0) + (if sy_Accepting st then 0 else 1)"

definition channel_ok :: "'w server \<Rightarrow> bool" where
  "channel_ok st \<longleftrightarrow> length (sy_Failures st) \<le> sent st \<and> (sy_Main st = Selecting \<longrightarrow> length (sy_Failures st) = sent st)"

lemma message_step_worker: "sy_Worker (message_step s en family ms st) \<noteq> Exited e"
  by (cases ms) (simp_all split: prod.split outcome.split)

lemma poll_step_worker: "sy_Worker (poll_step en tk st) \<noteq> Exited e"
  by (simp add: poll_step_def split: outcome.split)

lemma channel_ok_worker: "channel_ok st \<Longrightarrow> channel_ok (worker_step s en family step st)"
  by (cases step; cases "sy_Worker st";
      simp add: worker_step_def channel_ok_def sent_def message_step_worker poll_step_worker split: if_splits)

lemma channel_ok_select: "channel_ok st \<Longrightarrow> channel_ok (select_step s step st)"
  by (cases step; cases "sy_Failures st"; simp add: select_step_def channel_ok_def sent_def split: if_splits)

lemma channel_ok_http: "channel_ok st \<Longrightarrow> channel_ok (http_step e st)"
  by (auto simp: http_step_def channel_ok_def sent_def split: if_splits)

lemma channel_ok_other [simp]:
  "channel_ok (perform s op st) = channel_ok st" "channel_ok (st\<lparr>sy_Ctx := x\<rparr>) = channel_ok st"
  by (simp_all add: channel_ok_def sent_def)

lemma channel_ok_step: "channel_ok st \<Longrightarrow> channel_ok (server_step s en family step st)"
  by (cases step) (simp_all add: channel_ok_http channel_ok_select [OF channel_ok_worker])

lemma channel_ok_run: "channel_ok st \<Longrightarrow> channel_ok (server_run s en family sched st)"
  by (rule server_run_stable) (simp_all add: channel_ok_step)

lemma channel_ok_start: "channel_ok (serve_start inode w)"
  by (simp add: channel_ok_def sent_def serve_start_def)

lemma channel_ok_room:
  assumes "channel_ok st"
  shows "length (sy_Failures st) \<le> 2" "sy_Worker st = Reporting e \<Longrightarrow> length (sy_Failures st) < 2"
    "sy_Accepting st \<Longrightarrow> length (sy_Failures st) < 2"
    "sy_Worker st = Exited e \<Longrightarrow> sy_Main st = Selecting \<Longrightarrow> sy_Failures st \<noteq> []"
  using assms by (auto simp: channel_ok_def sent_def split: if_splits)

section \<open>A lost stream is heard\<close>

lemma lost_forward_run:
  assumes "sy_Worker st \<in> {Lost e, Reporting e, Exited e}"
  shows "sy_Worker (server_run s en family sched st) \<in> {Lost e, Reporting e, Exited e}"
  by (rule server_run_stable [where P = "\<lambda>st. sy_Worker st \<in> {Lost e, Reporting e, Exited e}", OF assms])
    (auto simp: lost_forward [where e = e] split: sched_step.split)

lemma reporting_stays:
  assumes "sy_Worker st \<in> {Reporting e, Exited e}"
  shows "sy_Worker (server_run s en family sched st) \<in> {Reporting e, Exited e}"
  by (rule server_run_stable [where P = "\<lambda>st. sy_Worker st \<in> {Reporting e, Exited e}", OF assms])
    (auto simp: lost_forward [where e = e] split: sched_step.split)

lemma exited_stays:
  assumes "sy_Worker st = Exited e"
  shows "sy_Worker (server_run s en family sched st) = Exited e"
  by (rule server_run_stable [where P = "\<lambda>st. sy_Worker st = Exited e", OF assms])
    (auto simp: lost_forward [where e = e] split: sched_step.split)

text \<open>
  Whatever happens in between: once the worker has made its report and its send, and the main
  goroutine has received a failure, the loop is over.
\<close>

lemma lost_stream_ends_loop:
  assumes lost: "sy_Worker st \<in> {Lost e, Reporting e, Exited e}" and chan: "channel_ok st"
    and "subseq [ReportFatal, SendFailure, SelectFailure] sched"
  shows "sy_Main (server_run s en family sched st) \<noteq> Selecting"
proof -
  obtain a b c f where sched: "sched = a @ ReportFatal # b @ SendFailure # c @ SelectFailure # f"
    using assms(3) by (fastforce dest!: list_emb_ConsD)
  let ?run = "server_run s en family" and ?step = "server_step s en family"
  let ?s1 = "?step ReportFatal (?run a st)"
  have "sy_Worker (?run a st) \<in> {Lost e, Reporting e, Exited e}" by (rule lost_forward_run [OF lost])
  then have 1: "sy_Worker ?s1 \<in> {Reporting e, Exited e}" by (auto simp: lost_forward [where e = e] simp del: server_step.simps)
  let ?s2 = "?step SendFailure (?run b ?s1)"
  have "sy_Worker (?run b ?s1) \<in> {Reporting e, Exited e}" by (rule reporting_stays [OF 1])
  moreover have chan2: "channel_ok (?run b ?s1)" by (intro channel_ok_run channel_ok_step chan)
  ultimately have 2: "sy_Worker ?s2 = Exited e"
    using channel_ok_room(2) [OF chan2, of e] by (auto simp: lost_forward [where e = e] simp del: server_step.simps)
  let ?s3 = "?run c ?s2"
  have "sy_Worker ?s3 = Exited e" by (rule exited_stays [OF 2])
  moreover have "channel_ok ?s3" by (intro channel_ok_run channel_ok_step chan2)
  ultimately have "sy_Main (?step SelectFailure ?s3) \<noteq> Selecting"
    using channel_ok_room(4) [of ?s3 e] by (auto simp: main_forward simp del: server_step.simps split: main_phase.split list.split)
  then obtain cause where "sy_Main (?step SelectFailure ?s3) = Leaving cause" by (cases "sy_Main (?step SelectFailure ?s3)") simp_all
  from leaving_stays [OF this, of s en family f] show ?thesis by (simp add: sched del: server_step.simps)
qed

section \<open>What the main goroutine receives\<close>

text \<open>Without a signal the loop ends by an error of the worker or of the listener.\<close>

definition cause_ok :: "go_error set \<Rightarrow> 'w server \<Rightarrow> bool" where
  "cause_ok A st \<longleftrightarrow>
     (\<forall>x \<in> set (sy_Failures st). sy_Worker st = Exited x \<or> x \<in> A \<or> sy_Main st \<noteq> Selecting) \<and>
     (case sy_Main st of
        Selecting \<Rightarrow> sy_Ctx st = None
      | Leaving None \<Rightarrow> False
      | Leaving (Some c) \<Rightarrow> sy_Worker st = Exited c \<or> c \<in> A)"

lemma cause_ok_start: "cause_ok A (serve_start inode w)"
  by (simp add: cause_ok_def serve_start_def)

lemma cause_ok_worker: "cause_ok A st \<Longrightarrow> cause_ok A (worker_step s en family step st)"
  by (cases step; cases "sy_Worker st"; simp add: worker_step_def cause_ok_def)
    (auto split: main_phase.splits option.splits)

lemma cause_ok_select: "cause_ok A st \<Longrightarrow> cause_ok A (select_step s step st)"
  by (cases step; cases "sy_Failures st"; simp add: select_step_def cause_ok_def split: main_phase.splits)

lemma cause_ok_http: "cause_ok A st \<Longrightarrow> e \<in> A \<or> sy_Main st \<noteq> Selecting \<Longrightarrow> cause_ok A (http_step e st)"
  by (auto simp: http_step_def cause_ok_def split: main_phase.splits option.splits)

lemma cause_ok_perform [simp]: "cause_ok A (perform s op st) = cause_ok A st"
  by (simp add: cause_ok_def split: main_phase.split option.split)

lemma cause_ok_step:
  assumes "cause_ok A st" "step \<noteq> Signal" "\<And>x. step = AcceptFails x \<Longrightarrow> x \<in> A"
  shows "cause_ok A (server_step s en family step st)"
  using assms by (cases step) (simp_all add: cause_ok_http cause_ok_select [OF cause_ok_worker])

lemma cause_ok_run:
  assumes "cause_ok A st" "Signal \<notin> set sched" "\<And>x. AcceptFails x \<in> set sched \<Longrightarrow> x \<in> A"
  shows "cause_ok A (server_run s en family sched st)"
  using assms(1) by (rule server_run_stable) (use assms(2,3) in \<open>auto intro!: cause_ok_step simp del: server_step.simps\<close>)

lemma serve_return_Some:
  assumes "serve_return s shutdown late st = Some (r, w')"
  obtains cause e where "sy_Main st = Leaving cause" "sy_Worker st = Exited e" "\<not> sy_Accepting st"
    "\<exists>ce. r = error_outcome (errors_Join [serve_cause cause, shutdown, ce])"
    "w' = snd (run_steps s (if shutdown = None then [] else late)
      (sy_Daemon st, snd (Daemon_Cleanup s (sy_Daemon st) (sy_World st))))"
  using assms
  by (auto simp: serve_return_def Let_def split: main_phase.splits worker_phase.splits if_splits prod.splits)

lemma errors_Join_head: "\<exists>es. error_outcome (errors_Join (Some c # rest)) = Err (Joined (c # es))"
  by (simp add: errors_Join_def map_filter_simps)

text \<open>Without a signal the result of \<open>Serve\<close> starts with the error that ended the loop.\<close>

lemma unsignalled_result:
  assumes "cause_ok A st" "serve_return s shutdown late st = Some (r, w')"
    and "sy_Worker st = Exited e" "\<And>x. x \<in> insert e A \<Longrightarrow> \<not> errors_Is x ErrServerClosed \<and> \<not> errors_Is x ContextCanceled"
  shows "\<exists>c es. r = Err (Joined (c # es)) \<and> (c = e \<or> c \<in> A)"
  using assms(2)
proof (rule serve_return_Some)
  fix cause x ce
  assume main: "sy_Main st = Leaving cause" and "\<exists>ce. r = error_outcome (errors_Join [serve_cause cause, shutdown, ce])"
  then obtain ce where r: "r = error_outcome (errors_Join [serve_cause cause, shutdown, ce])" by blast
  obtain c where c: "cause = Some c" "c \<in> insert e A"
    using assms(1,3) main by (auto simp: cause_ok_def split: option.splits)
  then have "serve_cause cause = Some c" using assms(4) [of c] by (simp add: serve_cause_def)
  with r c errors_Join_head [of c "[shutdown, ce]"] show ?thesis by auto
qed

section \<open>The waits of the shutdown end\<close>

lemma message_step_phase:
  "sy_Worker st = Handling ms \<Longrightarrow>
     sy_Worker (server_run s en family (replicate (Suc (length ms)) NextMessage) st) \<in> {Polling, Crashed} \<union> range Lost"
proof (induction ms arbitrary: st)
  case Nil
  then show ?case by (simp add: step_defs)
next
  case (Cons m ms)
  let ?st = "message_step s en family (m # ms) st"
  have st: "server_step s en family NextMessage st = ?st" using Cons.prems by (simp add: step_defs)
  have first: "server_run s en family (replicate (Suc (length (m # ms))) NextMessage) st =
      server_run s en family (replicate (Suc (length ms)) NextMessage) ?st"
    using st by (simp only: replicate_Suc list.size server_run_simps add_Suc_right add_0_right)
  have idle: "sy_Worker (server_run s en family (replicate n NextMessage) x) = sy_Worker x"
    if "sy_Worker x \<in> {Polling, Crashed} \<union> range Lost" for n and x :: "'a server"
    by (rule server_run_stable [where P = "\<lambda>y. sy_Worker y = sy_Worker x"]) (use that in \<open>auto simp: step_defs\<close>)
  obtain r d w where "run_messages en family (observe_handler s) [m] (state_of st) = (r, d, w)" by (metis prod.exhaust)
  then have "sy_Worker ?st = Handling ms \<or> sy_Worker ?st \<in> {Polling, Crashed} \<union> range Lost"
    by (cases r) (simp_all del: run_messages.simps)
  then consider "sy_Worker ?st = Handling ms" | "sy_Worker ?st \<in> {Polling, Crashed} \<union> range Lost" by blast
  then show ?case
  proof cases
    case 1
    from Cons.IH [OF this] show ?thesis unfolding first .
  next
    case 2
    from idle [OF this] 2 show ?thesis unfolding first by (simp del: message_step.simps server_run_simps replicate.simps)
  qed
qed

lemma poll_messages_no_panic: "poll_messages en tk \<noteq> Panic"
  using run_tick_no_panic [of "\<lambda>ev s. (Ok (), s)" en 0 tk "()"] by (auto simp: run_tick_poll split: outcome.splits)

lemma left_cancelled:
  "(sy_Main st \<noteq> Selecting \<longrightarrow> sy_Ctx st \<noteq> None) \<Longrightarrow>
     sy_Main (server_run s en family sched st) \<noteq> Selecting \<longrightarrow> sy_Ctx (server_run s en family sched st) \<noteq> None"
proof (rule server_run_stable [where P = "\<lambda>st. sy_Main st \<noteq> Selecting \<longrightarrow> sy_Ctx st \<noteq> None"])
  fix st :: "'a server" and step
  assume st: "sy_Main st \<noteq> Selecting \<longrightarrow> sy_Ctx st \<noteq> None"
  have ctx: "sy_Ctx (worker_step s en family step st) = sy_Ctx st" "sy_Main (worker_step s en family step st) = sy_Main st"
    by (cases step; cases "sy_Worker st"; simp add: worker_step_def)+
  have "sy_Main (select_step s step x) \<noteq> Selecting \<longrightarrow> sy_Ctx (select_step s step x) \<noteq> None"
    if "sy_Main x \<noteq> Selecting \<longrightarrow> sy_Ctx x \<noteq> None" for x :: "'a server"
    using that by (cases step; cases "sy_Failures x") (simp_all add: select_step_def)
  then show "sy_Main (server_step s en family step st) \<noteq> Selecting \<longrightarrow> sy_Ctx (server_step s en family step st) \<noteq> None"
    using st ctx by (cases step) (simp_all add: http_step_def)
qed

text \<open>
  Out of its loop, the main goroutine has cancelled the context: the worker, which handles at most
  the messages it holds, and the HTTP server then end, and so does the wait for them.
\<close>

lemma wait_ends:
  assumes main: "sy_Main st = Leaving cause" and ctx: "sy_Ctx st \<noteq> None" and chan: "channel_ok st"
    and worker: "sy_Worker st \<in> {Polling} \<union> range Lost \<union> range Reporting \<union> range Exited"
  shows "serve_return s shutdown late (server_run s en family [Poll tk, ReportFatal, SendFailure, ServerStops] st) \<noteq> None"
proof -
  let ?step = "server_step s en family"
  let ?s1 = "?step (Poll tk) st"
  let ?s2 = "?step ReportFatal ?s1"
  let ?s3 = "?step SendFailure ?s2"
  let ?s4 = "?step ServerStops ?s3"
  have "\<exists>e. sy_Worker ?s1 \<in> {Lost e, Reporting e, Exited e}"
    using worker ctx by (auto simp: step_defs poll_step_def poll_messages_def)
  then obtain e where "sy_Worker ?s1 \<in> {Lost e, Reporting e, Exited e}" ..
  then have 2: "sy_Worker ?s2 \<in> {Reporting e, Exited e}" by (auto simp: lost_forward [where e = e] simp del: server_step.simps)
  have c2: "channel_ok ?s2" by (intro channel_ok_step chan)
  have 3: "sy_Worker ?s3 = Exited e"
    using 2 channel_ok_room(2) [OF c2, of e] by (auto simp: lost_forward [where e = e] simp del: server_step.simps)
  have c3: "channel_ok ?s3" by (intro channel_ok_step c2)
  have m: "sy_Main ?s3 = Leaving cause" "sy_Main ?s4 = Leaving cause"
    by (simp_all add: main_forward main del: server_step.simps)
  have "sy_Worker ?s4 = Exited e" using 3 by (simp add: lost_forward [where e = e] del: server_step.simps)
  moreover have "\<not> sy_Accepting ?s4" using channel_ok_room(3) [OF c3] m(1) by (simp add: http_step_def)
  ultimately show ?thesis using m(2) by (simp add: serve_return_def Let_def del: server_step.simps split: prod.split)
qed

lemma shutdown_ends:
  assumes main: "sy_Main st = Leaving cause" and ctx: "sy_Ctx st \<noteq> None" and chan: "channel_ok st"
    and worker: "\<And>sched. sy_Worker (server_run s en family sched st) \<noteq> Crashed"
  shows "\<exists>n. \<forall>tk. serve_return s shutdown late
    (server_run s en family (replicate n NextMessage @ [Poll tk, ReportFatal, SendFailure, ServerStops]) st) \<noteq> None"
proof -
  obtain n where n: "sy_Worker (server_run s en family (replicate n NextMessage) st) \<in>
      {Polling} \<union> range Lost \<union> range Reporting \<union> range Exited"
  proof (cases "sy_Worker st")
    case (Handling ms)
    from message_step_phase [OF this, of s en family] worker that show thesis by blast
  next
    case Crashed
    then show thesis using worker [of "[]"] by simp
  qed (use that [of 0] in simp_all)
  let ?st = "server_run s en family (replicate n NextMessage) st"
  have m: "sy_Main ?st = Leaving cause" by (rule leaving_stays [OF main])
  have "sy_Main ?st \<noteq> Selecting \<longrightarrow> sy_Ctx ?st \<noteq> None" by (rule left_cancelled) (use ctx in simp)
  then have "sy_Ctx ?st \<noteq> None" using m by simp
  from wait_ends [OF m this channel_ok_run [OF chan] n, of s shutdown late en family] show ?thesis
    by (intro exI [of _ n]) (simp del: server_step.simps)
qed

section \<open>The worker alone is the receive loop\<close>

definition worker_result :: "'w server \<Rightarrow> unit outcome \<times> daemon \<times> 'w \<Rightarrow> 'w server" where
  "worker_result st r =
     (case r of (x, d, w) \<Rightarrow> st\<lparr>sy_Daemon := d, sy_World := w,
        sy_Worker := (case x of Ok _ \<Rightarrow> Polling | Err e \<Rightarrow> Lost e | Panic \<Rightarrow> Crashed)\<rparr>)"

definition tick_steps :: "endian \<Rightarrow> pm_tick \<Rightarrow> sched_step list" where
  "tick_steps en tk =
     Poll tk # (case poll_messages en tk of Ok ms \<Rightarrow> replicate (Suc (length ms)) NextMessage | _ \<Rightarrow> [])"

lemma run_messages_Cons:
  "run_messages en family handle (m # ms) s =
     (case run_messages en family handle [m] s of
        (Ok _, s1) \<Rightarrow> run_messages en family handle ms s1
      | (Err e, s1) \<Rightarrow> (Err e, s1)
      | (Panic, s1) \<Rightarrow> (Panic, s1))"
  by (auto split: outcome.split prod.split)

text \<open>Steps of the receive loop do nothing to a worker that has left it.\<close>

lemma worker_idle:
  assumes "sy_Worker st \<in> {Crashed} \<union> range Lost" "set sched \<subseteq> insert NextMessage (range Poll)"
  shows "server_run s en family sched st = st"
  by (rule server_run_stable [where P = "\<lambda>x. x = st"]) (use assms in \<open>auto simp: step_defs\<close>)

lemma messages_schedule:
  "sy_Worker st = Handling ms \<Longrightarrow>
     server_run s en family (replicate (Suc (length ms)) NextMessage) st =
       worker_result st (run_messages en family (observe_handler s) ms (state_of st))"
proof (induction ms arbitrary: st)
  case Nil
  then show ?case by (simp add: step_defs worker_result_def)
next
  case (Cons m ms)
  obtain r d w where r: "run_messages en family (observe_handler s) [m] (state_of st) = (r, d, w)" by (metis prod.exhaust)
  let ?st = "message_step s en family (m # ms) st" and ?more = "replicate (Suc (length ms)) NextMessage"
  have st: "server_step s en family NextMessage st = ?st" using Cons.prems by (simp add: step_defs)
  have first: "server_run s en family (replicate (Suc (length (m # ms))) NextMessage) st = server_run s en family ?more ?st"
    using st by (simp only: replicate_Suc list.size server_run_simps add_Suc_right add_0_right)
  show ?case
  proof (cases r)
    case (Ok u)
    then have "?st = st\<lparr>sy_Daemon := d, sy_World := w, sy_Worker := Handling ms\<rparr>" using r by (simp del: run_messages.simps)
    with Cons.IH [of ?st] show ?thesis
      unfolding first run_messages_Cons [of en family _ m ms] r Ok by (simp add: worker_result_def split: prod.split)
  next
    case (Err e)
    then have st': "?st = st\<lparr>sy_Daemon := d, sy_World := w, sy_Worker := Lost e\<rparr>" using r by (simp del: run_messages.simps)
    then have "server_run s en family ?more ?st = ?st" by (intro worker_idle) auto
    then show ?thesis unfolding first run_messages_Cons [of en family _ m ms] r Err by (simp add: st' worker_result_def del: message_step.simps)
  next
    case Panic
    then have st': "?st = st\<lparr>sy_Daemon := d, sy_World := w, sy_Worker := Crashed\<rparr>" using r by (simp del: run_messages.simps)
    then have "server_run s en family ?more ?st = ?st" by (intro worker_idle) auto
    then show ?thesis unfolding first run_messages_Cons [of en family _ m ms] r Panic by (simp add: st' worker_result_def del: message_step.simps)
  qed
qed

lemma tick_schedule:
  assumes "sy_Worker st = Polling" "tk_ctx tk = sy_Ctx st"
  shows "server_run s en family (tick_steps en tk) st = worker_result st (run_tick en family (observe_handler s) tk (state_of st))"
proof -
  have tk: "tk\<lparr>tk_ctx := sy_Ctx st\<rparr> = tk" using assms(2) [symmetric] by simp
  have step: "server_step s en family (Poll tk) st = poll_step en tk st" using assms(1) by (simp add: step_defs)
  show ?thesis
  proof (cases "poll_messages en tk")
    case (Ok ms)
    then have st: "poll_step en tk st = st\<lparr>sy_Worker := Handling ms\<rparr>" by (simp add: poll_step_def tk)
    have "server_run s en family (replicate (Suc (length ms)) NextMessage) (st\<lparr>sy_Worker := Handling ms\<rparr>) =
        worker_result st (run_messages en family (observe_handler s) ms (state_of st))"
      using messages_schedule [of "st\<lparr>sy_Worker := Handling ms\<rparr>" ms s en family]
      by (simp add: worker_result_def del: replicate.simps server_run_simps split: prod.split)
    then show ?thesis using Ok step st
      by (simp add: tick_steps_def run_tick_poll del: server_step.simps replicate.simps)
  qed (use step in \<open>simp_all add: tick_steps_def run_tick_poll poll_step_def tk worker_result_def del: server_step.simps\<close>)
qed

lemma tick_steps_worker: "set (tick_steps en tk) \<subseteq> insert NextMessage (range Poll)"
  by (auto simp: tick_steps_def split: outcome.splits)

text \<open>
  As long as the context is not cancelled, the steps of the worker for a list of ticks are the receive
  loop on it, and with the report \<open>event_worker\<close>.
\<close>

lemma run_schedule:
  assumes "sy_Worker st = Polling" "\<forall>tk \<in> set tks. tk_ctx tk = sy_Ctx st"
  shows "server_run s en family (concat (map (tick_steps en) tks)) st =
    (case pm_Run en family (observe_handler s) tks (state_of st) of
       (None, dw) \<Rightarrow> worker_result st (Ok (), dw)
     | (Some r, dw) \<Rightarrow> worker_result st (r, dw))"
  using assms
proof (induction tks arbitrary: st)
  case Nil
  then show ?case by (simp add: worker_result_def)
next
  case (Cons tk tks)
  obtain r d w where r: "run_tick en family (observe_handler s) tk (state_of st) = (r, d, w)" by (metis prod.exhaust)
  let ?more = "concat (map (tick_steps en) tks)" and ?st = "worker_result st (r, d, w)"
  have first: "server_run s en family (tick_steps en tk) st = ?st"
    using tick_schedule [OF Cons.prems(1), of tk s en family] Cons.prems(2) r by simp
  show ?case
  proof (cases "\<exists>u. r = Ok u")
    case True
    then have r': "r = Ok ()" by simp
    have "sy_Worker ?st = Polling" "sy_Ctx ?st = sy_Ctx st" "state_of ?st = (d, w)" by (simp_all add: worker_result_def r')
    with Cons.IH [of ?st] Cons.prems(2) show ?thesis
      by (auto simp: first r r' worker_result_def split: prod.split option.split)
  next
    case False
    have "sy_Worker ?st \<in> {Crashed} \<union> range Lost" using False by (cases r) (simp_all add: worker_result_def)
    moreover have "set ?more \<subseteq> insert NextMessage (range Poll)" using tick_steps_worker by (auto simp: subset_eq)
    ultimately have "server_run s en family ?more ?st = ?st" by (rule worker_idle)
    with False show ?thesis by (cases r) (simp_all add: first r)
  qed
qed

lemma event_worker_schedule:
  assumes "sy_Worker st = Polling" "\<forall>tk \<in> set tks. tk_ctx tk = sy_Ctx st"
    and "event_worker s en family tks (state_of st) = (Some (Err e), d, w)"
  shows "server_run s en family (concat (map (tick_steps en) tks) @ [ReportFatal]) st =
    st\<lparr>sy_Daemon := d, sy_World := w, sy_Worker := Reporting e\<rparr>"
proof -
  obtain d1 where "pm_Run en family (observe_handler s) tks (state_of st) = (Some (Err e), d1, w)"
    "d = (if \<not> errors_Is e ContextCanceled then Daemon_Fail (Some e) d1 else d1)"
    using assms(3) by (auto simp: event_worker_def split: prod.splits option.splits outcome.splits)
  with run_schedule [OF assms(1,2), of s en family] show ?thesis
    by (simp add: worker_result_def step_defs perform_def)
qed

section \<open>A schedule is a run of the server\<close>

lemma schedule_is_run:
  assumes "serve_return s shutdown late (server_run s en family sched (serve_start inode w)) = Some (r, w')"
  shows "\<exists>run. serve_main s run inode w = (r, w') \<and> sr_Shutdown run = shutdown \<and> sr_Late run = late \<and>
    sy_Main (server_run s en family sched (serve_start inode w)) = Leaving (sr_Cause run)"
proof -
  let ?st = "server_run s en family sched (serve_start inode w)"
  obtain ops where "state_of ?st = run_steps s ops (state_of (serve_start inode w))" using server_run_ops by blast
  then have ops: "run_steps s ops (NewDaemon inode, w) = state_of ?st" by (simp add: serve_start_def)
  obtain cause where main: "sy_Main ?st = Leaving cause" using assms by (rule serve_return_Some)
  let ?run = "\<lparr>sr_Running = ops, sr_Cause = cause, sr_Draining = [], sr_Shutdown = shutdown, sr_Late = late\<rparr>"
  have nil: "run_steps s [] dw = dw" for dw by (simp add: run_steps_def)
  have "serve_main s ?run inode w = (r, w')"
    using assms main by (auto simp: serve_main_def serve_return_def ops nil Let_def
        split: worker_phase.splits if_splits prod.splits)
  with main show ?thesis by (intro exI [of _ ?run]) simp
qed

section \<open>The daemon during a schedule\<close>

context daemon_laws
begin

abbreviation server_inv :: "'w server \<Rightarrow> bool" where
  "server_inv st \<equiv> daemon_inv (sy_Daemon st) (pol (sy_World st)) (pth (sy_World st))"

lemma server_inv_step:
  assumes "server_inv st"
  shows "server_inv (server_step s en family step st)"
proof -
  obtain ops where "state_of (server_step s en family step st) = run_steps s ops (state_of st)"
    using server_step_ops by blast
  from run_steps_ok [OF assms this [symmetric]] show ?thesis by simp
qed

lemma server_inv_run: "server_inv st \<Longrightarrow> server_inv (server_run s en family sched st)"
  by (rule server_run_stable) (simp_all add: server_inv_step del: server_step.simps)

lemma server_inv_start: "empty_namespace inode (pol w) (pth w) \<Longrightarrow> server_inv (serve_start inode w)"
  by (simp add: serve_start_def NewDaemon_inv)

lemma message_no_panic:
  assumes "daemon_inv d (pol w) (pth w)"
  shows "fst (run_messages en family (observe_handler s) [m] (d, w)) \<noteq> Panic"
proof -
  have "fst (Daemon_Observe s e d w) \<noteq> Panic" for e
    using Daemon_Observe_ok [OF assms, of e] by (cases "Daemon_Observe s e d w") (auto simp: op_ok_def)
  then show ?thesis
    by (auto simp: observe_handler_def DecodePMEvent_no_panic split: outcome.splits prod.splits) (metis fst_conv)
qed

lemma worker_never_crashes:
  assumes "server_inv st" "sy_Worker st \<noteq> Crashed"
  shows "sy_Worker (server_run s en family sched st) \<noteq> Crashed"
proof -
  have message: "sy_Worker (message_step s en family ms st) \<noteq> Crashed" if "server_inv st" for ms and st :: "'w server"
    using message_no_panic [OF that, of en family "hd ms"]
    by (cases ms) (auto simp del: run_messages.simps split: prod.split outcome.split)
  have poll: "sy_Worker (poll_step en tk st) \<noteq> Crashed" for tk and st :: "'w server"
    by (auto simp: poll_step_def poll_messages_no_panic split: outcome.split)
  have "server_inv (server_run s en family sched st) \<and> sy_Worker (server_run s en family sched st) \<noteq> Crashed"
  proof (rule server_run_stable [where P = "\<lambda>st. server_inv st \<and> sy_Worker st \<noteq> Crashed"])
    fix st :: "'w server" and step
    assume st: "server_inv st \<and> sy_Worker st \<noteq> Crashed"
    then have "sy_Worker (server_step s en family step st) \<noteq> Crashed"
      by (cases step; cases "sy_Worker st") (simp_all add: step_defs message poll split: list.split)
    with st server_inv_step show "server_inv (server_step s en family step st) \<and> sy_Worker (server_step s en family step st) \<noteq> Crashed"
      by blast
  qed (use assms in simp)
  then show ?thesis by simp
qed

text \<open>Once the worker has reported the lost stream the daemon holds the error for good.\<close>

lemma run_step_fatal:
  assumes inv: "daemon_inv d (pol w) (pth w)" and fatal: "d_fatal d = Some f" and "\<And>x. op \<noteq> Operation (CFail x)"
  shows "d_fatal (fst (run_step s op (d, w))) = Some f"
proof (cases op)
  case (Operation c)
  obtain r d' w' where run: "run_command s c d w = (r, d', w')" by (metis prod.exhaust)
  from run_command_fatal [OF inv fatal run] assms(3) Operation run show ?thesis by auto
qed (simp add: fatal)

lemma fatal_stays:
  assumes "server_inv st" "sy_Worker st \<in> {Reporting e, Exited e}" "d_fatal (sy_Daemon st) = Some e"
  shows "d_fatal (sy_Daemon (server_run s en family sched st)) = Some e"
proof -
  let ?P = "\<lambda>st. server_inv st \<and> sy_Worker st \<in> {Reporting e, Exited e} \<and> d_fatal (sy_Daemon st) = Some e"
  have "?P (server_run s en family sched st)"
  proof (rule server_run_stable [where P = ?P])
    fix st step assume st: "?P st"
    have "d_fatal (sy_Daemon (server_step s en family step st)) = Some e"
    proof (cases rule: server_step_cases [of s en family step st])
      case same
      then show ?thesis using st by simp
    next
      case (operation op)
      then have "op \<noteq> Operation (CFail x)" for x using st by auto
      from run_step_fatal [OF _ _ this] operation(1) st show ?thesis by (metis fst_conv)
    next
      case (messages ms)
      then show ?thesis using st by simp
    qed
    moreover have "sy_Worker (server_step s en family step st) \<in> {Reporting e, Exited e}"
      using reporting_stays [of st e s en family "[step]"] st by simp
    ultimately show "?P (server_step s en family step st)" using st server_inv_step by blast
  qed (use assms in simp)
  then show ?thesis by simp
qed

lemma reported_fatal:
  assumes inv: "server_inv st" and lost: "sy_Worker st = Lost e" "\<not> errors_Is e ContextCanceled" and "ReportFatal \<in> set sched"
  shows "d_fatal (sy_Daemon (server_run s en family sched st)) = Some e"
proof -
  obtain a b where sched: "sched = a @ ReportFatal # b" "ReportFatal \<notin> set a" using split_list_first [OF assms(4)] by blast
  let ?st = "server_run s en family a st"
  have worker: "sy_Worker ?st = Lost e"
    by (rule server_run_stable [where P = "\<lambda>st. sy_Worker st = Lost e"])
      (use lost(1) sched(2) in \<open>auto simp: lost_forward [where e = e] simp del: server_step.simps split: sched_step.split\<close>)
  let ?r = "server_step s en family ReportFatal ?st"
  have "sy_Worker ?r = Reporting e" "d_fatal (sy_Daemon ?r) = Some e"
    using worker lost(2) by (auto simp: step_defs perform_def Daemon_Fail_def split: prod.split)
  moreover have "server_inv ?r" by (intro server_inv_step server_inv_run inv)
  ultimately show ?thesis using fatal_stays [of ?r e en family b] sched(1) by simp
qed

end

end
