(* ===== verification/ServeProperties.thy ===== *)
theory ServeProperties
  imports ServeWorld ServeLoopFacts
begin

text \<open>
  The properties of the server as a whole: what it leaves in the kernel maps when it returns, that it
  gives back every resource and never runs beside another writer, and that a lost event stream ends
  in refusals and in an error.
\<close>

section \<open>Start, run and shutdown\<close>

text \<open>
  C32: whatever fails and whatever the goroutines do, \<open>Serve\<close> never panics, and it either returns an
  error with the maps as they were, or has started over maps that hold nothing of the namespace the
  process is in, and changes nothing outside that namespace; when it returns nil the namespace is
  empty again, the server was not ended by a failure and the shutdown was in time.
\<close>

theorem serve_lifecycle:
  assumes "serve_laws E pr pol pth psel qsel" "Serve E run listen psel qsel w = (r, w')"
  shows "r \<noteq> Panic \<and>
    (pol w' = pol w \<and> pth w' = pth w \<and> r \<noteq> Ok () \<or>
     (\<exists>inode w1. CurrentNetNSInode (fst (sv_Stat E w1)) = Inr inode \<and>
        (\<forall>k. ck_NetNSInode k = inode \<longrightarrow> pol w k = None) \<and> (\<forall>q. ck_NetNSInode (pk_Conn q) = inode \<longrightarrow> pth w q = None) \<and>
        (\<forall>k. ck_NetNSInode k \<noteq> inode \<longrightarrow> pol w' k = pol w k) \<and>
        (\<forall>q. ck_NetNSInode (pk_Conn q) \<noteq> inode \<longrightarrow> pth w' q = pth w q) \<and>
        (r = Ok () \<longrightarrow> pol w' = pol w \<and> pth w' = pth w \<and>
           serve_cause (sr_Cause run) = None \<and> sr_Shutdown run = None)))"
proof -
  have st: "serve_laws.started E pol pth w (r, w') run"
    using serve_laws.Serve_effect(1) [OF assms] .
  have same: "P' = P \<and> T' = T" if "empty_namespace n P T" "empty_namespace n P' T'" "outside_same n P T P' T'"
    for n and P P' :: "conn_key \<Rightarrow> map_policy option" and T T' :: "path_key \<Rightarrow> map_path option"
  proof (intro conjI ext)
    show "P' k = P k" for k
      using that by (cases "ck_NetNSInode k = n") (simp_all add: empty_namespace_def outside_same_def unmapped_def)
    show "T' q = T q" for q
      using that by (cases "ck_NetNSInode (pk_Conn q) = n") (simp_all add: empty_namespace_def outside_same_def unmapped_def)
  qed
  from st show ?thesis
    unfolding serve_laws.started_def [OF assms(1)] serve_laws.stage_ok_def [OF assms(1)] fst_conv snd_conv
  proof (elim disjE exE conjE)
    fix inode w1
    assume h: "CurrentNetNSInode (fst (sv_Stat E w1)) = Inr inode" "empty_namespace inode (pol w) (pth w)"
      "outside_same inode (pol w) (pth w) (pol w') (pth w')" "r \<noteq> Panic"
      "r = Ok () \<longrightarrow> empty_namespace inode (pol w') (pth w') \<and> serve_cause (sr_Cause run) = None \<and> sr_Shutdown run = None"
    have "r = Ok () \<longrightarrow> pol w' = pol w \<and> pth w' = pth w \<and> serve_cause (sr_Cause run) = None \<and> sr_Shutdown run = None"
      using same [OF h(2) _ h(3)] h(5) by simp
    moreover have "(\<forall>k. ck_NetNSInode k = inode \<longrightarrow> pol w k = None) \<and> (\<forall>q. ck_NetNSInode (pk_Conn q) = inode \<longrightarrow> pth w q = None)"
      using h(2) by (auto simp: empty_namespace_def unmapped_def)
    moreover have "(\<forall>k. ck_NetNSInode k \<noteq> inode \<longrightarrow> pol w' k = pol w k) \<and>
        (\<forall>q. ck_NetNSInode (pk_Conn q) \<noteq> inode \<longrightarrow> pth w' q = pth w q)"
      using h(3) by (simp add: outside_same_def)
    ultimately show ?thesis using h(1,4) by (intro conjI disjI2 exI [of _ inode] exI [of _ w1]) simp_all
  qed simp
qed

text \<open>A system whose policy map holds an entry of another namespace.\<close>

definition ex_other :: conn_key where
  "ex_other = \<lparr>ck_NetNSInode = 1, ck_Token = 7, ck_Reserved = 0\<rparr>"

definition ex_system :: os_world where
  "ex_system =
     \<lparr>os_bpf = (ex_empty [])\<lparr>bw_policies := [(ex_other, assigned_policy (ex_assignment ''ctx1'' 443 1))]\<rparr>,
      os_infos = [(1, \<lparr>mi_Name = ''ds_policy_map'', mi_Type = 1, mi_KeySize = 16, mi_ValueSize = 24\<rparr>),
                  (2, \<lparr>mi_Name = ''ds_path_map'', mi_Type = 1, mi_KeySize = 24, mi_ValueSize = 8\<rparr>)],
      os_pins = [(''/sys/fs/bpf/ds_policy_map'', 1)], os_handles = [], os_lock_fds = [], os_lock_holder = None,
      os_lock_busy = False, os_sockets = [], os_listeners = []\<rparr>"

definition ex_serve_run :: serve_run where
  "ex_serve_run =
     \<lparr>sr_Running = [Operation (CObserve (ex_event 2 7 0)), ReadStatus],
      sr_Cause = Some ContextCanceled, sr_Draining = [], sr_Shutdown = None, sr_Late = []\<rparr>"

lemma serve_lifecycle_witness:
  "os_policies (snd (Serve (os_env ex_ifs ex_netns) ex_serve_run ''unix:/run/dualsteer-agent.sock''
     ''/sys/fs/bpf/ds_policy_map'' ''id:2'' ex_system)) ex_other = Some (assigned_policy (ex_assignment ''ctx1'' 443 1))"
proof -
  let ?run = "Serve (os_env ex_ifs ex_netns) ex_serve_run ''unix:/run/dualsteer-agent.sock''
     ''/sys/fs/bpf/ds_policy_map'' ''id:2'' ex_system"
  have v: "fst ?run = Ok ()" by code_simp
  obtain r w' where run: "?run = (r, w')" by force
  have "os_policies w' = os_policies ex_system"
    using serve_lifecycle [OF os_serve_laws run] v unfolding run by auto
  then show ?thesis unfolding run by (simp add: os_policies_def policies_def ex_system_def)
qed

text \<open>
  C33: \<open>Serve\<close> gives back every map handle, lock descriptor, socket and listener it took, on every
  path; while a descriptor of the process holds the writer lock it refuses to start and touches nothing.
\<close>

theorem serve_releases_resources:
  assumes "serve_laws E pr pol pth psel qsel" "Serve E run listen psel qsel w = (r, w')"
  shows "pr w' = pr w \<and> (pr_Holds (pr w) \<noteq> {} \<longrightarrow> r \<noteq> Ok () \<and> pol w' = pol w \<and> pth w' = pth w)"
  using serve_laws.Serve_effect(2,3) [OF assms] by auto

lemma serve_releases_resources_witness:
  "os_process (snd (Serve (os_env ex_ifs ex_netns) ex_serve_run ''[::1]:7070'' ''id:1'' ''id:2''
     (ex_system\<lparr>os_lock_fds := [4], os_lock_holder := Some 4\<rparr>))) = os_process (ex_system\<lparr>os_lock_fds := [4], os_lock_holder := Some 4\<rparr>) \<and>
   fst (Serve (os_env ex_ifs ex_netns) ex_serve_run ''[::1]:7070'' ''id:1'' ''id:2''
     (ex_system\<lparr>os_lock_fds := [4], os_lock_holder := Some 4\<rparr>)) \<noteq> Ok ()"
proof -
  let ?w = "ex_system\<lparr>os_lock_fds := [4], os_lock_holder := Some 4\<rparr>"
  let ?run = "Serve (os_env ex_ifs ex_netns) ex_serve_run ''[::1]:7070'' ''id:1'' ''id:2'' ?w"
  obtain r w' where run: "?run = (r, w')" by force
  have "4 \<in> pr_Holds (os_process ?w)" by (simp add: os_holders_def)
  then have "pr_Holds (os_process ?w) \<noteq> {}" by blast
  with serve_releases_resources [OF os_serve_laws run] show ?thesis unfolding run by simp
qed

section \<open>A lost event stream\<close>

text \<open>
  C34: when \<open>Run\<close> has returned an error other than a cancellation, then whatever the goroutines do
  next and in whatever order: once the worker has made its report, the daemon holds the error and
  takes no assignment and no event; once the worker has also sent the error and the main goroutine
  has received a failure, the loop of \<open>Serve\<close> is over; and without a signal \<open>Serve\<close> returns that
  error, or the one of a failing listener, as its cause.
\<close>

theorem lost_stream_stops_server:
  assumes "daemon_laws s pol pth" "empty_namespace inode (pol w) (pth w)"
    and "server_run s en family before (serve_start inode w) = st0" "sy_Worker st0 = Lost e"
    and "\<not> errors_Is e ContextCanceled" "\<not> errors_Is e ErrServerClosed"
    and "server_run s en family after st0 = st"
  shows "(ReportFatal \<in> set after \<longrightarrow> d_fatal (sy_Daemon st) = Some e \<and>
      (\<forall>a. \<exists>x. Daemon_Put s a (sy_Daemon st) (sy_World st) = (Err x, sy_Daemon st, sy_World st)) \<and>
      (\<forall>ev. observed_type (ev_Type ev) \<longrightarrow>
        Daemon_Observe s ev (sy_Daemon st) (sy_World st) = (Err e, sy_Daemon st, sy_World st))) \<and>
    (subseq [ReportFatal, SendFailure, SelectFailure] after \<longrightarrow> sy_Main st \<noteq> Selecting) \<and>
    (Signal \<notin> set (before @ after) \<and>
      (\<forall>x. AcceptFails x \<in> set (before @ after) \<longrightarrow> \<not> errors_Is x ErrServerClosed \<and> \<not> errors_Is x ContextCanceled) \<longrightarrow>
      (\<forall>r w'. serve_return s shutdown late st = Some (r, w') \<longrightarrow>
        (\<exists>c es. r = Err (Joined (c # es)) \<and> (c = e \<or> AcceptFails c \<in> set (before @ after)))))"
proof (intro conjI impI allI)
  have inv0: "daemon_laws.server_inv pol pth st0"
    using daemon_laws.server_inv_run [OF assms(1) daemon_laws.server_inv_start [OF assms(1,2)]] assms(3) by blast
  then have inv: "daemon_laws.server_inv pol pth st"
    using daemon_laws.server_inv_run [OF assms(1)] assms(7) by blast
  have chan: "channel_ok st0" using channel_ok_run [OF channel_ok_start, of s en family before inode w] assms(3) by simp
  {
    assume "ReportFatal \<in> set after"
    then show f: "d_fatal (sy_Daemon st) = Some e"
      using daemon_laws.reported_fatal [OF assms(1) inv0 assms(4,5)] assms(7) by blast
    note fatal = daemon_laws.run_command_fatal [OF assms(1) inv f]
    show "\<exists>x. Daemon_Put s a (sy_Daemon st) (sy_World st) = (Err x, sy_Daemon st, sy_World st)" for a
      using fatal [of "CPut a"] by (cases "Daemon_Put s a (sy_Daemon st) (sy_World st)") auto
    show "Daemon_Observe s ev (sy_Daemon st) (sy_World st) = (Err e, sy_Daemon st, sy_World st)"
      if "observed_type (ev_Type ev)" for ev
      using fatal [of "CObserve ev"] that by (cases "Daemon_Observe s ev (sy_Daemon st) (sy_World st)") auto
  }
  show "sy_Main st \<noteq> Selecting" if "subseq [ReportFatal, SendFailure, SelectFailure] after"
    using lost_stream_ends_loop [OF _ chan that, of e s en family] assms(4,7) by simp
  fix r w'
  let ?A = "{x. AcceptFails x \<in> set (before @ after)}"
  assume quiet: "Signal \<notin> set (before @ after) \<and>
      (\<forall>x. AcceptFails x \<in> set (before @ after) \<longrightarrow> \<not> errors_Is x ErrServerClosed \<and> \<not> errors_Is x ContextCanceled)"
    and ret: "serve_return s shutdown late st = Some (r, w')"
  have "cause_ok ?A (server_run s en family (before @ after) (serve_start inode w))"
    by (rule cause_ok_run [OF cause_ok_start]) (use quiet in simp_all)
  then have cause: "cause_ok ?A st" using assms(3,7) by simp
  obtain x where "sy_Worker st = Exited x" using ret by (rule serve_return_Some)
  then have "sy_Worker st = Exited e"
    using lost_forward_run [of st0 e s en family after] assms(4,7) by auto
  from unsignalled_result [OF cause ret this] show "\<exists>c es. r = Err (Joined (c # es)) \<and> (c = e \<or> AcceptFails c \<in> set (before @ after))"
    using quiet assms(5,6) by auto
qed

definition ex_truncated :: pm_tick where
  "ex_truncated = \<lparr>tk_ctx = None, tk_poll = Inr 1, tk_recv = Inr \<lparr>dg_Data = [], dg_Flags = 0x20, dg_From = Some 0\<rparr>\<rparr>"

definition ex_lost :: "bpf_world server" where
  "ex_lost = server_run (bpf_env ex_ifs) Little 30 [Poll ex_truncated] (serve_start ex_netns (ex_empty []))"

definition ex_stopping :: "sched_step list" where
  "ex_stopping = [SelectRetry, ReportFatal, HandlerPut (ex_assignment ''ctx1'' 443 1), SendFailure, SelectFailure, ServerStops]"

lemma lost_stream_stops_server_witness:
  "\<exists>st r w' es. server_run (bpf_env ex_ifs) Little 30 ex_stopping ex_lost = st \<and> d_fatal (sy_Daemon st) \<noteq> None \<and> sy_Main st \<noteq> Selecting \<and>
    serve_return (bpf_env ex_ifs) None [] st = Some (r, w') \<and> r = Err (Joined (errors_New ''PM event datagram truncated'' # es))"
proof -
  let ?e = "errors_New ''PM event datagram truncated''" and ?s = "bpf_env ex_ifs"
  let ?st = "server_run ?s Little 30 ex_stopping ex_lost"
  have lost: "sy_Worker ex_lost = Lost ?e" by code_simp
  have no: "\<not> errors_Is ?e ContextCanceled" "\<not> errors_Is ?e ErrServerClosed" by code_simp+
  have empty: "empty_namespace ex_netns (policies (ex_empty [])) (paths (ex_empty []))"
    by (simp add: empty_namespace_def unmapped_def policies_def paths_def ex_empty_def)
  have sched: "ReportFatal \<in> set ex_stopping" "subseq [ReportFatal, SendFailure, SelectFailure] ex_stopping"
    "Signal \<notin> set ([Poll ex_truncated] @ ex_stopping)" "\<forall>x. AcceptFails x \<notin> set ([Poll ex_truncated] @ ex_stopping)"
    by (simp_all add: ex_stopping_def)
  note server = lost_stream_stops_server [OF bpf_env_laws empty ex_lost_def [symmetric] lost no refl, of ex_stopping None "[]"]
  have "serve_return ?s None [] ?st \<noteq> None" by code_simp
  then obtain r w' where ret: "serve_return ?s None [] ?st = Some (r, w')" by auto
  then have "\<exists>c es. r = Err (Joined (c # es)) \<and> c = ?e" using server sched by blast
  then obtain es where r: "r = Err (Joined (?e # es))" by blast
  have "d_fatal (sy_Daemon ?st) \<noteq> None" "sy_Main ?st \<noteq> Selecting" using server sched(1,2) by blast+
  with r ret show ?thesis by blast
qed

section \<open>The goroutines together\<close>

text \<open>
  C40: whatever the order of the goroutines' steps, the worker never panics and no send blocks; once
  the main goroutine has left its loop, the wait for the two others ends, as the worker has at most
  the messages of one datagram to handle; and a schedule that has returned is a run of
  \<open>serve_main\<close>, with the cause that came out of the channel.
\<close>

theorem schedule_refines_serve:
  assumes "daemon_laws s pol pth" "empty_namespace inode (pol w) (pth w)"
    and "server_run s en family sched (serve_start inode w) = st"
  shows "sy_Worker st \<noteq> Crashed \<and> length (sy_Failures st) \<le> 2 \<and>
    (sy_Accepting st \<or> (\<exists>e. sy_Worker st = Reporting e) \<longrightarrow> length (sy_Failures st) < 2) \<and>
    (sy_Main st \<noteq> Selecting \<longrightarrow> (\<exists>n. \<forall>tk. serve_return s shutdown late
      (server_run s en family (replicate n NextMessage @ [Poll tk, ReportFatal, SendFailure, ServerStops]) st) \<noteq> None)) \<and>
    (\<forall>r w'. serve_return s shutdown late st = Some (r, w') \<longrightarrow>
      (\<exists>run. serve_main s run inode w = (r, w') \<and> sr_Shutdown run = shutdown \<and> sr_Late run = late \<and>
        sy_Main st = Leaving (sr_Cause run)))"
proof (intro conjI impI allI)
  have inv: "daemon_laws.server_inv pol pth (serve_start inode w)" by (rule daemon_laws.server_inv_start [OF assms(1,2)])
  have start: "sy_Worker (serve_start inode w) \<noteq> Crashed" by (simp add: serve_start_def)
  have crash: "sy_Worker (server_run s en family more st) \<noteq> Crashed" for more
    using daemon_laws.worker_never_crashes [OF assms(1) inv start, of en family "sched @ more"] assms(3) by simp
  from crash [of "[]"] show "sy_Worker st \<noteq> Crashed" by simp
  have chan: "channel_ok st" using channel_ok_run [OF channel_ok_start, of s en family sched inode w] assms(3) by simp
  then show "length (sy_Failures st) \<le> 2" by (rule channel_ok_room)
  show "length (sy_Failures st) < 2" if "sy_Accepting st \<or> (\<exists>e. sy_Worker st = Reporting e)"
    using that channel_ok_room(2,3) [OF chan] by blast
  show "\<exists>n. \<forall>tk. serve_return s shutdown late
      (server_run s en family (replicate n NextMessage @ [Poll tk, ReportFatal, SendFailure, ServerStops]) st) \<noteq> None"
    if left: "sy_Main st \<noteq> Selecting"
  proof -
    obtain cause where main: "sy_Main st = Leaving cause" using left by (cases "sy_Main st") simp_all
    have "sy_Ctx st \<noteq> None"
      using left_cancelled [of "serve_start inode w" s en family sched] left assms(3) by (simp add: serve_start_def)
    from shutdown_ends [OF main this chan crash] show ?thesis .
  qed
  show "\<exists>run. serve_main s run inode w = (r, w') \<and> sr_Shutdown run = shutdown \<and> sr_Late run = late \<and>
      sy_Main st = Leaving (sr_Cause run)" if "serve_return s shutdown late st = Some (r, w')" for r w'
    using schedule_is_run [of s shutdown late en family sched inode w r w'] that assms(3) by simp
qed

text \<open>The signal arrives while the worker polls.\<close>

lemma schedule_refines_serve_witness:
  "\<exists>n. \<forall>tk. serve_return (bpf_env ex_ifs) None []
     (server_run (bpf_env ex_ifs) Little 30 (replicate n NextMessage @ [Poll tk, ReportFatal, SendFailure, ServerStops])
       (server_run (bpf_env ex_ifs) Little 30 [Signal, SelectDone] (serve_start ex_netns (ex_empty [])))) \<noteq> None"
proof -
  have empty: "empty_namespace ex_netns (policies (ex_empty [])) (paths (ex_empty []))"
    by (simp add: empty_namespace_def unmapped_def policies_def paths_def ex_empty_def)
  have "sy_Main (server_run (bpf_env ex_ifs) Little 30 [Signal, SelectDone] (serve_start ex_netns (ex_empty []))) \<noteq> Selecting"
    by code_simp
  with schedule_refines_serve [OF bpf_env_laws empty refl, where en = Little and family = 30 and
      sched = "[Signal, SelectDone]" and shutdown = None and late = "[]"] show ?thesis by blast
qed

section \<open>Handlers that outlive the shutdown\<close>

text \<open>
  An example: when \<open>Shutdown\<close> times out, \<open>Close\<close> does not wait for running handlers, and a \<open>Put\<close> that
  gets the mutex after \<open>Cleanup\<close> commits a policy again; the next start refuses the entries.
\<close>

lemma late_put_survives_cleanup:
  "(let (r, w') = serve_main (bpf_env ex_ifs)
      \<lparr>sr_Running = [Operation (CObserve (ex_event 2 7 0)), Operation (CObserve (ex_event 10 7 1))], sr_Cause = None, sr_Draining = [],
       sr_Shutdown = Some (Sentinel ''context deadline exceeded''), sr_Late = [Operation (CPut (ex_assignment ''ctx1'' 443 1))]\<rparr>
      ex_netns (ex_empty [])
    in policies w' ex_conn = Some (assigned_policy (ex_assignment ''ctx1'' 443 1)) \<and>
       fst (RequireEmptyNamespace bpf_handles ex_netns w') = Some (errors_New ''selected maps contain existing policy''))"
  by code_simp

end
