(* ===== verification/CLI.thy ===== *)
theory CLI
  imports ServeLaws
begin

text \<open>
  The command line of the agent: \<open>Run\<close>, \<open>printPaths\<close> and \<open>runLive\<close> of \<open>dualsteer-agent/cli.go\<close>
  and \<open>main\<close>. A line of output is a value with what the format string prints; the writer, the
  file system, the YAML decoder and the resolver of interfaces are functions of a record.
\<close>

section \<open>Arguments\<close>

record cli_options =
  co_Config :: string
  co_Command :: string
  co_DryRun :: bool
  co_PolicyMap :: string
  co_PathMap :: string

definition default_options :: cli_options where
  "default_options =
     \<lparr>co_Config = ''config.yaml'', co_Command = [], co_DryRun = False, co_PolicyMap = [], co_PathMap = []\<rparr>"

definition cli_commands :: "string list" where
  "cli_commands = [''validate'', ''status'', ''apply'', ''delete'']"

definition TrimPrefix :: "string \<Rightarrow> string \<Rightarrow> string" where
  "TrimPrefix s p = (case CutPrefix s p of Some rest \<Rightarrow> rest | None \<Rightarrow> s)"

text \<open>The loop of \<open>Run\<close> over the arguments; \<open>None\<close> is the request for the usage text.\<close>

fun parse_args :: "string list \<Rightarrow> cli_options \<Rightarrow> go_error + cli_options option" where
  "parse_args [] opts = Inr (Some opts)"
| "parse_args (arg # args) opts =
     (if arg = ''--help'' \<or> arg = ''-h'' then Inr None
      else if arg = ''--policy-map'' \<or> arg = ''--path-map'' then
        (case args of
           [] \<Rightarrow> Inl (errors_New ''requires a map selector'')
         | v # rest \<Rightarrow>
             if v = [] then Inl (errors_New ''requires a map selector'')
             else parse_args rest
               (if arg = ''--policy-map'' then opts\<lparr>co_PolicyMap := v\<rparr> else opts\<lparr>co_PathMap := v\<rparr>))
      else if arg = ''--config'' then
        (case args of
           [] \<Rightarrow> Inl (errors_New ''--config requires a path'')
         | v # rest \<Rightarrow>
             if v = [] then Inl (errors_New ''--config requires a path'') else parse_args rest (opts\<lparr>co_Config := v\<rparr>))
      else if HasPrefix arg ''--config='' then
        (let v = TrimPrefix arg ''--config='' in
         if v = [] then Inl (errors_New ''--config requires a path'') else parse_args args (opts\<lparr>co_Config := v\<rparr>))
      else if arg = ''--dry-run'' then parse_args args (opts\<lparr>co_DryRun := True\<rparr>)
      else if arg \<in> set cli_commands then
        (if co_Command opts \<noteq> [] then Inl (errors_New ''exactly one command is required'')
         else parse_args args (opts\<lparr>co_Command := arg\<rparr>))
      else Inl (errors_New ''unknown argument''))"

section \<open>Output\<close>

datatype cli_line =
    UsageLine
  | ValidLine
  | DryRunLines plan map_policy
  | PlannedConnectionLine conn_key
  | PathLine u32 u32 u32 u32 bool
  | AppliedLine conn_key u32 string
  | DeletedLine conn_key
  | AbsentLine conn_key nat
  | PolicyLine conn_key map_policy
  | CaveatLine

record ('m, 'd, 'w) cli_env =
  cl_Serve :: "('m, 'w) serve_env"
  cl_Open :: "string \<Rightarrow> 'w \<Rightarrow> (go_error + 'd) \<times> 'w"
  cl_Yaml :: "'d \<Rightarrow> (go_error + config) \<times> 'd"
  cl_YamlEnd :: "'d \<Rightarrow> go_error option"
  cl_CloseFile :: "'d \<Rightarrow> 'w \<Rightarrow> go_error option \<times> 'w"
  cl_Resolve :: "string \<Rightarrow> go_error + int"
  cl_Print :: "cli_line \<Rightarrow> 'w \<Rightarrow> go_error option \<times> 'w"
  cl_PrintError :: "go_error \<Rightarrow> 'w \<Rightarrow> go_error option \<times> 'w"

definition print_line :: "('m, 'd, 'w) cli_env \<Rightarrow> cli_line \<Rightarrow> 'w \<Rightarrow> unit outcome \<times> 'w" where
  "print_line E l w = (let (e, w1) = cl_Print E l w in (error_outcome e, w1))"

fun print_lines :: "('m, 'd, 'w) cli_env \<Rightarrow> cli_line list \<Rightarrow> 'w \<Rightarrow> unit outcome \<times> 'w" where
  "print_lines E [] w = (Ok (), w)"
| "print_lines E (l # ls) w =
     (case cl_Print E l w of
        (Some e, w1) \<Rightarrow> (Err e, w1)
      | (None, w1) \<Rightarrow> print_lines E ls w1)"

definition key_ids :: "path_key \<Rightarrow> u32 \<times> u32" where
  "key_ids k = (pk_LocalID k, pk_RemoteID k)"

definition path_line :: "(path_key, map_path) gomap \<Rightarrow> u32 \<Rightarrow> bool \<Rightarrow> path_key \<Rightarrow> cli_line" where
  "path_line ps generation exists k =
     (let v = the (map_of ps k) in
      PathLine (pk_LocalID k) (pk_RemoteID k) (path_Generation v) (path_Access v)
        (exists \<and> path_Generation v = generation))"

definition path_lines :: "nat list \<Rightarrow> (path_key, map_path) gomap \<Rightarrow> u32 \<Rightarrow> bool \<Rightarrow> cli_line list" where
  "path_lines ns ps generation exists =
     map (path_line ps generation exists) (sort_key key_ids (map fst (go_range ns ps)))"

definition printPaths :: "('m, 'd, 'w) cli_env \<Rightarrow> (path_key, map_path) gomap \<Rightarrow> u32 \<Rightarrow> bool \<Rightarrow> 'w \<Rightarrow> unit outcome \<times> 'w" where
  "printPaths E ps generation exists w =
     (let (ns, w1) = sv_Order (cl_Serve E) w in print_lines E (path_lines ns ps generation exists) w1)"

text \<open>The next step of a function that returns at the first error.\<close>

definition then_do :: "unit outcome \<times> 'w \<Rightarrow> ('w \<Rightarrow> unit outcome \<times> 'w) \<Rightarrow> unit outcome \<times> 'w" where
  "then_do rw next = (case rw of (Ok _, w) \<Rightarrow> next w | (Err e, w) \<Rightarrow> (Err e, w) | (Panic, w) \<Rightarrow> (Panic, w))"

section \<open>Live commands\<close>

datatype live_action = Apply plan | Delete | Status

definition live_key :: "('m, 'd, 'w) cli_env \<Rightarrow> policy \<Rightarrow> 'w \<Rightarrow> (go_error + conn_key) \<times> 'w" where
  "live_key E p w =
     (let named = (case Connection p of None \<Rightarrow> False | Some c \<Rightarrow> Token c \<noteq> None);
          (st, w1) = if named then sv_Stat (cl_Serve E) w else (Inr None, w)
      in (ConnectionKey (CurrentNetNSInode st) p, w1))"

definition live_action :: "('m, 'd, 'w) cli_env \<Rightarrow> string \<Rightarrow> config \<Rightarrow> conn_key \<Rightarrow> live_action outcome" where
  "live_action E command cfg key =
     (if command = ''apply'' then
        outcome_bind (Prepare cfg (cl_Resolve E)) (\<lambda>plan.
          case DesiredPaths (plan_Policy plan) key of Inl e \<Rightarrow> Err e | Inr _ \<Rightarrow> Ok (Apply plan))
      else if command = ''delete'' then Ok Delete
      else Ok Status)"

definition live_status :: "('m, 'd, 'w) cli_env \<Rightarrow> 'm \<times> 'm \<Rightarrow> conn_key \<Rightarrow> 'w \<Rightarrow> unit outcome \<times> 'w" where
  "live_status E ms key w =
     (let s = serve_daemon_env (cl_Serve E) ms; (p, w1) = LookupPolicy s key w in
      case (case p of Inl e \<Rightarrow> if errors_Is e ErrNotFound then None else Some e | Inr _ \<Rightarrow> None) of
        Some e \<Rightarrow> (Err e, w1)
      | None \<Rightarrow>
          (case Paths s key w1 of
             ((ps, Some e), w2) \<Rightarrow> (Err e, w2)
           | ((ps, None), w2) \<Rightarrow>
               then_do (then_do
                 (print_line E (case p of Inl _ \<Rightarrow> AbsentLine key (length ps) | Inr mp \<Rightarrow> PolicyLine key mp) w2)
                 (printPaths E ps (case p of Inl _ \<Rightarrow> 0 | Inr mp \<Rightarrow> mp_Generation mp) (case p of Inl _ \<Rightarrow> False | Inr _ \<Rightarrow> True)))
                 (print_line E CaveatLine)))"

definition live_command :: "('m, 'd, 'w) cli_env \<Rightarrow> 'm \<times> 'm \<Rightarrow> live_action \<Rightarrow> conn_key \<Rightarrow> 'w \<Rightarrow> unit outcome \<times> 'w" where
  "live_command E ms action key w =
     (case action of
        Apply plan \<Rightarrow>
          then_do (ApplyLive (serve_daemon_env (cl_Serve E) ms) plan key w)
            (print_line E (AppliedLine key (Generation (plan_Policy plan)) (Mode (plan_Policy plan))))
      | Delete \<Rightarrow>
          then_do (let (e, w1) = DeleteLive (serve_daemon_env (cl_Serve E) ms) key w in (error_outcome e, w1))
            (print_line E (DeletedLine key))
      | Status \<Rightarrow> live_status E ms key w)"

definition live_locked :: "('m, 'd, 'w) cli_env \<Rightarrow> 'm \<times> 'm \<Rightarrow> live_action \<Rightarrow> conn_key \<Rightarrow> 'w \<Rightarrow> unit outcome \<times> 'w" where
  "live_locked E ms action key w =
     (case LockWriters (sv_Lock (cl_Serve E)) w of
        (Inl e, w1) \<Rightarrow> (Err e, w1)
      | (Inr fd, w1) \<Rightarrow>
          let (r, w2) = live_command E ms action key w1 in (r, snd (LockClose (sv_Lock (cl_Serve E)) fd w2)))"

definition runLive :: "('m, 'd, 'w) cli_env \<Rightarrow> string \<Rightarrow> config \<Rightarrow> string \<Rightarrow> string \<Rightarrow> 'w \<Rightarrow> unit outcome \<times> 'w" where
  "runLive E command cfg policyMap pathMap w =
     (if policyMap = [] \<or> pathMap = []
      then (Err (errors_New ''live apply/status/delete require --policy-map and --path-map''), w)
      else case live_key E (DualSteer cfg) w of
        (Inl e, w1) \<Rightarrow> (Err e, w1)
      | (Inr key, w1) \<Rightarrow>
          (case live_action E command cfg key of
             Panic \<Rightarrow> (Panic, w1)
           | Err e \<Rightarrow> (Err e, w1)
           | Ok action \<Rightarrow>
               (case OpenKernelMaps (sv_Library (cl_Serve E)) policyMap pathMap w1 of
                  (Inl e, w2) \<Rightarrow> (Err e, w2)
                | (Inr ms, w2) \<Rightarrow>
                    let (r, w3) = live_locked E ms action key w2
                    in (r, snd (KernelMaps_Close (sv_Library (cl_Serve E)) ms w3)))))"

section \<open>Run\<close>

definition dry_run :: "('m, 'd, 'w) cli_env \<Rightarrow> config \<Rightarrow> 'w \<Rightarrow> unit outcome \<times> 'w" where
  "dry_run E cfg w =
     (case Prepare cfg (cl_Resolve E) of
        Panic \<Rightarrow> (Panic, w)
      | Err e \<Rightarrow> (Err e, w)
      | Ok plan \<Rightarrow>
          (case MapPolicy plan of
             Panic \<Rightarrow> (Panic, w)
           | Err e \<Rightarrow> (Err e, w)
           | Ok m \<Rightarrow>
               let p = plan_Policy plan in
               then_do (print_line E (DryRunLines plan m) w) (\<lambda>w1.
                 if Connection p = None then (Ok (), w1)
                 else case live_key E p w1 of
                   (Inl e, w2) \<Rightarrow> (Err e, w2)
                 | (Inr key, w2) \<Rightarrow>
                     (case DesiredPaths p key of
                        Inl e \<Rightarrow> (Err e, w2)
                      | Inr desired \<Rightarrow>
                          then_do (print_line E (PlannedConnectionLine key) w2)
                            (printPaths E desired (Generation p) True)))))"

definition run_config :: "('m, 'd, 'w) cli_env \<Rightarrow> cli_options \<Rightarrow> 'w \<Rightarrow> unit outcome \<times> 'w" where
  "run_config E opts w =
     (case cl_Open E (co_Config opts) w of
        (Inl e, w1) \<Rightarrow> (Err (Errorf ''open config'' [e]), w1)
      | (Inr file, w1) \<Rightarrow>
          let (r, w2) =
            (case Decode (cl_Yaml E) (cl_YamlEnd E) file of
               Panic \<Rightarrow> (Panic, w1)
             | Err e \<Rightarrow> (Err e, w1)
             | Ok cfg \<Rightarrow>
                 if co_Command opts = ''validate'' then print_line E ValidLine w1
                 else if \<not> co_DryRun opts
                 then runLive E (co_Command opts) cfg (co_PolicyMap opts) (co_PathMap opts) w1
                 else dry_run E cfg w1)
          in (r, snd (cl_CloseFile E file w2)))"

definition Run :: "('m, 'd, 'w) cli_env \<Rightarrow> serve_run \<Rightarrow> string list \<Rightarrow> 'w \<Rightarrow> unit outcome \<times> 'w" where
  "Run E run args w =
     (if args \<noteq> [] \<and> hd args = ''serve'' then runServe (cl_Serve E) run (tl args) w
      else case parse_args args default_options of
        Inl e \<Rightarrow> (Err e, w)
      | Inr None \<Rightarrow> print_line E UsageLine w
      | Inr (Some opts) \<Rightarrow>
          let opts = (if co_Command opts = [] then opts\<lparr>co_Command := ''validate''\<rparr> else opts) in
          if co_DryRun opts \<and> co_Command opts \<noteq> ''apply''
          then (Err (errors_New ''--dry-run is only valid with apply''), w)
          else run_config E opts w)"

text \<open>\<open>main\<close>: the exit code of the process; a panic of the Go run-time is 2.\<close>

definition main :: "('m, 'd, 'w) cli_env \<Rightarrow> serve_run \<Rightarrow> string list \<Rightarrow> 'w \<Rightarrow> nat \<times> 'w" where
  "main E run args w =
     (case Run E run args w of
        (Ok _, w1) \<Rightarrow> (0, w1)
      | (Err e, w1) \<Rightarrow> (1, snd (cl_PrintError E e w1))
      | (Panic, w1) \<Rightarrow> (2, w1))"

end
