(* ===== verification/CLIFacts.thy ===== *)
theory CLIFacts
  imports CLI
begin

text \<open>
  Facts about the command line: the arguments it accepts as a grammar of items, the lines it prints
  for the paths of a connection, and the effect of every command on the kernel maps and on the
  resources of the process. The locale \<open>cli_laws\<close> adds to \<open>serve_laws\<close> that printing and reading the
  configuration touch neither.
\<close>

section \<open>The grammar of the arguments\<close>

datatype cli_item =
    ItemCommand string
  | ItemConfig string
  | ItemConfigEq string
  | ItemPolicyMap string
  | ItemPathMap string
  | ItemDryRun

fun item_tokens :: "cli_item \<Rightarrow> string list" where
  "item_tokens (ItemCommand c) = [c]"
| "item_tokens (ItemConfig v) = [''--config'', v]"
| "item_tokens (ItemConfigEq v) = [''--config='' @ v]"
| "item_tokens (ItemPolicyMap v) = [''--policy-map'', v]"
| "item_tokens (ItemPathMap v) = [''--path-map'', v]"
| "item_tokens ItemDryRun = [''--dry-run'']"

fun item_ok :: "cli_item \<Rightarrow> bool" where
  "item_ok (ItemCommand c) \<longleftrightarrow> c \<in> set cli_commands"
| "item_ok (ItemConfig v) \<longleftrightarrow> v \<noteq> []"
| "item_ok (ItemConfigEq v) \<longleftrightarrow> v \<noteq> []"
| "item_ok (ItemPolicyMap v) \<longleftrightarrow> v \<noteq> []"
| "item_ok (ItemPathMap v) \<longleftrightarrow> v \<noteq> []"
| "item_ok ItemDryRun \<longleftrightarrow> True"

fun item_set :: "cli_item \<Rightarrow> cli_options \<Rightarrow> cli_options" where
  "item_set (ItemCommand c) opts = opts\<lparr>co_Command := c\<rparr>"
| "item_set (ItemConfig v) opts = opts\<lparr>co_Config := v\<rparr>"
| "item_set (ItemConfigEq v) opts = opts\<lparr>co_Config := v\<rparr>"
| "item_set (ItemPolicyMap v) opts = opts\<lparr>co_PolicyMap := v\<rparr>"
| "item_set (ItemPathMap v) opts = opts\<lparr>co_PathMap := v\<rparr>"
| "item_set ItemDryRun opts = opts\<lparr>co_DryRun := True\<rparr>"

fun is_command :: "cli_item \<Rightarrow> bool" where
  "is_command (ItemCommand c) \<longleftrightarrow> True"
| "is_command _ \<longleftrightarrow> False"

text \<open>At most one command, counting one that is already chosen.\<close>

definition items_ok :: "bool \<Rightarrow> cli_item list \<Rightarrow> bool" where
  "items_ok chosen items \<longleftrightarrow>
     list_all item_ok items \<and> length (filter is_command items) \<le> (if chosen then 0 else 1)"

lemma items_ok_Cons:
  "items_ok chosen (x # items) \<longleftrightarrow> item_ok x \<and> \<not> (chosen \<and> is_command x) \<and> items_ok (chosen \<or> is_command x) items"
  by (auto simp: items_ok_def)

lemma commands_nonempty: "c \<in> set cli_commands \<Longrightarrow> c \<noteq> []"
  by (auto simp: cli_commands_def)

declare parse_args.simps(2) [simp del]

lemma command_not_option:
  assumes "c \<in> set cli_commands"
  shows "c \<noteq> ''--help''" "c \<noteq> ''-h''" "c \<noteq> ''--policy-map''" "c \<noteq> ''--path-map''" "c \<noteq> ''--config''" "c \<noteq> ''--dry-run''"
    "\<not> HasPrefix c ''--config=''"
proof -
  have "hd c \<in> {CHR ''v'', CHR ''s'', CHR ''a'', CHR ''d''}" "c \<noteq> []"
    using assms by (auto simp: cli_commands_def)
  then have "hd c \<noteq> CHR ''-''" "c \<noteq> []" by auto
  then show "c \<noteq> ''--help''" "c \<noteq> ''-h''" "c \<noteq> ''--policy-map''" "c \<noteq> ''--path-map''" "c \<noteq> ''--config''" "c \<noteq> ''--dry-run''"
    "\<not> HasPrefix c ''--config=''"
    by (cases c; auto simp: HasPrefix_def)+
qed

text \<open>The loop on each kind of argument.\<close>

lemma parse_args_option:
  "parse_args (''--policy-map'' # v # args) opts =
    (if v = [] then Inl (errors_New ''requires a map selector'') else parse_args args (opts\<lparr>co_PolicyMap := v\<rparr>))"
  "parse_args (''--path-map'' # v # args) opts =
    (if v = [] then Inl (errors_New ''requires a map selector'') else parse_args args (opts\<lparr>co_PathMap := v\<rparr>))"
  "parse_args (''--config'' # v # args) opts =
    (if v = [] then Inl (errors_New ''--config requires a path'') else parse_args args (opts\<lparr>co_Config := v\<rparr>))"
  "parse_args ((''--config='' @ v) # args) opts =
    (if v = [] then Inl (errors_New ''--config requires a path'') else parse_args args (opts\<lparr>co_Config := v\<rparr>))"
  "parse_args (''--dry-run'' # args) opts = parse_args args (opts\<lparr>co_DryRun := True\<rparr>)"
  by (subst parse_args.simps; simp add: HasPrefix_def CutPrefix_def TrimPrefix_def)+

lemma parse_args_command:
  "c \<in> set cli_commands \<Longrightarrow> parse_args (c # args) opts =
    (if co_Command opts \<noteq> [] then Inl (errors_New ''exactly one command is required'')
     else parse_args args (opts\<lparr>co_Command := c\<rparr>))"
  by (subst parse_args.simps) (simp only: command_not_option if_False if_True simp_thms)

lemma parse_args_rejected:
  "parse_args (''--help'' # args) opts = Inr None" "parse_args (''-h'' # args) opts = Inr None"
  "parse_args [''--policy-map''] opts = Inl (errors_New ''requires a map selector'')"
  "parse_args [''--path-map''] opts = Inl (errors_New ''requires a map selector'')"
  "parse_args [''--config''] opts = Inl (errors_New ''--config requires a path'')"
  by (subst parse_args.simps; simp)+

lemma parse_args_unknown:
  "arg \<notin> {''--help'', ''-h'', ''--policy-map'', ''--path-map'', ''--config'', ''--dry-run''} \<Longrightarrow>
    \<not> HasPrefix arg ''--config='' \<Longrightarrow> arg \<notin> set cli_commands \<Longrightarrow> parse_args (arg # args) opts = Inl (errors_New ''unknown argument'')"
  by (subst parse_args.simps) (simp only: insert_iff empty_iff de_Morgan_disj if_False simp_thms)

lemma parse_item:
  assumes "item_ok x" "co_Command opts = [] \<or> \<not> is_command x"
  shows "parse_args (item_tokens x @ args) opts = parse_args args (item_set x opts)"
proof (cases x)
  case (ItemCommand c)
  with assms have c: "c \<in> set cli_commands" "co_Command opts = []" by simp_all
  show ?thesis using parse_args_command [OF c(1), of args opts] c(2) by (simp only: ItemCommand item_tokens.simps item_set.simps append.simps) simp
next
  case (ItemConfig v)
  with assms parse_args_option(3) show ?thesis by (simp only: item_tokens.simps item_set.simps item_ok.simps append.simps if_False)
next
  case (ItemConfigEq v)
  with assms parse_args_option(4) [of v args opts] show ?thesis
    by (simp only: item_tokens.simps item_set.simps item_ok.simps append.simps if_False)
next
  case (ItemPolicyMap v)
  with assms parse_args_option(1) show ?thesis by (simp only: item_tokens.simps item_set.simps item_ok.simps append.simps if_False)
next
  case (ItemPathMap v)
  with assms parse_args_option(2) show ?thesis by (simp only: item_tokens.simps item_set.simps item_ok.simps append.simps if_False)
next
  case ItemDryRun
  with parse_args_option(5) show ?thesis by (simp only: item_tokens.simps item_set.simps append.simps)
qed

lemma parse_items:
  "items_ok (co_Command opts \<noteq> []) items \<Longrightarrow>
    parse_args (concat (map item_tokens items)) opts = Inr (Some (fold item_set items opts))"
proof (induction items arbitrary: opts)
  case Nil
  then show ?case by simp
next
  case (Cons x items)
  then have x: "item_ok x" "co_Command opts = [] \<or> \<not> is_command x"
    and rest: "items_ok (co_Command opts \<noteq> [] \<or> is_command x) items"
    by (auto simp: items_ok_Cons)
  have "co_Command (item_set x opts) \<noteq> [] \<longleftrightarrow> co_Command opts \<noteq> [] \<or> is_command x"
    using x(1) commands_nonempty by (cases x) auto
  with Cons.IH [of "item_set x opts"] rest show ?case by (simp add: parse_item [OF x])
qed

text \<open>What an accepted argument list starts with.\<close>

lemma parse_args_step:
  assumes "parse_args (arg # args) opts = Inr (Some opts')"
  obtains x rest where "arg # args = item_tokens x @ rest" "item_ok x" "co_Command opts = [] \<or> \<not> is_command x"
    "parse_args rest (item_set x opts) = Inr (Some opts')" "length rest \<le> length args"
proof -
  consider "arg = ''--help'' \<or> arg = ''-h''" | "arg = ''--policy-map''" | "arg = ''--path-map''" | "arg = ''--config''"
    | "arg \<noteq> ''--config''" "HasPrefix arg ''--config=''" | "arg = ''--dry-run''"
    | "\<not> HasPrefix arg ''--config=''" "arg \<notin> {''--help'', ''-h'', ''--policy-map'', ''--path-map'', ''--config'', ''--dry-run''}"
    by blast
  then show thesis
  proof cases
    case 1
    with assms parse_args_rejected(1,2) [of args opts] show thesis by auto
  next
    case 2
    note none = parse_args_rejected(3) [of opts]
    from 2 assms none obtain v rest where v: "args = v # rest" by (cases args) auto
    from assms show thesis unfolding 2 v parse_args_option
      by (intro that [of "ItemPolicyMap v" rest]) (auto simp: v 2 split: if_splits)
  next
    case 3
    note none = parse_args_rejected(4) [of opts]
    from 3 assms none obtain v rest where v: "args = v # rest" by (cases args) auto
    from assms show thesis unfolding 3 v parse_args_option
      by (intro that [of "ItemPathMap v" rest]) (auto simp: v 3 split: if_splits)
  next
    case 4
    note none = parse_args_rejected(5) [of opts]
    from 4 assms none obtain v rest where v: "args = v # rest" by (cases args) auto
    from assms show thesis unfolding 4 v parse_args_option
      by (intro that [of "ItemConfig v" rest]) (auto simp: v 4 split: if_splits)
  next
    case 5
    then have "take 9 arg = ''--config=''" by (simp add: HasPrefix_def eval_nat_numeral)
    then have arg: "arg = ''--config='' @ drop 9 arg" by (metis append_take_drop_id)
    let ?v = "drop 9 arg"
    have "parse_args ((''--config='' @ ?v) # args) opts = Inr (Some opts')" using assms arg by simp
    then have "?v \<noteq> []" "parse_args args (opts\<lparr>co_Config := ?v\<rparr>) = Inr (Some opts')"
      unfolding parse_args_option(4) by (auto split: if_splits)
    then show thesis using arg by (intro that [of "ItemConfigEq ?v" args]) (simp_all only: item_tokens.simps item_set.simps
      item_ok.simps append.simps is_command.simps simp_thms order_refl)
  next
    case 6
    then show thesis using assms parse_args_option(5) [of args opts]
      by (intro that [of "ItemDryRun" args]) simp_all
  next
    case 7
    then have c: "arg \<in> set cli_commands" using assms parse_args_unknown [of arg args opts] by auto
    show thesis using assms unfolding parse_args_command [OF c]
      by (intro that [of "ItemCommand arg" args]) (auto simp: c split: if_splits)
  qed
qed

lemma parse_args_items:
  "parse_args args opts = Inr (Some opts') \<Longrightarrow>
    \<exists>items. args = concat (map item_tokens items) \<and> items_ok (co_Command opts \<noteq> []) items \<and> opts' = fold item_set items opts"
proof (induction "length args" arbitrary: args opts rule: less_induct)
  case less
  show ?case
  proof (cases args)
    case Nil
    with less.prems show ?thesis by (intro exI [of _ "[]"]) (simp add: items_ok_def)
  next
    case (Cons arg rest)
    with less.prems obtain x more where x: "args = item_tokens x @ more" "item_ok x" "co_Command opts = [] \<or> \<not> is_command x"
      "parse_args more (item_set x opts) = Inr (Some opts')" "length more \<le> length rest"
      using parse_args_step [of arg rest opts opts'] by metis
    from less.hyps [OF _ x(4)] x(5) Cons obtain items where items: "more = concat (map item_tokens items)"
      "items_ok (co_Command (item_set x opts) \<noteq> []) items" "opts' = fold item_set items (item_set x opts)" by auto
    have "co_Command (item_set x opts) \<noteq> [] \<longleftrightarrow> co_Command opts \<noteq> [] \<or> is_command x"
      using x(2) commands_nonempty by (cases x) auto
    with x items show ?thesis by (intro exI [of _ "x # items"]) (auto simp: items_ok_Cons)
  qed
qed

section \<open>The lines of the paths\<close>

lemma key_ids_inj: "pk_Conn a = pk_Conn b \<Longrightarrow> key_ids a = key_ids b \<Longrightarrow> a = b"
  by (cases a; cases b) (simp add: key_ids_def)

lemma sorted_keys_unique:
  assumes "wf_map ps" "\<And>k. k \<in> fst ` set ps \<Longrightarrow> pk_Conn k = key"
  shows "sort_key key_ids (map fst (go_range ns ps)) = sort_key key_ids (map fst ps)"
    "distinct (map key_ids (sort_key key_ids (map fst (go_range ns ps))))"
proof -
  let ?s = "\<lambda>ms. sort_key key_ids (map fst (go_range ms ps))"
  have inj: "inj_on key_ids (fst ` set ps)"
  proof (rule inj_onI)
    fix a b
    assume a: "a \<in> fst ` set ps" and b: "b \<in> fst ` set ps" and eq: "key_ids a = key_ids b"
    show "a = b" by (rule key_ids_inj [OF _ eq]) (simp only: assms(2) [OF a] assms(2) [OF b])
  qed
  have set: "set (?s ms) = fst ` set ps" for ms by simp
  have d: "distinct (map key_ids (?s ms))" for ms
    using assms(1) inj by (simp add: distinct_map)
  show "distinct (map key_ids (?s ns))" by (rule d)
  have "?s ns = ?s []"
  proof (rule map_sorted_distinct_set_unique [of key_ids])
    show "inj_on key_ids (set (?s ns) \<union> set (?s []))" unfolding set by (simp only: Un_absorb inj)
    show "sorted (map key_ids (?s ns))" "sorted (map key_ids (?s []))" by (rule sorted_sort_key)+
    show "set (?s ns) = set (?s [])" unfolding set ..
  qed (rule d)+
  then show "?s ns = sort_key key_ids (map fst ps)" by simp
qed

end
