(* ===== verification/CLIEffects.thy ===== *)
theory CLIEffects
  imports CLIFacts
begin

text \<open>
  The effect of the commands on the kernel maps and on the resources of the process. The locale
  \<open>cli_laws\<close> adds to \<open>serve_laws\<close> that printing, reading the configuration and the order of a range
  touch neither; \<open>action_effect\<close> says what each live command may do to the maps.
\<close>

section \<open>What a live command may do\<close>

definition action_effect :: "live_action \<Rightarrow> conn_key \<Rightarrow> unit outcome \<Rightarrow>
    (conn_key \<Rightarrow> map_policy option) \<Rightarrow> (path_key \<Rightarrow> map_path option) \<Rightarrow>
    (conn_key \<Rightarrow> map_policy option) \<Rightarrow> (path_key \<Rightarrow> map_path option) \<Rightarrow> bool" where
  "action_effect action key r P T P' T' \<longleftrightarrow>
     (case action of
        Apply plan \<Rightarrow> touches key P T P' T' \<and>
          (P' key = P key \<or> (\<exists>mp. MapPolicy plan = Ok mp \<and> P' key = Some mp \<and>
             (\<forall>q v. desired_path (plan_Policy plan) key q = Some v \<longrightarrow> T' q = Some v))) \<and>
          (r = Ok () \<longrightarrow> (\<exists>mp. MapPolicy plan = Ok mp \<and> P' = P(key \<mapsto> mp) \<and>
             (\<forall>q. T' q = (if pk_Conn q = key then desired_path (plan_Policy plan) key q else T q)) \<and>
             (\<forall>old. P key = Some old \<longrightarrow> mp_Generation old < mp_Generation mp)))
      | Delete \<Rightarrow> touches key P T P' T' \<and> (P' key \<noteq> None \<longrightarrow> T' = T) \<and>
          (r = Ok () \<longrightarrow> P' key = None \<and> (\<forall>q. pk_Conn q = key \<longrightarrow> T' q = None))
      | Status \<Rightarrow> P' = P \<and> T' = T)"

lemma action_effect_error:
  "action_effect action key (Ok ()) P T P' T' \<Longrightarrow> action_effect action key r P T P' T'"
  by (cases action) (simp_all add: action_effect_def)

lemma action_effect_none: "r \<noteq> Ok () \<Longrightarrow> action_effect action key r P T P T"
  by (cases action) (simp_all add: action_effect_def)

context map_store_laws
begin

lemma ApplyLive_action:
  assumes "ApplyLive s p key w = (r, w')"
  shows "r \<noteq> Panic \<and> action_effect (Apply p) key r (pol w) (pth w) (pol w') (pth w')"
  using assms
proof (cases rule: ApplyLive_phases [consumes 1])
  case (rejected e)
  then show ?thesis by (simp add: action_effect_none)
next
  case (rolled_back c fs)
  then show ?thesis by (simp add: action_effect_def touches_def)
next
  case (committed desired mp fs)
  have "res \<noteq> Panic" if "res = cleanup_error fs" for res using that by (simp add: cleanup_error_def split: option.splits)
  then have np: "r \<noteq> Panic" using committed(6) by simp
  have "fs = []" if "r = Ok ()" using that committed(6) cleanup_error_Ok by metis
  then show ?thesis
    using np committed(5,7-) DesiredPaths_spec(2) [OF committed(4)] MapPolicy_Generation [OF committed(5)]
    by (auto simp: action_effect_def touches_def)
qed

lemma DeleteLive_action:
  assumes "DeleteLive s key w = (e, w')"
  shows "action_effect Delete key (error_outcome e) (pol w) (pth w) (pol w') (pth w')"
  using DeleteLive_spec [OF assms] by (simp add: action_effect_def touches_def)

end

lemma then_do_cases:
  assumes "then_do rw next = (r, w')"
  obtains (stop) "rw = (r, w')" "r \<noteq> Ok ()" | (go) w1 where "rw = (Ok (), w1)" "next w1 = (r, w')"
  using assms by (cases rw; cases "fst rw") (auto simp: then_do_def)

section \<open>The commands\<close>

locale cli_laws = serve_laws "cl_Serve E" pr pol pth psel qsel
  for E :: "('m, 'd, 'w) cli_env"
    and pr :: "'w \<Rightarrow> 'm process"
    and pol :: "'w \<Rightarrow> conn_key \<Rightarrow> map_policy option"
    and pth :: "'w \<Rightarrow> path_key \<Rightarrow> map_path option"
    and psel qsel :: string +
  assumes Print_frame: "cl_Print E l w = (e, w') \<Longrightarrow> pol w' = pol w \<and> pth w' = pth w \<and> pr w' = pr w"
    and PrintError_frame: "cl_PrintError E x w = (e, w') \<Longrightarrow> pol w' = pol w \<and> pth w' = pth w \<and> pr w' = pr w"
    and Open_frame: "cl_Open E f w = (file, w') \<Longrightarrow> pol w' = pol w \<and> pth w' = pth w \<and> pr w' = pr w"
    and CloseFile_frame: "cl_CloseFile E d w = (e, w') \<Longrightarrow> pol w' = pol w \<and> pth w' = pth w \<and> pr w' = pr w"
    and Order_frame: "sv_Order (cl_Serve E) w = (ns, w') \<Longrightarrow> pol w' = pol w \<and> pth w' = pth w \<and> pr w' = pr w"
begin

definition quiet :: "'w \<Rightarrow> unit outcome \<times> 'w \<Rightarrow> bool" where
  "quiet w rw \<longleftrightarrow> fst rw \<noteq> Panic \<and> pol (snd rw) = pol w \<and> pth (snd rw) = pth w \<and> pr (snd rw) = pr w"

lemma quiet_trans:
  "quiet w (r, w1) \<Longrightarrow> quiet w1 rw \<Longrightarrow> quiet w rw"
  by (simp add: quiet_def)

lemma quiet_then_do: "quiet w rw \<Longrightarrow> (\<And>w1. quiet w (Ok (), w1) \<Longrightarrow> quiet w1 (next w1)) \<Longrightarrow> quiet w (then_do rw next)"
  by (cases rw; cases "fst rw") (auto simp: then_do_def quiet_def)

lemma print_line_quiet: "quiet w (print_line E l w)"
proof -
  obtain e w1 where e: "cl_Print E l w = (e, w1)" by force
  then show ?thesis using Print_frame [OF e] by (simp add: print_line_def quiet_def)
qed

lemma print_lines_quiet: "quiet w (print_lines E ls w)"
proof (induction ls arbitrary: w)
  case Nil
  show ?case by (simp add: quiet_def)
next
  case (Cons l ls)
  obtain e w1 where e: "cl_Print E l w = (e, w1)" by force
  show ?case using e Print_frame [OF e] Cons.IH [of w1] by (cases e) (simp_all add: quiet_def)
qed

lemma printPaths_quiet: "quiet w (printPaths E ps generation exists w)"
proof -
  obtain ns w1 where o: "sv_Order (cl_Serve E) w = (ns, w1)" by force
  have "quiet w (Ok (), w1)" using Order_frame [OF o] by (simp add: quiet_def)
  from quiet_trans [OF this print_lines_quiet] show ?thesis by (simp add: printPaths_def o)
qed

lemma live_key_quiet: "live_key E p w = (x, w') \<Longrightarrow> pol w' = pol w \<and> pth w' = pth w \<and> pr w' = pr w"
  using Stat_frame [of w "fst (sv_Stat (cl_Serve E) w)" "snd (sv_Stat (cl_Serve E) w)"]
  by (auto simp: live_key_def Let_def split: prod.splits if_splits)

lemma live_action_no_panic: "live_action E command cfg key \<noteq> Panic"
  using Prepare_no_panic by (auto simp: live_action_def split: sum.splits)

text \<open>One command over the opened maps, under the lock.\<close>

lemma live_status_quiet:
  assumes "OpenKernelMaps (sv_Library (cl_Serve E)) psel qsel w0 = (Inr ms, w0')"
  shows "quiet w (live_status E ms key w)"
proof -
  note laws = selected_daemon [OF assms]
  note store = daemon_laws.axioms(1) [OF laws(1)]
  obtain p w1 where p: "LookupPolicy (serve_daemon_env (cl_Serve E) ms) key w = (p, w1)" by force
  obtain ps pe w2 where ps: "Paths (serve_daemon_env (cl_Serve E) ms) key w1 = ((ps, pe), w2)" by (metis prod.exhaust)
  have f1: "pol w1 = pol w" "pth w1 = pth w" "pr w1 = pr w"
    using map_store_laws.LookupPolicy_frame [OF store p] store_frame.LookupPolicy_view [OF laws(2) p] by simp_all
  have f2: "pol w2 = pol w" "pth w2 = pth w" "pr w2 = pr w"
    using map_store_laws.Paths_frame [OF store ps] store_frame.Paths_view [OF laws(2) ps] f1 by simp_all
  have print: "quiet w2 (then_do (then_do (print_line E l w2) (printPaths E ps g b)) (print_line E CaveatLine))" for l g b
    by (intro quiet_then_do print_line_quiet printPaths_quiet)
  have "quiet w (Ok (), w2)" using f2 by (simp add: quiet_def)
  note out = quiet_trans [OF this print]
  show ?thesis
  proof (cases "\<exists>e. p = Inl e \<and> \<not> errors_Is e ErrNotFound")
    case True
    then show ?thesis using p f1 by (auto simp: live_status_def quiet_def)
  next
    case False
    then have "(case p of Inl e \<Rightarrow> if errors_Is e ErrNotFound then None else Some e | Inr _ \<Rightarrow> None) = None"
      by (auto split: sum.splits)
    then have "live_status E ms key w = (case pe of Some e \<Rightarrow> (Err e, w2) | None \<Rightarrow>
        then_do (then_do
          (print_line E (case p of Inl _ \<Rightarrow> AbsentLine key (length ps) | Inr mp \<Rightarrow> PolicyLine key mp) w2)
          (printPaths E ps (case p of Inl _ \<Rightarrow> 0 | Inr mp \<Rightarrow> mp_Generation mp) (case p of Inl _ \<Rightarrow> False | Inr _ \<Rightarrow> True)))
          (print_line E CaveatLine))"
      by (simp add: live_status_def p ps split: option.splits)
    moreover have "quiet w (Err e, w2)" for e using f2 by (simp add: quiet_def)
    ultimately show ?thesis using out by (cases pe) simp_all
  qed
qed

lemma live_command_effect:
  assumes open': "OpenKernelMaps (sv_Library (cl_Serve E)) psel qsel w0 = (Inr ms, w0')"
    and run: "live_command E ms action key w = (r, w')"
  shows "r \<noteq> Panic \<and> pr w' = pr w \<and> action_effect action key r (pol w) (pth w) (pol w') (pth w')"
proof -
  note laws = selected_daemon [OF open']
  note store = daemon_laws.axioms(1) [OF laws(1)]
  have after: "r \<noteq> Panic \<and> pr w' = pr w \<and> action_effect action key r (pol w) (pth w) (pol w') (pth w')"
    if "then_do (x, w1) (print_line E l) = (r, w')" "x \<noteq> Panic" "pr w1 = pr w"
      "action_effect action key x (pol w) (pth w) (pol w1) (pth w1)" for x w1 l
    using that(1)
  proof (cases rule: then_do_cases)
    case stop
    then show ?thesis using that by simp
  next
    case (go w2)
    then have "quiet w1 (r, w')" using print_line_quiet [of w1 l] by simp
    then show ?thesis using that go action_effect_error by (auto simp: quiet_def)
  qed
  show ?thesis
  proof (cases action)
    case (Apply plan)
    obtain x w1 where a: "ApplyLive (serve_daemon_env (cl_Serve E) ms) plan key w = (x, w1)" by force
    show ?thesis
      using run after [of x w1] map_store_laws.ApplyLive_action [OF store a] store_frame.ApplyLive_view [OF laws(2) a]
      by (simp add: live_command_def Apply a)
  next
    case Delete
    obtain e w1 where a: "DeleteLive (serve_daemon_env (cl_Serve E) ms) key w = (e, w1)" by force
    show ?thesis
      using run after [of "error_outcome e" w1] map_store_laws.DeleteLive_action [OF store a]
        store_frame.DeleteLive_view [OF laws(2) a]
      by (simp add: live_command_def Delete a)
  next
    case Status
    then show ?thesis using run live_status_quiet [OF open', of w key]
      by (simp add: live_command_def quiet_def action_effect_def)
  qed
qed

lemma live_locked_effect:
  assumes open': "OpenKernelMaps (sv_Library (cl_Serve E)) psel qsel w0 = (Inr ms, w0')"
    and run: "live_locked E ms action key w = (r, w')"
  shows "r \<noteq> Panic \<and> pr w' = pr w \<and> action_effect action key r (pol w) (pth w) (pol w') (pth w') \<and>
    (pr_Holds (pr w) \<noteq> {} \<longrightarrow> pol w' = pol w \<and> pth w' = pth w \<and> r \<noteq> Ok ())"
proof -
  obtain x w1 where x: "LockWriters (sv_Lock (cl_Serve E)) w = (x, w1)" by force
  note l = lock.LockWriters_effect [OF x]
  show ?thesis
  proof (cases x)
    case (Inl e)
    have p: "pr w1 = pr w" using l Inl by - (rule process_same(2), simp_all)
    moreover have "r = Err e" "w' = w1" using run x Inl by (simp_all add: live_locked_def)
    moreover have "pol w1 = pol w" "pth w1 = pth w" using l by simp_all
    ultimately show ?thesis using action_effect_none [of "Err e" action key] by simp
  next
    case (Inr fd)
    then have free: "pr_Holds (pr w) = {}" "fd \<notin> pr_LockFds (pr w)" using l by simp_all
    obtain y w2 where y: "live_command E ms action key w1 = (y, w2)" by force
    have res: "r = y" "w' = snd (LockClose (sv_Lock (cl_Serve E)) fd w2)"
      using run x Inr y by (simp_all add: live_locked_def)
    note c = live_command_effect [OF open' y] and u = lock.LockClose_snd [of fd w2]
    have "pr_LockFds (pr w') = pr_LockFds (pr w)" "pr_Holds (pr w') = pr_Holds (pr w)"
      "pr_LockFds_update (\<lambda>_. {}) (pr_Holds_update (\<lambda>_. {}) (pr w')) =
        pr_LockFds_update (\<lambda>_. {}) (pr_Holds_update (\<lambda>_. {}) (pr w))"
      using u c l Inr free by (auto simp: res)
    then have "pr w' = pr w" by (rule process_same(2))
    moreover have "pol w' = pol w2" "pth w' = pth w2" "pol w1 = pol w" "pth w1 = pth w" using u l by (simp_all add: res)
    ultimately show ?thesis using c free by (simp add: res(1))
  qed
qed

lemma live_opened_effect:
  assumes open': "OpenKernelMaps (sv_Library (cl_Serve E)) psel qsel w1 = (Inr ms, w2)"
    and z: "live_locked E ms action key w2 = (r, w3)"
    and c: "KernelMaps_Close (sv_Library (cl_Serve E)) ms w3 = (ce, w4)"
  shows "r \<noteq> Panic" "pr w4 = pr w1" "action_effect action key r (pol w1) (pth w1) (pol w4) (pth w4)"
    "pr_Holds (pr w1) \<noteq> {} \<Longrightarrow> pol w4 = pol w1 \<and> pth w4 = pth w1 \<and> r \<noteq> Ok ()"
proof -
  note o = maps.OpenKernelMaps_handles [OF open'] and l = live_locked_effect [OF open' z]
    and cl = maps.KernelMaps_Close_handles [OF c]
  have rest: "pr_Maps_update (\<lambda>_. {#}) (pr w2) = pr_Maps_update (\<lambda>_. {#}) (pr w1)" using o by simp
  have "pr_Maps (pr w4) = pr_Maps (pr w1)" "pr_Maps_update (\<lambda>_. {#}) (pr w4) = pr_Maps_update (\<lambda>_. {#}) (pr w1)"
    using cl o l by (auto split: prod.splits)
  then show "pr w4 = pr w1" by (rule process_same(1))
  have pre: "pr_Holds (pr w2) = pr_Holds (pr w1)" using arg_cong [OF rest, of pr_Holds] by simp
  have same: "pol w4 = pol w3" "pth w4 = pth w3" "pol w2 = pol w1" "pth w2 = pth w1" using cl o by simp_all
  show "r \<noteq> Panic" "action_effect action key r (pol w1) (pth w1) (pol w4) (pth w4)"
    "pr_Holds (pr w1) \<noteq> {} \<Longrightarrow> pol w4 = pol w1 \<and> pth w4 = pth w1 \<and> r \<noteq> Ok ()"
    using l pre same by simp_all
qed

lemma runLive_effect:
  assumes run: "runLive E command cfg psel qsel w = (r, w')"
  shows "r \<noteq> Panic \<and> pr w' = pr w \<and>
    (pol w' = pol w \<and> pth w' = pth w \<and> r \<noteq> Ok () \<or>
     (\<exists>key action. fst (live_key E (DualSteer cfg) w) = Inr key \<and> live_action E command cfg key = Ok action \<and>
        action_effect action key r (pol w) (pth w) (pol w') (pth w') \<and>
        (pr_Holds (pr w) \<noteq> {} \<longrightarrow> pol w' = pol w \<and> pth w' = pth w \<and> r \<noteq> Ok ())))"
proof (cases "psel = [] \<or> qsel = []")
  case True
  then show ?thesis using run by (auto simp: runLive_def)
next
  case False
  obtain x w1 where x: "live_key E (DualSteer cfg) w = (x, w1)" by force
  note f1 = live_key_quiet [OF x]
  show ?thesis
  proof (cases x)
    case (Inl e)
    then show ?thesis using run False x f1 by (auto simp: runLive_def)
  next
    case key: (Inr key)
    show ?thesis
    proof (cases "live_action E command cfg key")
      case (Err e)
      then show ?thesis using run False x f1 key by (auto simp: runLive_def)
    next
      case Panic
      then show ?thesis using live_action_no_panic by metis
    next
      case (Ok action)
      obtain y w2 where y: "OpenKernelMaps (sv_Library (cl_Serve E)) psel qsel w1 = (y, w2)" by force
      note o = maps.OpenKernelMaps_handles [OF y]
      show ?thesis
      proof (cases y)
        case (Inl e)
        have "pr w2 = pr w1" using o Inl by - (rule process_same(1), simp_all)
        moreover have "r = Err e" "w' = w2" using run False x key Ok y Inl by (simp_all add: runLive_def)
        moreover have "pol w2 = pol w1" "pth w2 = pth w1" using o by simp_all
        ultimately show ?thesis using f1 by simp
      next
        case ms: (Inr ms)
        obtain z w3 where z: "live_locked E ms action key w2 = (z, w3)" by force
        obtain ce w4 where c: "KernelMaps_Close (sv_Library (cl_Serve E)) ms w3 = (ce, w4)" by force
        have res: "r = z" "w' = w4" using run False x key Ok y ms z c by (simp_all add: runLive_def)
        show ?thesis using live_opened_effect [OF y [unfolded ms] z c] f1 x key Ok by (simp add: res)
      qed
    qed
  qed
qed

lemma dry_run_quiet: "quiet w (dry_run E cfg w)"
proof (cases "Prepare cfg (cl_Resolve E)")
  case (Ok plan)
  then have "config_ok cfg" "plan_Policy plan = DualSteer cfg" using Prepare_ok by metis+
  then have "Config_Validate \<lparr>DualSteer = plan_Policy plan\<rparr> = Ok ()" by (simp add: Config_Validate_ok config_ok_def)
  then obtain m where m: "MapPolicy plan = Ok m" using MapPolicy_valid by blast
  let ?p = "plan_Policy plan"
  have rest: "quiet w1 (if Connection ?p = None then (Ok (), w1)
      else case live_key E ?p w1 of (Inl e, w2) \<Rightarrow> (Err e, w2)
        | (Inr key, w2) \<Rightarrow> (case DesiredPaths ?p key of Inl e \<Rightarrow> (Err e, w2)
            | Inr desired \<Rightarrow> then_do (print_line E (PlannedConnectionLine key) w2) (printPaths E desired (Generation ?p) True)))"
    for w1
  proof -
    obtain x w2 where x: "live_key E ?p w1 = (x, w2)" by force
    have q: "quiet w1 (r, w2)" if "r \<noteq> Panic" for r using live_key_quiet [OF x] that by (simp add: quiet_def)
    have "quiet w1 (then_do (print_line E l w2) (printPaths E d g True))" for l d g
      by (rule quiet_trans [OF q [of "Ok ()"]]) (simp, intro quiet_then_do print_line_quiet printPaths_quiet)
    then show ?thesis using x q by (auto split: sum.splits simp: quiet_def)
  qed
  show ?thesis unfolding dry_run_def Ok outcome.case m Let_def
    by (intro quiet_then_do print_line_quiet rest)
next
  case (Err e)
  then show ?thesis by (simp add: dry_run_def quiet_def)
next
  case Panic
  then show ?thesis using Prepare_no_panic by metis
qed

lemma Decode_no_panic: "Decode yc ye d \<noteq> Panic"
  using Config_Validate_no_panic by (auto simp: Decode_def split: prod.splits sum.splits option.splits)

end

end
