(* ===== verification/CLIProperties.thy ===== *)
theory CLIProperties
  imports CLIEffects ServeWorld LiveProgress
begin

text \<open>
  The properties of the command line: the arguments it accepts, the order of its output, that a
  command changes no more than its one connection and gives back every resource, and what a command
  that succeeds has done. The last section interprets \<open>cli_laws\<close> on the concrete system.
\<close>

section \<open>A run of the command line\<close>

text \<open>What \<open>Run\<close> does with the open configuration file.\<close>

definition configured :: "('m, 'd, 'w) cli_env \<Rightarrow> cli_options \<Rightarrow> 'd \<Rightarrow> 'w \<Rightarrow> unit outcome \<times> 'w" where
  "configured E opts fl w =
     (case Decode (cl_Yaml E) (cl_YamlEnd E) fl of
        Panic \<Rightarrow> (Panic, w)
      | Err e \<Rightarrow> (Err e, w)
      | Ok cfg \<Rightarrow>
          if co_Command opts = ''validate'' then print_line E ValidLine w
          else if \<not> co_DryRun opts then runLive E (co_Command opts) cfg (co_PolicyMap opts) (co_PathMap opts) w
          else dry_run E cfg w)"

context cli_laws
begin

lemma configured_effect:
  assumes run: "configured E opts fl w = (r, w')" and sel: "co_PolicyMap opts = psel" "co_PathMap opts = qsel"
  shows "r \<noteq> Panic \<and> pr w' = pr w \<and>
    (pol w' = pol w \<and> pth w' = pth w \<and> (r = Ok () \<longrightarrow> co_Command opts = ''validate'' \<or> co_DryRun opts) \<or>
     (\<exists>cfg key action. Decode (cl_Yaml E) (cl_YamlEnd E) fl = Ok cfg \<and> co_Command opts \<noteq> ''validate'' \<and> \<not> co_DryRun opts \<and>
        fst (live_key E (DualSteer cfg) w) = Inr key \<and> live_action E (co_Command opts) cfg key = Ok action \<and>
        action_effect action key r (pol w) (pth w) (pol w') (pth w') \<and>
        (pr_Holds (pr w) \<noteq> {} \<longrightarrow> pol w' = pol w \<and> pth w' = pth w \<and> r \<noteq> Ok ())))"
proof (cases "Decode (cl_Yaml E) (cl_YamlEnd E) fl")
  case (Err e)
  then show ?thesis using run by (auto simp: configured_def)
next
  case Panic
  then show ?thesis using Decode_no_panic by metis
next
  case (Ok cfg)
  show ?thesis
  proof (cases "co_Command opts = ''validate'' \<or> co_DryRun opts")
    case True
    then have "(r, w') = print_line E ValidLine w \<or> (r, w') = dry_run E cfg w" using run by (auto simp: configured_def Ok split: if_splits)
    then have "quiet w (r, w')" using print_line_quiet dry_run_quiet by metis
    then show ?thesis using True by (simp add: quiet_def)
  next
    case False
    then have "runLive E (co_Command opts) cfg psel qsel w = (r, w')" using run sel by (simp add: configured_def Ok)
    from runLive_effect [OF this] False Ok show ?thesis by blast
  qed
qed

lemma run_config_effect:
  assumes run: "run_config E opts w = (r, w')" and sel: "co_PolicyMap opts = psel" "co_PathMap opts = qsel"
  shows "r \<noteq> Panic \<and> pr w' = pr w \<and>
    (pol w' = pol w \<and> pth w' = pth w \<and> (r = Ok () \<longrightarrow> co_Command opts = ''validate'' \<or> co_DryRun opts) \<or>
     (\<exists>fl cfg w1 key action.
        fst (cl_Open E (co_Config opts) w) = Inr fl \<and> Decode (cl_Yaml E) (cl_YamlEnd E) fl = Ok cfg \<and>
        co_Command opts \<noteq> ''validate'' \<and> \<not> co_DryRun opts \<and>
        fst (live_key E (DualSteer cfg) w1) = Inr key \<and> live_action E (co_Command opts) cfg key = Ok action \<and>
        action_effect action key r (pol w) (pth w) (pol w') (pth w') \<and>
        (pr_Holds (pr w) \<noteq> {} \<longrightarrow> pol w' = pol w \<and> pth w' = pth w \<and> r \<noteq> Ok ())))"
proof -
  obtain x w1 where x: "cl_Open E (co_Config opts) w = (x, w1)" by force
  note o = Open_frame [OF x]
  show ?thesis
  proof (cases x)
    case (Inl e)
    then show ?thesis using run x o by (auto simp: run_config_def)
  next
    case (Inr fl)
    obtain y w2 where y: "configured E opts fl w1 = (y, w2)" by force
    have "run_config E opts w = (let (r, w2) = configured E opts fl w1 in (r, snd (cl_CloseFile E fl w2)))"
      by (simp add: run_config_def x Inr configured_def)
    then have res: "r = y" "w' = snd (cl_CloseFile E fl w2)" using run y by simp_all
    have c: "pol w' = pol w2" "pth w' = pth w2" "pr w' = pr w2"
      using CloseFile_frame [of fl w2 "fst (cl_CloseFile E fl w2)" w'] res(2) by simp_all
    have "fst (cl_Open E (co_Config opts) w) = Inr fl" using x Inr by simp
    with configured_effect [OF y sel] show ?thesis unfolding res(1) c using o by metis
  qed
qed

end

lemma Run_options:
  assumes "take 1 args \<noteq> [''serve'']" "parse_args args default_options = Inr (Some opts)" "Run E run args w = (r, w')"
  obtains (refused) e where "r = Err e" "w' = w" "co_DryRun opts" "co_Command opts \<noteq> ''apply''"
  | (config) opts' where "run_config E opts' w = (r, w')" "co_Config opts' = co_Config opts" "co_DryRun opts' = co_DryRun opts"
      "co_PolicyMap opts' = co_PolicyMap opts" "co_PathMap opts' = co_PathMap opts"
      "co_Command opts' = (if co_Command opts = [] then ''validate'' else co_Command opts)"
proof -
  let ?o = "if co_Command opts = [] then opts\<lparr>co_Command := ''validate''\<rparr> else opts"
  have "\<not> (args \<noteq> [] \<and> hd args = ''serve'')" using assms(1) by (cases args) auto
  then have run: "(if co_DryRun ?o \<and> co_Command ?o \<noteq> ''apply''
      then (Err (errors_New ''--dry-run is only valid with apply''), w) else run_config E ?o w) = (r, w')"
    using assms(3) by (simp only: Run_def assms(2) if_False sum.case option.case Let_def)
  show thesis
  proof (cases "co_DryRun ?o \<and> co_Command ?o \<noteq> ''apply''")
    case True
    with run have "r = Err (errors_New ''--dry-run is only valid with apply'')" "w' = w" by simp_all
    moreover have "co_DryRun opts" "co_Command opts \<noteq> ''apply''" using True by (auto split: if_splits)
    ultimately show thesis by (rule refused)
  next
    case False
    with run have "run_config E ?o w = (r, w')" by simp
    then show thesis by (rule config) simp_all
  qed
qed

lemma live_action_cases:
  assumes "live_action E command cfg key = Ok action"
  shows "(command = ''apply'' \<longrightarrow> (\<exists>plan. action = Apply plan \<and> Prepare cfg (cl_Resolve E) = Ok plan)) \<and>
    (command = ''delete'' \<longrightarrow> action = Delete) \<and> (command \<noteq> ''apply'' \<and> command \<noteq> ''delete'' \<longrightarrow> action = Status)"
proof -
  have "\<exists>plan. action = Apply plan \<and> Prepare cfg (cl_Resolve E) = Ok plan" if "command = ''apply''"
  proof -
    from assms that obtain plan where "Prepare cfg (cl_Resolve E) = Ok plan"
      "(case DesiredPaths (plan_Policy plan) key of Inl e \<Rightarrow> Err e | Inr _ \<Rightarrow> Ok (Apply plan)) = Ok action"
      by (simp add: live_action_def) blast
    then show ?thesis by (cases "DesiredPaths (plan_Policy plan) key") simp_all
  qed
  moreover have "action = Delete" if "command = ''delete''" using assms that by (simp add: live_action_def)
  moreover have "action = Status" if "command \<noteq> ''apply''" "command \<noteq> ''delete''" using assms that by (simp add: live_action_def)
  ultimately show ?thesis by blast
qed

lemma live_action_commits:
  assumes act: "live_action E command cfg key = Ok action" and eff: "action_effect action key (Ok ()) P T P' T'"
  shows "command = ''apply'' \<Longrightarrow> \<exists>plan mp. Prepare cfg (cl_Resolve E) = Ok plan \<and> MapPolicy plan = Ok mp \<and>
      P' = P(key \<mapsto> mp) \<and> (\<forall>q. T' q = (if pk_Conn q = key then desired_path (plan_Policy plan) key q else T q)) \<and>
      (\<forall>old. P key = Some old \<longrightarrow> mp_Generation old < mp_Generation mp)"
    and "command = ''delete'' \<Longrightarrow> P' key = None \<and> (\<forall>q. pk_Conn q = key \<longrightarrow> T' q = None)"
  using live_action_cases [OF act] eff by (auto simp: action_effect_def)

section \<open>Properties\<close>

text \<open>
  C39: the arguments that are accepted are exactly the sequences of commands and options, in any order,
  with nonempty values and at most one command, and the options are those the sequence sets, the
  last one winning.
\<close>

theorem cli_args_grammar:
  "parse_args args default_options = Inr (Some opts) \<longleftrightarrow>
    (\<exists>items. args = concat (map item_tokens items) \<and> list_all item_ok items \<and> length (filter is_command items) \<le> 1 \<and>
       opts = fold item_set items default_options)"
  using parse_args_items [of args default_options opts] parse_items [of default_options]
  by (auto simp: items_ok_def default_options_def)

text \<open>
  The lines printed for the paths of one connection do not depend on the order of the map: they are
  those of the paths, each once, by increasing identifiers.
\<close>

theorem print_paths_sorted:
  assumes "wf_map ps" "list_all (\<lambda>(k, v). pk_Conn k = key) ps"
  shows "path_lines ns ps generation exists = path_lines [] ps generation exists \<and>
    mset (path_lines ns ps generation exists) =
      image_mset (\<lambda>(k, v). PathLine (pk_LocalID k) (pk_RemoteID k) (path_Generation v) (path_Access v)
        (exists \<and> path_Generation v = generation)) (mset ps) \<and>
    (\<exists>ids. ids = map (\<lambda>l. case l of PathLine a b g c m \<Rightarrow> (a, b) | _ \<Rightarrow> (0, 0)) (path_lines ns ps generation exists) \<and>
       sorted ids \<and> distinct ids)"
proof -
  have conn: "pk_Conn k = key" if "k \<in> fst ` set ps" for k using assms(2) that by (auto simp: list_all_iff)
  let ?ks = "sort_key key_ids (map fst (go_range ns ps))"
  have "mset (map (path_line ps generation exists) ?ks) = image_mset (path_line ps generation exists \<circ> fst) (mset ps)"
    by (simp add: image_mset.compositionality)
  also have "\<dots> = image_mset (\<lambda>(k, v). PathLine (pk_LocalID k) (pk_RemoteID k) (path_Generation v) (path_Access v)
        (exists \<and> path_Generation v = generation)) (mset ps)"
  proof (rule image_mset_cong)
    fix kv
    assume "kv \<in># mset ps"
    then have "map_of ps (fst kv) = Some (snd kv)" using assms(1) by simp
    then show "(path_line ps generation exists \<circ> fst) kv = (\<lambda>(k, v). PathLine (pk_LocalID k) (pk_RemoteID k)
        (path_Generation v) (path_Access v) (exists \<and> path_Generation v = generation)) kv"
      by (cases kv) (simp add: path_line_def Let_def del: map_of_eq_Some_iff)
  qed
  finally have "mset (path_lines ns ps generation exists) = \<dots>" by (simp add: path_lines_def)
  moreover have "map (\<lambda>l. case l of PathLine a b g c m \<Rightarrow> (a, b) | _ \<Rightarrow> (0, 0)) (path_lines ns ps generation exists) = map key_ids ?ks"
    by (simp add: path_lines_def path_line_def key_ids_def Let_def)
  moreover have "path_lines ns ps generation exists = path_lines [] ps generation exists"
    using sorted_keys_unique(1) [OF assms(1) conn, of ns] by (simp add: path_lines_def)
  moreover have "sorted (map key_ids ?ks)" by (rule sorted_sort_key)
  moreover have "distinct (map key_ids ?ks)" by (rule sorted_keys_unique(2) [OF assms(1) conn])
  ultimately show ?thesis by (intro conjI exI [of _ "map key_ids ?ks"]) simp_all
qed

lemma print_paths_sorted_witness:
  "path_lines [1] [(ex_path 2, \<lparr>path_Generation = 3, path_Access = 1\<rparr>), (ex_path 1, \<lparr>path_Generation = 2, path_Access = 0\<rparr>)] 3 True =
    [PathLine 1 0 2 0 False, PathLine 2 0 3 1 True]"
proof -
  let ?ps = "[(ex_path 2, \<lparr>path_Generation = 3, path_Access = 1\<rparr>), (ex_path 1, \<lparr>path_Generation = 2, path_Access = 0\<rparr>)]"
  have "path_lines [1] ?ps 3 True = path_lines [] ?ps 3 True"
    using print_paths_sorted [of ?ps ex_key "[1]" 3 True] by (simp add: ex_path_def)
  also have "\<dots> = [PathLine 1 0 2 0 False, PathLine 2 0 3 1 True]" by code_simp
  finally show ?thesis .
qed

text \<open>
  C38: a command other than \<open>serve\<close> never panics, gives back every resource, and changes the maps of at
  most one connection; \<open>validate\<close>, \<open>status\<close>, a dry run and a command that finds the writer lock
  taken by the process change nothing.
\<close>

theorem cli_run_safe:
  assumes "cli_laws E pr pol pth (co_PolicyMap opts) (co_PathMap opts)" "take 1 args \<noteq> [''serve'']"
    and "parse_args args default_options = Inr (Some opts)" "Run E run args w = (r, w')"
  shows "r \<noteq> Panic \<and> pr w' = pr w \<and> (\<exists>key. touches key (pol w) (pth w) (pol w') (pth w')) \<and>
    (co_Command opts \<notin> {''apply'', ''delete''} \<or> co_DryRun opts \<or> pr_Holds (pr w) \<noteq> {} \<longrightarrow> pol w' = pol w \<and> pth w' = pth w)"
  using assms(2-4)
proof (cases rule: Run_options)
  case (refused e)
  have "touches key (pol w) (pth w) (pol w) (pth w)" for key by (rule touches_refl)
  with refused show ?thesis by simp
next
  case (config opts')
  have sel: "co_PolicyMap opts' = co_PolicyMap opts" "co_PathMap opts' = co_PathMap opts" by (rule config(4,5))+
  note eff = cli_laws.run_config_effect [OF assms(1) config(1) sel]
  show ?thesis
  proof (cases "pol w' = pol w \<and> pth w' = pth w")
    case True
    then have "touches key (pol w) (pth w) (pol w') (pth w')" for key by simp
    with True eff show ?thesis by blast
  next
    case False
    with eff obtain cfg key action where a: "\<not> co_DryRun opts'" "live_action E (co_Command opts') cfg key = Ok action"
      "action_effect action key r (pol w) (pth w) (pol w') (pth w')" "\<not> pr_Holds (pr w) \<noteq> {}" by blast
    have "action \<noteq> Status" using a(3) False by (auto simp: action_effect_def)
    then have "co_Command opts' \<in> {''apply'', ''delete''}" using live_action_cases [OF a(2)] by blast
    then have c: "co_Command opts \<in> {''apply'', ''delete''}" using config(6) by (auto split: if_splits)
    have "touches key (pol w) (pth w) (pol w') (pth w')"
      using a(3) \<open>action \<noteq> Status\<close> by (cases action) (simp_all add: action_effect_def)
    with c a(1,4) config(3) eff show ?thesis by auto
  qed
qed

text \<open>
  C37: an \<open>apply\<close> that succeeds has committed the plan of the configuration file: the policy and
  exactly the paths of its endpoints under the connection the file names, with a generation above
  the one it replaced; a \<open>delete\<close> that succeeds has left nothing of that connection.
\<close>

theorem cli_live_commits:
  assumes "cli_laws E pr pol pth (co_PolicyMap opts) (co_PathMap opts)" "take 1 args \<noteq> [''serve'']"
    and "parse_args args default_options = Inr (Some opts)" "Run E run args w = (Ok (), w')"
    and "co_Command opts \<in> {''apply'', ''delete''}" "\<not> co_DryRun opts"
  shows "\<exists>fl cfg w1 key.
    fst (cl_Open E (co_Config opts) w) = Inr fl \<and> Decode (cl_Yaml E) (cl_YamlEnd E) fl = Ok cfg \<and>
    fst (live_key E (DualSteer cfg) w1) = Inr key \<and>
    (co_Command opts = ''apply'' \<longrightarrow> (\<exists>plan mp. Prepare cfg (cl_Resolve E) = Ok plan \<and> MapPolicy plan = Ok mp \<and>
       pol w' = (pol w)(key \<mapsto> mp) \<and>
       (\<forall>q. pth w' q = (if pk_Conn q = key then desired_path (plan_Policy plan) key q else pth w q)) \<and>
       (\<forall>old. pol w key = Some old \<longrightarrow> mp_Generation old < mp_Generation mp))) \<and>
    (co_Command opts = ''delete'' \<longrightarrow> pol w' key = None \<and> (\<forall>q. pk_Conn q = key \<longrightarrow> pth w' q = None))"
  using assms(2-4)
proof (cases rule: Run_options)
  case (refused e)
  then show ?thesis by simp
next
  case (config opts')
  have sel: "co_PolicyMap opts' = co_PolicyMap opts" "co_PathMap opts' = co_PathMap opts" by (rule config(4,5))+
  have cmd: "co_Command opts' = co_Command opts" using config(6) assms(5) by auto
  have nv: "co_Command opts' \<noteq> ''validate''" using assms(5) cmd by auto
  from cli_laws.run_config_effect [OF assms(1) config(1) sel] nv assms(6) config(3)
  obtain fl cfg w1 key action where a:
    "fst (cl_Open E (co_Config opts') w) = Inr fl" "Decode (cl_Yaml E) (cl_YamlEnd E) fl = Ok cfg"
    "fst (live_key E (DualSteer cfg) w1) = Inr key" "live_action E (co_Command opts') cfg key = Ok action"
    "action_effect action key (Ok ()) (pol w) (pth w) (pol w') (pth w')"
    by blast
  have fl: "fst (cl_Open E (co_Config opts) w) = Inr fl" using a(1) config(2) by simp
  show ?thesis using fl a(2,3) live_action_commits [OF a(4,5), unfolded cmd] by blast
qed

section \<open>The concrete system\<close>

definition ex_config :: config where
  "ex_config = \<lparr>DualSteer = (plan_Policy (ex_plan 2))\<lparr>Connection := Some \<lparr>Token = Some 7, NetNSInode = 0\<rparr>\<rparr>\<rparr>"

text \<open>A file system with one configuration file; the writer never fails.\<close>

definition os_cli :: "(u32, config, os_world) cli_env" where
  "os_cli =
     \<lparr>cl_Serve = os_env ex_ifs ex_netns,
      cl_Open = \<lambda>f w. (if f = ''config.yaml'' then Inr ex_config else Inl (Errno ENOENT), w),
      cl_Yaml = \<lambda>c. (Inr c, c), cl_YamlEnd = \<lambda>c. Some io_EOF, cl_CloseFile = \<lambda>c w. (None, w),
      cl_Resolve = ResolveInterface ex_ifs, cl_Print = \<lambda>l w. (None, w), cl_PrintError = \<lambda>e w. (None, w)\<rparr>"

interpretation os_cli: cli_laws os_cli os_process os_policies os_paths psel qsel for psel qsel
proof (intro cli_laws.intro cli_laws_axioms.intro)
  show "serve_laws (cl_Serve os_cli) os_process os_policies os_paths psel qsel"
    by (simp add: os_cli_def os_serve_laws)
  fix w :: os_world and ns w'
  assume "sv_Order (cl_Serve os_cli) w = (ns, w')"
  then have o: "on_bpf next_order w = (ns, w')" by (simp add: os_cli_def)
  have "os_process w' = os_process w" using o by (auto simp: on_bpf_iff)
  with os_kernel.order_frame [OF o] show "os_policies w' = os_policies w \<and> os_paths w' = os_paths w \<and> os_process w' = os_process w"
    by simp
qed (auto simp: os_cli_def)

lemma os_cli_laws: "cli_laws os_cli os_process os_policies os_paths psel qsel"
  by (rule os_cli.cli_laws_axioms)

definition ex_machine :: os_world where
  "ex_machine =
     \<lparr>os_bpf = ex_world [],
      os_infos = [(1, \<lparr>mi_Name = ''ds_policy_map'', mi_Type = 1, mi_KeySize = 16, mi_ValueSize = 24\<rparr>),
                  (2, \<lparr>mi_Name = ''ds_path_map'', mi_Type = 1, mi_KeySize = 24, mi_ValueSize = 8\<rparr>)],
      os_pins = [], os_handles = [], os_lock_fds = [], os_lock_holder = None,
      os_lock_busy = False, os_sockets = [], os_listeners = []\<rparr>"

definition ex_args :: "string \<Rightarrow> string list" where
  "ex_args command = [''--policy-map'', ''id:1'', command, ''--path-map'', ''id:2'']"

definition ex_options :: "string \<Rightarrow> cli_options" where
  "ex_options command =
     \<lparr>co_Config = ''config.yaml'', co_Command = command, co_DryRun = False, co_PolicyMap = ''id:1'', co_PathMap = ''id:2''\<rparr>"

lemma ex_args_parsed:
  "parse_args (ex_args ''apply'') default_options = Inr (Some (ex_options ''apply''))"
  "parse_args (ex_args ''status'') default_options = Inr (Some (ex_options ''status''))"
  by code_simp+

definition no_run :: serve_run where
  "no_run = \<lparr>sr_Running = [], sr_Cause = None, sr_Draining = [], sr_Shutdown = None, sr_Late = []\<rparr>"

lemma cli_run_safe_witness:
  "os_policies (snd (Run os_cli no_run (ex_args ''status'') ex_machine)) ex_key = os_policies ex_machine ex_key \<and>
   os_process (snd (Run os_cli no_run (ex_args ''status'') ex_machine)) = os_process ex_machine"
proof -
  let ?run = "Run os_cli no_run (ex_args ''status'') ex_machine"
  obtain r w' where run: "?run = (r, w')" by force
  have args: "take 1 (ex_args ''status'') \<noteq> [''serve'']" by (simp add: ex_args_def)
  from cli_run_safe [OF os_cli_laws args ex_args_parsed(2) run] show ?thesis
    unfolding run by (simp add: ex_options_def)
qed

lemma cli_live_commits_witness:
  "mp_Generation (the (os_policies (snd (Run os_cli no_run (ex_args ''apply'') ex_machine)) ex_key)) = 2"
proof -
  let ?run = "Run os_cli no_run (ex_args ''apply'') ex_machine"
  have v: "fst ?run = Ok ()" by code_simp
  obtain r w' where run: "?run = (r, w')" by force
  with v have run: "?run = (Ok (), w')" by simp
  have args: "take 1 (ex_args ''apply'') \<noteq> [''serve'']" by (simp add: ex_args_def)
  have cmd: "co_Command (ex_options ''apply'') = ''apply''" "\<not> co_DryRun (ex_options ''apply'')" by (simp_all add: ex_options_def)
  from cli_live_commits [OF os_cli_laws args ex_args_parsed(1) run] cmd
  obtain fl cfg w1 key plan mp where c: "fst (cl_Open os_cli (co_Config (ex_options ''apply'')) ex_machine) = Inr fl"
    "Decode (cl_Yaml os_cli) (cl_YamlEnd os_cli) fl = Ok cfg" "fst (live_key os_cli (DualSteer cfg) w1) = Inr key"
    "Prepare cfg (cl_Resolve os_cli) = Ok plan" "MapPolicy plan = Ok mp" "os_policies w' = (os_policies ex_machine)(key \<mapsto> mp)"
    by auto
  have fl: "fl = ex_config" using c(1) by (simp add: os_cli_def ex_options_def)
  have dec: "Decode (cl_Yaml os_cli) (cl_YamlEnd os_cli) ex_config = Ok ex_config" by code_simp
  have cfg: "cfg = ex_config" using c(2) dec fl by simp
  have gen: "Generation (DualSteer ex_config) = 2" by (simp add: ex_config_def ex_plan_def)
  have "plan_Policy plan = DualSteer ex_config" using c(4) Prepare_ok cfg by metis
  then have mp: "mp_Generation mp = 2" using MapPolicy_Generation [OF c(5)] gen by simp
  have "key = ex_key"
    using c(3) by (simp add: cfg live_key_def os_cli_def ex_config_def Let_def ConnectionKey_def CurrentNetNSInode_def
        ex_key_def ex_netns_def)
  then show ?thesis unfolding run by (simp add: c(6) mp)
qed

end
