(* ===== verification/Spec2Isabelle.thy ===== *)
theory Spec2Isabelle
  imports PolicyProperties DaemonProperties DaemonRefinement PMProperties HistoryProperties HttpProperties ServeProperties CLIProperties
begin

text \<open>
  A model of the dual-steer agent and its proofs of correctness.

  The program. The agent steers the subflows of MPTCP connections over two access legs. A BPF
  packet scheduler in the kernel reads two hash maps: one policy per connection, keyed by network
  namespace and token, and one entry per path of the connection. The agent is their only writer.
  It runs in one of two ways. As a command (\<open>cli.go\<close>) it validates a YAML file, or applies, shows
  or deletes the entries of one connection. As a server (\<open>serve.go\<close>, \<open>daemon.go\<close>) it takes
  assignments over HTTP, learns of connections from the kernel's MPTCP path-manager events
  (\<open>pm_linux.go\<close>), binds the ones to the others and keeps the maps in line with both. Both ways
  share the live transaction (\<open>live.go\<close>), which replaces one connection's entries by staging the
  paths before it commits the policy, and the store over the two maps (\<open>maps.go\<close>,
  \<open>kernel_linux.go\<close>).

  Theories and sources, in the order of the code's layers. All paths are under \<open>src/\<close>; \<open>agent/\<close>
  stands for \<open>dualsteer-agent/\<close>. A definition has the name of the Go function or type it models;
  a method has its receiver in front where the name alone would be ambiguous.

  \<^item> \<open>Prelude\<close>: machine integers, Go error values with \<open>errors.Is\<close> and \<open>errors.Join\<close>, the result
    type \<open>outcome\<close> (\<open>Ok\<close>, \<open>Err\<close> and \<open>Panic\<close>), Go maps as association lists and the order of a range
    over them. \<open>GoStrings\<close>, \<open>Netip\<close>: what the program uses of \<open>strings\<close>, \<open>unicode/utf8\<close>,
    \<open>encoding/binary\<close> and \<open>net/netip\<close>; \<open>Netip_Roundtrip\<close> proves that a printed address parses back.
  \<^item> \<open>ControlPlane\<close>: the wire types and validators of \<open>controlplane/protocol.go\<close>. \<open>AgentConfig\<close>:
    the configuration and \<open>Config.Validate\<close>, \<open>Prepare\<close>, \<open>Decode\<close> of \<open>agent/config.go\<close>.
    \<open>PolicyProperties\<close>: each validator accepts exactly a declarative specification.
  \<^item> \<open>MapStore\<close>: map keys and values and the interface \<open>MapStore\<close> of \<open>agent/maps.go\<close>, a record of
    state-passing functions. \<open>Live\<close>: \<open>DesiredPaths\<close>, \<open>ApplyLive\<close>, \<open>DeleteLive\<close> and their loops of
    \<open>agent/live.go\<close>. \<open>LiveProgress\<close>: their progress, the order of their writes, their properties.
  \<^item> \<open>KernelMaps\<close>, \<open>KernelOpen\<close>: \<open>agent/kernel_linux.go\<close>, the methods of the store and the
    functions that acquire and release maps and the writer lock. \<open>BpfWorld\<close>: a concrete pair of
    maps with capacities, a schedule of injected errors, iteration orders and a log of writes.
  \<^item> \<open>PMEvents\<close>, \<open>PMStream\<close>: the netlink decoders, \<open>SubscribePM\<close> and \<open>Run\<close> of \<open>agent/pm_linux.go\<close>.
    \<open>PMEncoding\<close> and \<open>PMStreamFacts\<close> describe the kernel's encoding and the loops as functions of
    the events; \<open>PMProperties\<close> holds the properties.
  \<^item> \<open>Daemon\<close>, \<open>DaemonStatus\<close>: \<open>agent/daemon.go\<close>. The tables are the record \<open>daemon\<close>
    (\<open>d_contexts\<close> for \<open>contexts\<close>, \<open>d_connections\<close> for \<open>connections\<close>, \<open>d_fatal\<close> for \<open>fatal\<close>); the
    operations are \<open>Daemon_Put\<close>, \<open>Daemon_Delete\<close>, \<open>Daemon_Observe\<close>, \<open>Daemon_Retry\<close>, \<open>Daemon_Fail\<close>,
    \<open>Daemon_Cleanup\<close> and \<open>Daemon_Status\<close>, all but the last two by way of \<open>reconcileLocked\<close>.
    \<open>DaemonInv\<close>: the invariant \<open>daemon_inv\<close> and its preservation. \<open>DaemonConverge\<close>: what a
    successful reconciliation leaves. \<open>DaemonHistory\<close>: how contexts and observations evolve.
    \<open>DaemonRuns\<close>: runs as the inductive relation \<open>daemon_reach\<close>. \<open>DaemonProgress\<close>: success when
    the environment cooperates. \<open>DaemonRefinement\<close>: the specification \<open>settle\<close>, which the requests
    implement. \<open>DaemonProperties\<close> and \<open>HistoryProperties\<close> hold the other properties.
  \<^item> \<open>HttpApi\<close>, \<open>Serve\<close>: \<open>agent/serve.go\<close>, the handler and the life of the server. \<open>ServeLoop\<close>: the
    event worker, the HTTP server and the main goroutine of \<open>Serve\<close> step by step, with the channel
    \<open>failures\<close> (\<open>sy_Failures\<close>), the context (\<open>sy_Ctx\<close>) and the \<open>select\<close> (\<open>select_step\<close>). \<open>PutErrors\<close>:
    a reconciliation never returns \<open>ErrAssignmentRejected\<close>. \<open>ServeFacts\<close>, \<open>ServeLoopFacts\<close>,
    \<open>StoreFrame\<close>, \<open>ServeLaws\<close>, \<open>ServeWorld\<close> hold the lemmas and the concrete system,
    \<open>HttpProperties\<close> and \<open>ServeProperties\<close> the properties.
  \<^item> \<open>CLI\<close>: \<open>agent/cli.go\<close> and \<open>agent/cmd/dualsteer-agent/main.go\<close>, with \<open>CLIFacts\<close>, \<open>CLIEffects\<close>
    and \<open>CLIProperties\<close>.

  State and effects. A call takes the world \<open>'w\<close> and returns it updated; the world is a parameter,
  so the facts hold of every system that keeps the contracts. What the code relies on outside the
  repository is stated in locales: \<open>map_store_laws\<close> (the interface \<open>MapStore\<close>; any call may fail,
  a failed write has no effect), \<open>ebpf_hash\<close> and \<open>kernel_maps\<close> (the methods of \<open>cilium/ebpf\<close>, from
  which \<open>map_store_laws\<close> follows for the agent's store by a \<open>sublocale\<close>), \<open>map_library\<close> and
  \<open>writer_lock\<close> (opening maps, the lock file), \<open>netlink_sockets\<close> and \<open>listener_calls\<close> (sockets),
  \<open>daemon_laws\<close> (the store with the address validator), \<open>reliable_store\<close> and \<open>reliable_env\<close> (calls
  that succeed while there is room), \<open>logged_store\<close> (a log of writes), \<open>store_frame\<close>, \<open>ebpf_frame\<close>
  and \<open>kernel_frame\<close> (what no call changes), \<open>serve_laws\<close> and \<open>cli_laws\<close> (all of it together),
  \<open>foreign_map\<close> and \<open>foreign_errors\<close> (no call outside the agent returns the agent's own sentinel
  \<open>ErrAssignmentRejected\<close>). Each is interpreted on the concrete world of \<open>BpfWorld\<close>, \<open>KernelOpen\<close> and \<open>ServeWorld\<close>, on which
  every property with hypotheses also has an instance.

  Errors are values of \<open>go_error\<close>, in which \<open>errors.Is\<close> and \<open>errors.Join\<close> behave as in Go; the
  arguments a message prints are dropped. An index out of range and a nil dereference are
  \<open>Panic\<close>. The order of a range over a Go map is chosen by the world at each range (\<open>MapOrder\<close>).

  Concurrency. The daemon's mutex makes each exported operation one step. The event worker, the
  HTTP handlers and the retry ticker perform such steps in an arbitrary interleaving: a run of the
  daemon is an inductive relation, and a life of the server takes lists of steps for its phases
  (\<open>serve_run\<close>), among them the handlers that outlive a timed-out shutdown. Below that, \<open>ServeLoop\<close>
  lets the goroutines move one critical section, send or receive at a time: a schedule is any list
  of steps, a step that is not enabled changes nothing, and \<open>schedule_refines_serve\<close> shows that every
  schedule that returns is such a life, with the cause that came out of the channel. A send by the
  HTTP server is one step with the return of \<open>server.Serve\<close>, whose result is \<open>ErrServerClosed\<close> only
  after \<open>Shutdown\<close> was called. The two critical
  sections of a \<open>PUT\<close> are separate steps with anything between them. Other processes may change
  the entries of other namespaces at any time.

  Termination. Every loop of the code is a total function: loops over finite data are structural,
  the parsers of attributes and messages recurse on the remaining length. The receive loop and the
  server run until they are stopped, so they take the list of what their iterations are told (the
  context, \<open>poll\<close>, \<open>recvmsg\<close>) or of the steps performed; nothing bounds its length, no fuel is
  used, and \<open>None\<close> means that the loop is still running at the end of the list. \<open>run_stops_on_cancel\<close>
  shows that a canceled context ends it, and \<open>schedule_refines_serve\<close> that the wait for the goroutines ends.

  What is proved, by group.
  \<^item> The daemon implements its specification: \<open>requests_refine_settle\<close>, \<open>retry_converges\<close>,
    \<open>daemon_no_orphans\<close>, \<open>daemon_isolated\<close>, \<open>daemon_well_formed\<close>, \<open>cleanup_empties_namespace\<close>,
    \<open>context_match_unique\<close>; over time \<open>put_outcome\<close>, \<open>context_history\<close>, \<open>observe_keeps_event\<close>,
    \<open>fatal_is_sticky\<close>; its report \<open>status_truth\<close>. The room asked for in \<open>retry_converges\<close> is 257
    entries per connection: at most 256 flows, which \<open>daemon_isolated\<close> bounds, and the policy.
  \<^item> The transaction: \<open>apply_live_never_partial\<close>, \<open>apply_live_commits\<close>, \<open>apply_live_rollback\<close>,
    \<open>apply_live_write_order\<close>, \<open>apply_live_stale\<close>, \<open>apply_live_progress\<close>, \<open>delete_live_complete\<close>.
  \<^item> The event stream: \<open>event_round_trip\<close>, \<open>netlink_attrs_grammar\<close>, \<open>pm_decoders_no_panic\<close>,
    \<open>run_loses_nothing\<close>, \<open>run_fails_closed\<close>, \<open>run_stops_on_cancel\<close>, \<open>subscribe_resolves\<close>,
    \<open>subscribe_boundary\<close>.
  \<^item> The inputs: \<open>config_validate_iff\<close>, \<open>assignment_validate_iff\<close>, \<open>parse_address_canonical\<close>,
    \<open>validated_policy_plans\<close>, \<open>cli_args_grammar\<close>.
  \<^item> The server and the commands: \<open>serve_lifecycle\<close>, \<open>serve_releases_resources\<close>,
    \<open>schedule_refines_serve\<close>, \<open>lost_stream_stops_server\<close>, \<open>http_put_response\<close>, \<open>http_delete_get_response\<close>, \<open>cli_run_safe\<close>,
    \<open>cli_live_commits\<close>.

  What modelling showed. \<open>late_put_survives_cleanup\<close>: a handler that outlives a timed-out shutdown
  can commit a policy after \<open>Cleanup\<close>. \<open>parse_address_mapped_unspecified\<close>: \<open>ParseAddress\<close> accepts
  the IPv4-mapped unspecified address it means to refuse. \<open>interface_name_gap\<close>: the control plane
  accepts interface names the agent's configuration check refuses, so such an assignment is held
  but can never be applied.

  Not modelled. The C code of the BPF scheduler and its headers, of which only the capacities and
  the layout of the maps matter here. The libraries: the YAML and JSON decoders, the routing,
  timeouts and connections of \<open>net/http\<close>, \<open>cilium/ebpf\<close>, the system calls; they are parameters. The
  text of messages and of printed lines: a printed line is a value with what the format prints.
  Memory and the collection of the store's handles by Go's finalizers. Bodies larger than the
  handler's limit reach the model as a decoder error.
\<close>

end
